(* ===== verification/Prelude.thy ===== *)
theory Prelude
  imports
    Main
    "HOL-Library.Finite_Map"
    "HOL-Library.Multiset"
    "HOL-Library.Char_ord"
    "HOL-Library.List_Lexorder"
    "HOL-Library.Word"
begin

text \<open>
  Vocabulary shared by the component theories: the standard library operations the
  sources use (strings, sorted lists, hash maps, the monotonic clock, saturating
  counters) and the general lemmas about them.

  A Rust \<open>String\<close> is the list of its UTF-8 bytes (\<^typ>\<open>char\<close> is a byte), so
  \<open>String\<close>'s ordering is the lexicographic order of the bytes. \<open>trim\<close> and
  \<open>to_lowercase\<close> are written for ASCII: other bytes are left as they are. A
  \<open>HashMap\<close> is a finite map \<^typ>\<open>('k, 'v) fmap\<close>; iterating over one has no
  order in the sources, and where the result depends on an order the sources sort first.
\<close>

named_theorems entry_simps \<open>unfolding of the cache entry operations\<close>
named_theorems cache_simps \<open>unfolding of the cache operations\<close>

section \<open>Strings\<close>

text \<open>\<open>str::split\<close> on one character: the pieces, always at least one.\<close>

fun split_on :: "char \<Rightarrow> string \<Rightarrow> string list" where
  "split_on c [] = [[]]"
| "split_on c (x # xs) =
     (if x = c then [] # split_on c xs
      else (case split_on c xs of [] \<Rightarrow> [[x]] | p # ps \<Rightarrow> (x # p) # ps))"

lemma split_on_ne [simp]: "split_on c s \<noteq> []"
  by (induction s) (auto split: list.splits)

lemma split_on_clean: "c \<notin> set s \<Longrightarrow> split_on c s = [s]"
  by (induction s) auto

lemma split_on_append: "c \<notin> set s \<Longrightarrow> split_on c (s @ c # r) = s # split_on c r"
  by (induction s) auto

lemma split_on_single: "split_on c s = [r] \<Longrightarrow> r = s"
  by (induction s arbitrary: r) (auto split: if_splits list.splits)

definition is_ws :: "char \<Rightarrow> bool" where
  "is_ws c \<longleftrightarrow> c = CHR '' '' \<or> (9 \<le> (of_char c :: nat) \<and> (of_char c :: nat) \<le> 13)"

definition trim :: "string \<Rightarrow> string" where
  "trim s = rev (dropWhile is_ws (rev (dropWhile is_ws s)))"

text \<open>A string with no surrounding white space, which \<open>trim\<close> leaves alone.\<close>

definition trimmed :: "string \<Rightarrow> bool" where
  "trimmed s \<longleftrightarrow> trim s = s"

fun join :: "string \<Rightarrow> string list \<Rightarrow> string" where
  "join sep [] = []"
| "join sep [x] = x"
| "join sep (x # y # ys) = x @ sep @ join sep (y # ys)"

lemma split_on_join:
  assumes "xs \<noteq> []" and "\<forall>x\<in>set xs. c \<notin> set x"
  shows "split_on c (join [c] xs) = xs"
  using assms
proof (induction xs)
  case (Cons x xs)
  then show ?case
    by (cases xs) (auto simp: split_on_clean split_on_append)
qed simp

text \<open>
  The comma-separated list every route and setting reads the same way: split, trim each
  piece, drop the empty ones.
\<close>

definition csv_items :: "string \<Rightarrow> string list" where
  "csv_items s = filter (\<lambda>p. p \<noteq> []) (map trim (split_on (CHR '','') s))"

lemma csv_items_join:
  assumes "\<forall>x\<in>set xs. x \<noteq> [] \<and> trimmed x \<and> CHR '','' \<notin> set x"
  shows "csv_items (join [CHR '',''] xs) = xs"
proof (cases "xs = []")
  case True
  then show ?thesis by (simp add: csv_items_def trim_def)
next
  case False
  have "map trim xs = xs"
    using assms by (induction xs) (auto simp: trimmed_def)
  moreover have "filter (\<lambda>p. p \<noteq> []) xs = xs"
    using assms by (induction xs) auto
  ultimately show ?thesis
    using False assms by (simp add: csv_items_def split_on_join)
qed

lemma csv_items_nonempty: "x \<in> set (csv_items s) \<Longrightarrow> x \<noteq> []"
  by (auto simp: csv_items_def)

definition ascii_lower :: "char \<Rightarrow> char" where
  "ascii_lower c =
     (let n = (of_char c :: nat) in if 65 \<le> n \<and> n \<le> 90 then char_of (n + 32) else c)"

definition to_lowercase :: "string \<Rightarrow> string" where
  "to_lowercase s = map ascii_lower s"

lemma split_at_first:
  assumes "c \<notin> set xs" and "ys = [] \<or> hd ys = c"
  shows "takeWhile (\<lambda>x. x \<noteq> c) (xs @ ys) = xs" "dropWhile (\<lambda>x. x \<noteq> c) (xs @ ys) = ys"
proof -
  have "takeWhile (\<lambda>x. x \<noteq> c) ys = []" "dropWhile (\<lambda>x. x \<noteq> c) ys = ys"
    using assms(2) by (cases ys; simp)+
  with assms(1) show "takeWhile (\<lambda>x. x \<noteq> c) (xs @ ys) = xs" "dropWhile (\<lambda>x. x \<noteq> c) (xs @ ys) = ys"
    by (induction xs) auto
qed

text \<open>The bytes that continue a UTF-8 character, and \<open>chars()\<close>: the bytes of each
  character together.\<close>

definition continuation_byte :: "char \<Rightarrow> bool" where
  "continuation_byte c \<longleftrightarrow> 128 \<le> (of_char c :: nat) \<and> (of_char c :: nat) < 192"

function utf8_chars :: "string \<Rightarrow> string list" where
  "utf8_chars [] = []"
| "utf8_chars (c # cs) =
     (c # takeWhile continuation_byte cs) # utf8_chars (dropWhile continuation_byte cs)"
  by pat_completeness auto

termination utf8_chars
  by (relation "measure length") (simp_all add: length_dropWhile_le less_Suc_eq_le)

text \<open>A name between single quotes, and the bytes of an em dash, in messages.\<close>

definition quoted :: "string \<Rightarrow> string" where
  "quoted s = [CHR 0x27] @ s @ [CHR 0x27]"

definition em_dash :: string where
  "em_dash = [char_of (226 :: nat), char_of (128 :: nat), char_of (148 :: nat)]"

text \<open>Decimal rendering of an unsigned integer.\<close>

fun show_nat :: "nat \<Rightarrow> string" where
  "show_nat n =
     (if n < 10 then [char_of (48 + n)] else show_nat (n div 10) @ [char_of (48 + n mod 10)])"

declare show_nat.simps [simp del]

text \<open>\<open>str::contains\<close>, \<open>str::starts_with\<close> and \<open>str::replace\<close>.\<close>

fun starts_with :: "string \<Rightarrow> string \<Rightarrow> bool" where
  "starts_with s [] = True"
| "starts_with [] (p # ps) = False"
| "starts_with (x # xs) (p # ps) = (x = p \<and> starts_with xs ps)"

lemma starts_with_iff: "starts_with s p \<longleftrightarrow> (\<exists>r. s = p @ r)"
  by (induction s p rule: starts_with.induct) auto

fun str_contains :: "string \<Rightarrow> string \<Rightarrow> bool" where
  "str_contains [] p = (p = [])"
| "str_contains (x # xs) p = (starts_with (x # xs) p \<or> str_contains xs p)"

lemma str_contains_iff: "str_contains s p \<longleftrightarrow> (\<exists>a b. s = a @ p @ b)"
proof (induction s)
  case (Cons x xs)
  have "(\<exists>a b. x # xs = a @ p @ b) \<longleftrightarrow> (\<exists>b. x # xs = p @ b) \<or> (\<exists>a b. xs = a @ p @ b)"
    by (metis Cons_eq_append_conv)
  with Cons show ?case by (simp only: str_contains.simps starts_with_iff)
qed simp

fun str_replace_fuel :: "nat \<Rightarrow> string \<Rightarrow> string \<Rightarrow> string \<Rightarrow> string" where
  "str_replace_fuel 0 s p r = s"
| "str_replace_fuel (Suc n) [] p r = []"
| "str_replace_fuel (Suc n) (x # xs) p r =
     (if starts_with (x # xs) p then r @ str_replace_fuel n (drop (length p) (x # xs)) p r
      else x # str_replace_fuel n xs p r)"

text \<open>The pattern is never empty where the sources use it, so the length of the text is
  fuel enough.\<close>

definition str_replace :: "string \<Rightarrow> string \<Rightarrow> string \<Rightarrow> string" where
  "str_replace s p r = str_replace_fuel (length s) s p r"

section \<open>Sorted lists without duplicates\<close>

text \<open>\<open>sort\<close> followed by \<open>dedup\<close>.\<close>

definition sort_dedup :: "'a::linorder list \<Rightarrow> 'a list" where
  "sort_dedup xs = remdups_adj (sort xs)"

lemma sort_dedup_set [simp]: "set (sort_dedup xs) = set xs"
  by (simp add: sort_dedup_def)

lemma sorted_remdups_adj_distinct: "sorted xs \<Longrightarrow> distinct (remdups_adj xs)"
proof (induction xs rule: remdups_adj.induct)
  case (3 x y xs)
  show ?case
  proof (cases "x = y")
    case True
    with 3 show ?thesis by simp
  next
    case False
    with "3.prems" have "\<forall>z\<in>set (y # xs). x < z" by (fastforce simp: order_le_less)
    then have "x \<notin> set (y # xs)" by blast
    with False 3 show ?thesis by simp
  qed
qed simp_all

lemma sort_dedup_props [simp]: "sorted (sort_dedup xs)" "distinct (sort_dedup xs)"
  by (simp_all add: sort_dedup_def sorted_remdups_adj_distinct sorted_remdups_adj)

lemma sort_dedup_eq: "sort_dedup xs = sorted_list_of_set (set xs)"
  by (rule sorted_distinct_set_unique) simp_all

section \<open>Finite maps\<close>

text \<open>The keys of a map, sorted: the order the sources give a listing before it leaves.\<close>

definition fm_keys :: "('k::linorder, 'v) fmap \<Rightarrow> 'k list" where
  "fm_keys m = sorted_list_of_set (fmdom' m)"

lemma fm_keys_set [simp]: "set (fm_keys m) = fmdom' m"
  by (simp add: fm_keys_def)

lemma fm_keys_props [simp]: "sorted (fm_keys m)" "distinct (fm_keys m)"
  by (simp_all add: fm_keys_def)

text \<open>\<open>values().any(..)\<close> over the entries.\<close>

definition fm_any :: "('k \<Rightarrow> 'v \<Rightarrow> bool) \<Rightarrow> ('k, 'v) fmap \<Rightarrow> bool" where
  "fm_any P m \<longleftrightarrow> \<not> fmpred (\<lambda>k v. \<not> P k v) m"

lemma fm_any_iff: "fm_any P m \<longleftrightarrow> (\<exists>k v. fmlookup m k = Some v \<and> P k v)"
  by (auto simp: fm_any_def fmpred_iff)

lemma fm_any_empty [simp]: "fm_any P fmempty = False"
  by (simp add: fm_any_iff)

lemma fm_any_upd: "fm_any P (fmupd k v m) \<longleftrightarrow> P k v \<or> fm_any P (fmdrop k m)"
  by (auto simp: fm_any_iff)

text \<open>\<open>entry(k).or_default()\<close> then a modification in place.\<close>

definition fm_or_default :: "'v \<Rightarrow> ('v \<Rightarrow> 'v) \<Rightarrow> 'k \<Rightarrow> ('k, 'v) fmap \<Rightarrow> ('k, 'v) fmap" where
  "fm_or_default d f k m = fmupd k (f (case fmlookup m k of None \<Rightarrow> d | Some v \<Rightarrow> v)) m"

lemma fmlookup_or_default [simp]:
  "fmlookup (fm_or_default d f k m) k' =
     (if k = k' then Some (f (case fmlookup m k of None \<Rightarrow> d | Some v \<Rightarrow> v))
      else fmlookup m k')"
  by (simp add: fm_or_default_def)

text \<open>\<open>retain(|k, v| ..)\<close>: the entries a predicate keeps.\<close>

definition fm_retain :: "('k \<Rightarrow> 'v \<Rightarrow> bool) \<Rightarrow> ('k, 'v) fmap \<Rightarrow> ('k, 'v) fmap" where
  "fm_retain P m = fmfilter (\<lambda>k. case fmlookup m k of None \<Rightarrow> False | Some v \<Rightarrow> P k v) m"

lemma fmlookup_retain [simp]:
  "fmlookup (fm_retain P m) k =
     (case fmlookup m k of None \<Rightarrow> None | Some v \<Rightarrow> if P k v then Some v else None)"
  by (simp add: fm_retain_def split: option.split)

lemma fm_retain_empty [simp]: "fm_retain P fmempty = fmempty"
  by (simp add: fm_retain_def)

lemma fm_retain_upd [simp]:
  "fm_retain P (fmupd k v m) = (if P k v then fmupd k v (fm_retain P m) else fmdrop k (fm_retain P m))"
  by (rule fmap_ext) (auto split: option.split)

lemma fmdom'_fmmap_keys [simp]: "fmdom' (fmmap_keys f m) = fmdom' m"
  by (auto simp: fmlookup_dom'_iff)

lemma fmlookup_fmdom': "k \<in> fmdom' m \<longleftrightarrow> fmlookup m k \<noteq> None"
  by (auto simp: fmlookup_dom'_iff)

text \<open>
  A loop over a map that threads an accumulator. The sources' order is unspecified; the
  model visits the keys in their order, and where the result is compared with the code the
  lemmas show it does not depend on the order.
\<close>

definition fm_fold :: "('k::linorder \<Rightarrow> 'v \<Rightarrow> 'a \<Rightarrow> 'a) \<Rightarrow> ('k, 'v) fmap \<Rightarrow> 'a \<Rightarrow> 'a" where
  "fm_fold f m acc = fold (\<lambda>k. f k (the (fmlookup m k))) (fm_keys m) acc"

lemma fmlookup_fold_upd:
  "fmlookup (fold (\<lambda>k. fmupd k (f k)) ks m) k = (if k \<in> set ks then Some (f k) else fmlookup m k)"
  by (induction ks arbitrary: m) auto

lemma fm_fold_or_default:
  "fmlookup (fm_fold (\<lambda>k v. fm_or_default d (f v) k) m acc) n =
     (case fmlookup m n of
        None \<Rightarrow> fmlookup acc n
      | Some v \<Rightarrow> Some (f v (case fmlookup acc n of None \<Rightarrow> d | Some t \<Rightarrow> t)))"
proof -
  have "fmlookup (fold (\<lambda>k. fm_or_default d (f (the (fmlookup m k))) k) ks acc) n
      = (if n \<in> set ks then Some (f (the (fmlookup m n)) (case fmlookup acc n of None \<Rightarrow> d | Some t \<Rightarrow> t))
         else fmlookup acc n)" if "distinct ks" for ks
    using that by (induction ks arbitrary: acc) auto
  from this [of "fm_keys m"] show ?thesis
    by (auto simp: fm_fold_def fmlookup_fmdom' split: option.split)
qed

text \<open>A loop over the entries of a map that collects what each gives, in the order of the keys.\<close>

definition fm_flat :: "('k::linorder \<Rightarrow> 'v \<Rightarrow> 'a list) \<Rightarrow> ('k, 'v) fmap \<Rightarrow> 'a list" where
  "fm_flat f m = concat (map (\<lambda>k. f k (the (fmlookup m k))) (fm_keys m))"

lemma fm_flat_nil: "fm_flat f m = [] \<longleftrightarrow> (\<forall>k v. fmlookup m k = Some v \<longrightarrow> f k v = [])"
proof -
  have "fm_flat f m = [] \<longleftrightarrow> (\<forall>k \<in> fmdom' m. f k (the (fmlookup m k)) = [])" by (simp add: fm_flat_def)
  then show ?thesis unfolding Ball_def fmlookup_dom'_iff by (metis option.sel)
qed

text \<open>\<open>contains_key\<close>.\<close>

abbreviation has :: "('k, 'v) fmap \<Rightarrow> 'k \<Rightarrow> bool" where
  "has m k \<equiv> fmlookup m k \<noteq> None"

text \<open>\<open>entry(k).or_insert(d)\<close> over a list of keys: what is there stays.\<close>

definition fm_ensure :: "'v \<Rightarrow> 'k list \<Rightarrow> ('k, 'v) fmap \<Rightarrow> ('k, 'v) fmap" where
  "fm_ensure d ks m =
     fold (\<lambda>k m. if fmlookup m k = None then fmupd k d m else m) ks m"

lemma fmlookup_ensure [simp]:
  "fmlookup (fm_ensure d ks m) k =
     (case fmlookup m k of Some v \<Rightarrow> Some v | None \<Rightarrow> if k \<in> set ks then Some d else None)"
  unfolding fm_ensure_def
  by (induction ks arbitrary: m) (auto split: option.splits)

lemma fold_ensure_lookup:
  "fmlookup (fold (\<lambda>x. fm_ensure d (f x)) xs m) k =
     (case fmlookup m k of Some v \<Rightarrow> Some v
      | None \<Rightarrow> if \<exists>x\<in>set xs. k \<in> set (f x) then Some d else None)"
  by (induction xs arbitrary: m) (auto split: option.splits)

lemma set_map_filter: "set (List.map_filter f xs) = {y. \<exists>x \<in> set xs. f x = Some y}"
  by (induction xs) (auto simp: List.map_filter_def)

lemma option_ext: "(\<And>t. a = Some t \<longleftrightarrow> b = Some t) \<Longrightarrow> a = b"
  by (cases a; cases b) auto

section \<open>Positions\<close>

text \<open>\<open>iter().position(..)\<close>: the index of the first element that satisfies a predicate.\<close>

fun position :: "('a \<Rightarrow> bool) \<Rightarrow> 'a list \<Rightarrow> nat option" where
  "position P [] = None"
| "position P (x # xs) = (if P x then Some 0 else map_option Suc (position P xs))"

lemma position_None: "position P xs = None \<longleftrightarrow> (\<forall>x \<in> set xs. \<not> P x)"
  by (induction xs) auto

lemma position_Some:
  "position P xs = Some i \<longleftrightarrow> i < length xs \<and> P (xs ! i) \<and> (\<forall>j < i. \<not> P (xs ! j))"
proof (induction xs arbitrary: i)
  case (Cons x xs)
  show ?case
  proof (cases i)
    case 0
    then show ?thesis by (auto split: if_splits)
  next
    case (Suc k)
    have "(\<forall>j < Suc k. \<not> P ((x # xs) ! j)) \<longleftrightarrow> \<not> P x \<and> (\<forall>j < k. \<not> P (xs ! j))"
      by (auto simp: less_Suc_eq_0_disj)
    with Suc Cons.IH [of k] show ?thesis by auto
  qed
qed simp

section \<open>Splitting a list by a function\<close>

lemma concat_map_nonempty: "concat (map g (filter (\<lambda>i. g i \<noteq> []) is)) = concat (map g is)"
  by (induction "is") auto

lemma mset_filter_disjoint:
  "(\<And>x. \<not> (P x \<and> Q x)) \<Longrightarrow> mset (filter P xs) + mset (filter Q xs) = mset (filter (\<lambda>x. P x \<or> Q x) xs)"
  by (induction xs) auto

lemma mset_split:
  "mset (concat (map (\<lambda>i. filter (\<lambda>x. f x = Some i) xs) [0..<n]))
     = mset (filter (\<lambda>x. \<exists>i < n. f x = Some i) xs)"
proof (induction n)
  case (Suc n)
  have "mset (concat (map (\<lambda>i. filter (\<lambda>x. f x = Some i) xs) [0..<Suc n]))
      = mset (filter (\<lambda>x. \<exists>i < n. f x = Some i) xs) + mset (filter (\<lambda>x. f x = Some n) xs)"
    by (simp only: upt_Suc_append [OF le0] map_append concat_append mset_append Suc.IH) simp
  also have "\<dots> = mset (filter (\<lambda>x. (\<exists>i < n. f x = Some i) \<or> f x = Some n) xs)"
    by (rule mset_filter_disjoint) auto
  also have "(\<lambda>x. (\<exists>i < n. f x = Some i) \<or> f x = Some n) = (\<lambda>x. \<exists>i < Suc n. f x = Some i)"
    by (auto simp: less_Suc_eq)
  finally show ?case .
qed simp

section \<open>Results\<close>

text \<open>\<open>map(..).collect::<Result<Vec<_>, _>>()\<close>: the first error, or every value in order.\<close>

fun traverse :: "('a \<Rightarrow> 'e + 'b) \<Rightarrow> 'a list \<Rightarrow> 'e + 'b list" where
  "traverse f [] = Inr []"
| "traverse f (x # xs) =
     (case f x of
        Inl e \<Rightarrow> Inl e
      | Inr y \<Rightarrow> (case traverse f xs of Inl e \<Rightarrow> Inl e | Inr ys \<Rightarrow> Inr (y # ys)))"

lemma traverse_Inr_iff:
  "traverse f xs = Inr ys \<longleftrightarrow> list_all2 (\<lambda>x y. f x = Inr y) xs ys"
proof (induction xs arbitrary: ys)
  case (Cons x xs)
  show ?case
    by (cases ys) (auto simp: Cons.IH [symmetric] split: sum.splits)
qed auto

lemma list_all2_left: "list_all2 R xs ys \<Longrightarrow> x \<in> set xs \<Longrightarrow> \<exists>y \<in> set ys. R x y"
  by (induction rule: list_all2_induct) auto

lemma list_all2_right: "list_all2 R xs ys \<Longrightarrow> y \<in> set ys \<Longrightarrow> \<exists>x \<in> set xs. R x y"
  by (induction rule: list_all2_induct) auto

lemma traverse_map: "(\<And>x. x \<in> set xs \<Longrightarrow> f (g x) = Inr x) \<Longrightarrow> traverse f (map g xs) = Inr xs"
  by (induction xs) auto

section \<open>The monotonic clock\<close>

text \<open>
  \<open>Instant\<close> is a count of nanoseconds since the earliest instant the clock can
  represent, \<open>Duration\<close> a count of nanoseconds. \<open>elapsed\<close> saturates at zero and
  \<open>checked_sub\<close> fails below the earliest instant. Every operation that calls
  \<open>Instant::now()\<close> takes the reading as its argument \<open>now\<close>.
\<close>

type_synonym instant = nat
type_synonym duration = nat

definition from_secs :: "nat \<Rightarrow> duration" where
  "from_secs n = n * 1000000000"

definition as_secs :: "duration \<Rightarrow> nat" where
  "as_secs d = d div 1000000000"

definition elapsed :: "instant \<Rightarrow> instant \<Rightarrow> duration" where
  "elapsed now t = now - t"

definition checked_sub :: "instant \<Rightarrow> duration \<Rightarrow> instant option" where
  "checked_sub t d = (if d \<le> t then Some (t - d) else None)"

lemma as_secs_from_secs [simp]: "as_secs (from_secs n) = n"
  by (simp add: as_secs_def from_secs_def)

lemma from_secs_0 [simp]: "from_secs 0 = 0"
  by (simp add: from_secs_def)

lemma from_secs_mono: "m \<le> n \<Longrightarrow> from_secs m \<le> from_secs n"
  by (simp add: from_secs_def)

lemma from_as_secs_le: "from_secs (as_secs d) \<le> d"
  by (simp add: from_secs_def as_secs_def)

lemma as_secs_mono: "d \<le> e \<Longrightarrow> as_secs d \<le> as_secs e"
  by (simp add: as_secs_def div_le_mono)

section \<open>Saturating counters\<close>

type_synonym u32 = "32 word"
type_synonym u64 = "64 word"

definition saturating_inc :: "u32 \<Rightarrow> u32" where
  "saturating_inc w = (if w = - 1 then w else w + 1)"

lemma unat_saturating_inc: "unat (saturating_inc w) = min (unat w + 1) (2 ^ 32 - 1)"
proof (cases "w = - 1")
  case True
  moreover have "unat (- 1 :: u32) = 2 ^ 32 - 1" by (simp add: unsigned_minus_1_eq_mask mask_eq_exp_minus_1)
  ultimately show ?thesis by (simp only: saturating_inc_def) simp
next
  case False
  moreover have "unat (- 1 :: u32) = 2 ^ 32 - 1"
    by (simp add: unsigned_minus_1_eq_mask mask_eq_exp_minus_1)
  ultimately have "unat w \<noteq> 2 ^ 32 - 1"
    by (metis word_unat_eq_iff)
  moreover have "unat w < 2 ^ 32"
    using unsigned_less [of w] by simp
  ultimately have "unat w + 1 < 2 ^ 32" by linarith
  then have "unat (w + 1) = unat w + 1"
    by (simp add: unat_word_ariths)
  with False \<open>unat w + 1 < 2 ^ 32\<close> show ?thesis
    by (simp add: saturating_inc_def)
qed

lemma of_nat_u64_0: "n < 2 ^ 64 \<Longrightarrow> of_nat n = (0 :: u64) \<Longrightarrow> n = 0"
  by (auto simp: word_of_nat_eq_0_iff dest: nat_dvd_not_less)

end
