(* ===== verification/Var_Path.thy ===== *)
theory Var_Path
  imports Prelude
begin

text \<open>
  JSON values and dotted paths into a host's variables: \<open>src/src/domain/var_path.rs\<close>.
  A path names a top-level key of exactly that spelling, or else walks into objects only.
  \<open>fields\<close> (\<open>keep_paths\<close>) and \<open>exclude_fields\<close> (\<open>drop_paths\<close>) shape the variables a
  response carries; the lemmas say that what is kept is exactly what was asked for, and
  that what is dropped is gone and nothing else appears.
\<close>

section \<open>JSON values\<close>

text \<open>
  \<open>serde_json::Value\<close>. A number is kept as the text serde writes for it, which is the
  only thing the modelled code reads of one. An object is serde's ordered map.
\<close>

datatype json =
    JNull
  | JBool bool
  | JNum string
  | JStr string
  | JArr "json list"
  | JObj "(string, json) fmap"

type_synonym host_vars = "(string, json) fmap"

fun as_object :: "json \<Rightarrow> (string, json) fmap option" where
  "as_object (JObj m) = Some m"
| "as_object _ = None"

fun as_str :: "json \<Rightarrow> string option" where
  "as_str (JStr s) = Some s"
| "as_str _ = None"

abbreviation is_object :: "json \<Rightarrow> bool" where
  "is_object v \<equiv> as_object v \<noteq> None"

lemma as_object_Some [simp]: "as_object v = Some m \<longleftrightarrow> v = JObj m"
  by (cases v) auto

section \<open>Looking a path up\<close>

text \<open>The loop of \<open>lookup\<close>: each further segment steps into an object.\<close>

fun walk :: "json \<Rightarrow> string list \<Rightarrow> json option" where
  "walk cur [] = Some cur"
| "walk cur (s # ss) =
     (case as_object cur of
        None \<Rightarrow> None
      | Some m \<Rightarrow> (case fmlookup m s of None \<Rightarrow> None | Some v \<Rightarrow> walk v ss))"

definition dot :: char where
  "dot = CHR ''.''"

definition lookup :: "host_vars \<Rightarrow> string \<Rightarrow> json option" where
  "lookup vars path =
     (case fmlookup vars path of
        Some v \<Rightarrow> Some v
      | None \<Rightarrow>
          (case split_on dot path of
             [] \<Rightarrow> None
           | root # segments \<Rightarrow>
               (case fmlookup vars root of None \<Rightarrow> None | Some v \<Rightarrow> walk v segments)))"

section \<open>Writing and removing a path\<close>

text \<open>
  \<open>insert_path\<close>: the parents are entered, an empty object standing in for a missing one;
  a step that is not an object ends the walk without a write.
\<close>

fun insert_path :: "json \<Rightarrow> string list \<Rightarrow> json \<Rightarrow> json" where
  "insert_path target [] v = target"
| "insert_path target [key] v =
     (case target of JObj m \<Rightarrow> JObj (fmupd key v m) | _ \<Rightarrow> target)"
| "insert_path target (s # s' # ss) v =
     (case target of
        JObj m \<Rightarrow>
          (let child = (case fmlookup m s of None \<Rightarrow> JObj fmempty | Some c \<Rightarrow> c)
           in JObj (fmupd s (insert_path child (s' # ss) v) m))
      | _ \<Rightarrow> target)"

fun remove_path :: "json \<Rightarrow> string list \<Rightarrow> json" where
  "remove_path v [] = v"
| "remove_path v [key] = (case v of JObj m \<Rightarrow> JObj (fmdrop key m) | _ \<Rightarrow> v)"
| "remove_path v (s # s' # ss) =
     (case v of
        JObj m \<Rightarrow>
          (case fmlookup m s of
             None \<Rightarrow> v
           | Some c \<Rightarrow> JObj (fmupd s (remove_path c (s' # ss)) m))
      | _ \<Rightarrow> v)"

text \<open>One round of the loop of \<open>keep_paths\<close>, and the loop.\<close>

definition keep_step :: "host_vars \<Rightarrow> string \<Rightarrow> host_vars \<Rightarrow> host_vars" where
  "keep_step vars path out =
     (case fmlookup vars path of
        Some v \<Rightarrow> fmupd path v out
      | None \<Rightarrow>
          (case lookup vars path of
             None \<Rightarrow> out
           | Some v \<Rightarrow>
               (case split_on dot path of
                  [] \<Rightarrow> out
                | root # rest \<Rightarrow>
                    (case fmlookup out root of
                       Some r \<Rightarrow>
                         if \<not> is_object r then out
                         else fmupd root (insert_path r rest v) out
                     | None \<Rightarrow> fmupd root (insert_path (JObj fmempty) rest v) out))))"

definition keep_paths :: "host_vars \<Rightarrow> string list \<Rightarrow> host_vars" where
  "keep_paths vars paths = fold (keep_step vars) paths fmempty"

definition drop_step :: "string \<Rightarrow> host_vars \<Rightarrow> host_vars" where
  "drop_step path vars =
     (if fmlookup vars path \<noteq> None then fmdrop path vars
      else
        (case split_on dot path of
           [] \<Rightarrow> vars
         | root # rest \<Rightarrow>
             if rest = [] then vars
             else
               (case fmlookup vars root of
                  None \<Rightarrow> vars
                | Some v \<Rightarrow> fmupd root (remove_path v rest) vars)))"

definition drop_paths :: "string list \<Rightarrow> host_vars \<Rightarrow> host_vars" where
  "drop_paths paths vars = fold drop_step paths vars"

section \<open>VarSelect\<close>

record var_select =
  vs_keep :: "string list option"
  vs_drop :: "string list"

definition is_identity :: "var_select \<Rightarrow> bool" where
  "is_identity s \<longleftrightarrow> vs_keep s = None \<and> vs_drop s = []"

definition drops_nothing :: "var_select \<Rightarrow> bool" where
  "drops_nothing s \<longleftrightarrow> vs_drop s = []"

definition select_host :: "var_select \<Rightarrow> host_vars \<Rightarrow> host_vars" where
  "select_host s vars =
     drop_paths (vs_drop s)
       (case vs_keep s of None \<Rightarrow> vars | Some paths \<Rightarrow> keep_paths vars paths)"

definition select_group_vars :: "var_select \<Rightarrow> host_vars \<Rightarrow> host_vars" where
  "select_group_vars s vars = drop_paths (vs_drop s) vars"

section \<open>Sub-trees\<close>

text \<open>\<open>sub t f\<close>: the value \<open>t\<close> is \<open>f\<close> with object entries left out, at any depth.\<close>

inductive sub :: "json \<Rightarrow> json \<Rightarrow> bool" where
  sub_refl: "sub v v"
| sub_obj: "(\<And>k v. fmlookup m k = Some v \<Longrightarrow> \<exists>w. fmlookup n k = Some w \<and> sub v w)
     \<Longrightarrow> sub (JObj m) (JObj n)"

inductive_cases sub_JObjE: "sub v (JObj n)"

lemma sub_JObj_iff:
  "sub (JObj m) (JObj n) \<longleftrightarrow>
     (\<forall>k v. fmlookup m k = Some v \<longrightarrow> (\<exists>w. fmlookup n k = Some w \<and> sub v w))"
  by (auto elim: sub.cases intro: sub.intros)

lemma sub_object: "sub v (JObj n) \<Longrightarrow> is_object v"
  by (auto elim: sub_JObjE)

lemma sub_empty [simp]: "sub (JObj fmempty) (JObj n)"
  by (simp add: sub_JObj_iff)

lemma sub_trans: "sub a b \<Longrightarrow> sub b c \<Longrightarrow> sub a c"
proof (induction arbitrary: c rule: sub.induct)
  case (sub_obj m n)
  from sub_obj.prems show ?case
  proof (cases rule: sub.cases)
    case sub_refl
    with sub_obj.IH show ?thesis by (fastforce intro: sub.intros)
  next
    case (sub_obj n')
    with sub_obj.IH show ?thesis by (fastforce intro!: sub.sub_obj)
  qed
qed simp

lemma sub_walk: "sub t f \<Longrightarrow> walk t ss = Some a \<Longrightarrow> \<exists>b. walk f ss = Some b \<and> sub a b"
proof (induction ss arbitrary: t f)
  case (Cons s ss)
  then obtain m v where m: "t = JObj m" "fmlookup m s = Some v" "walk v ss = Some a"
    by (auto split: option.splits)
  from Cons.prems(1) m(1) obtain n where n: "f = JObj n"
    by (auto elim: sub.cases)
  with Cons.prems(1) m obtain w where "fmlookup n s = Some w" "sub v w"
    by (auto simp: sub_JObj_iff)
  with Cons.IH m(3) n show ?case by fastforce
qed auto

section \<open>Writing a value where it already is\<close>

lemma walk_ConsE:
  assumes "walk f (s # ss) = Some v"
  obtains n c where "f = JObj n" and "fmlookup n s = Some c" and "walk c ss = Some v"
  using assms by (auto split: option.splits)

text \<open>The object a step of \<open>insert_path\<close> descends into.\<close>

definition child_of :: "(string, json) fmap \<Rightarrow> string \<Rightarrow> json" where
  "child_of m s = (case fmlookup m s of None \<Rightarrow> JObj fmempty | Some c \<Rightarrow> c)"

lemma insert_path_Cons2:
  "insert_path (JObj m) (s # s' # ss) v = JObj (fmupd s (insert_path (child_of m s) (s' # ss) v) m)"
  by (simp add: child_of_def Let_def)

declare insert_path.simps(3) [simp del]

lemma child_of_sub:
  assumes "sub (JObj m) (JObj n)" and "fmlookup n s = Some c" and "walk c (s' # ss) = Some v"
  shows "sub (child_of m s) c"
proof (cases "fmlookup m s")
  case None
  from assms(3) obtain n' where "c = JObj n'" by (rule walk_ConsE)
  with None show ?thesis by (simp add: child_of_def)
next
  case (Some d)
  with assms(1,2) show ?thesis by (fastforce simp: child_of_def sub_JObj_iff)
qed

lemma fmupd_same: "fmlookup m k = Some v \<Longrightarrow> fmupd k v m = m"
  by (rule fmap_ext) auto

lemma insert_path_same: "walk f ss = Some v \<Longrightarrow> insert_path f ss v = f"
proof (induction ss arbitrary: f)
  case (Cons s ss)
  from Cons.prems obtain n c where n: "f = JObj n" "fmlookup n s = Some c" "walk c ss = Some v"
    by (rule walk_ConsE)
  with Cons.IH have IH: "insert_path c ss v = c" by blast
  show ?case
  proof (cases ss)
    case Nil
    with n show ?thesis by (simp add: fmupd_same)
  next
    case (Cons s' ss')
    with n IH show ?thesis by (simp add: insert_path_Cons2 child_of_def fmupd_same)
  qed
qed simp

text \<open>
  Writing the value a path has in \<open>f\<close> into a sub-tree \<open>t\<close> of \<open>f\<close>: the result is still a
  sub-tree, it has the value at that path, and any path already exact stays exact.
\<close>

lemma sub_fmupd:
  "sub (JObj m) (JObj n) \<Longrightarrow> fmlookup n k = Some c \<Longrightarrow> sub v c \<Longrightarrow> sub (JObj (fmupd k v m)) (JObj n)"
  by (auto simp: sub_JObj_iff)

lemma insert_path_sub:
  "sub (JObj m) (JObj n) \<Longrightarrow> walk (JObj n) ss = Some v \<Longrightarrow> sub (insert_path (JObj m) ss v) (JObj n)"
proof (induction ss arbitrary: m n)
  case (Cons s ss)
  from Cons.prems(2) obtain c where c: "fmlookup n s = Some c" "walk c ss = Some v"
    by (auto split: option.splits)
  show ?case
  proof (cases ss)
    case Nil
    with Cons.prems c show ?thesis by (auto intro: sub_fmupd sub_refl)
  next
    case (Cons s' ss')
    with c obtain n' where n': "c = JObj n'" by (auto elim!: walk_ConsE simp del: walk.simps(2))
    from Cons.prems c Cons have "sub (child_of m s) c" by (blast intro: child_of_sub)
    moreover from this n' obtain m' where "child_of m s = JObj m'" by (auto dest: sub_object)
    ultimately show ?thesis
      using Cons.IH [of m' n'] Cons.prems c n' Cons
      by (simp add: insert_path_Cons2 sub_fmupd del: walk.simps(2))
  qed
qed simp

lemma insert_path_gives:
  "sub (JObj m) (JObj n) \<Longrightarrow> walk (JObj n) ss = Some v \<Longrightarrow> ss \<noteq> []
     \<Longrightarrow> walk (insert_path (JObj m) ss v) ss = Some v"
proof (induction ss arbitrary: m n)
  case (Cons s ss)
  from Cons.prems(2) obtain c where c: "fmlookup n s = Some c" "walk c ss = Some v"
    by (auto split: option.splits)
  show ?case
  proof (cases ss)
    case Nil
    with c show ?thesis by simp
  next
    case (Cons s' ss')
    with c obtain n' where n': "c = JObj n'" by (auto elim!: walk_ConsE simp del: walk.simps(2))
    from Cons.prems c Cons have "sub (child_of m s) c" by (blast intro: child_of_sub)
    moreover from this n' obtain m' where "child_of m s = JObj m'" by (auto dest: sub_object)
    ultimately show ?thesis
      using Cons.IH [of m' n'] c n' Cons by (simp add: insert_path_Cons2)
  qed
qed simp

lemma insert_path_keeps_exact:
  "sub (JObj m) (JObj n) \<Longrightarrow> walk (JObj n) ss = Some v \<Longrightarrow> walk (JObj m) qs = Some u
     \<Longrightarrow> walk (JObj n) qs = Some u \<Longrightarrow> walk (insert_path (JObj m) ss v) qs = Some u"
proof (induction ss arbitrary: m n qs)
  case (Cons s ss)
  show ?case
  proof (cases qs)
    case Nil
    with Cons.prems show ?thesis by (simp add: insert_path_same del: walk.simps(2))
  next
    case (Cons q qs')
    note qs = this
    from Cons.prems(2) obtain c where c: "fmlookup n s = Some c" "walk c ss = Some v"
      by (auto split: option.splits)
    from Cons.prems(3) qs obtain d where d: "fmlookup m q = Some d" "walk d qs' = Some u"
      by (auto split: option.splits)
    from Cons.prems(4) qs obtain e where e: "fmlookup n q = Some e" "walk e qs' = Some u"
      by (auto split: option.splits)
    show ?thesis
    proof (cases ss)
      case Nil
      with qs c d e show ?thesis by auto
    next
      case (Cons s' ss')
      with c obtain n' where n': "c = JObj n'" by (auto elim!: walk_ConsE simp del: walk.simps(2))
      from Cons.prems(1) c Cons have sub: "sub (child_of m s) c" by (blast intro: child_of_sub)
      moreover from this n' obtain m' where m': "child_of m s = JObj m'" by (auto dest: sub_object)
      ultimately have "q = s \<Longrightarrow> walk (insert_path (child_of m s) ss v) qs' = Some u"
        using Cons.IH [of m' n' qs'] c d e n' by (auto simp: child_of_def)
      with Cons qs c d show ?thesis by (auto simp: insert_path_Cons2)
    qed
  qed
qed simp

section \<open>What keep_paths selects\<close>

lemma lookup_walk:
  "lookup vars p =
     (case fmlookup vars p of Some v \<Rightarrow> Some v | None \<Rightarrow> walk (JObj vars) (split_on dot p))"
  by (simp add: lookup_def split: option.splits list.splits)

lemma keep_step_walk:
  "keep_step vars p out =
     (case fmlookup vars p of
        Some v \<Rightarrow> fmupd p v out
      | None \<Rightarrow>
          (case lookup vars p of
             None \<Rightarrow> out
           | Some v \<Rightarrow> the (as_object (insert_path (JObj out) (split_on dot p) v))))"
proof (cases "fmlookup vars p")
  case None
  show ?thesis
  proof (cases "lookup vars p")
    case (Some v)
    obtain root rest where sp: "split_on dot p = root # rest"
      by (cases "split_on dot p") auto
    have "rest \<noteq> []"
    proof
      assume "rest = []"
      with sp have "p = root" by (auto dest: split_on_single)
      with None Some sp \<open>rest = []\<close> show False by (simp add: lookup_def)
    qed
    then obtain r rs where rest: "rest = r # rs" by (cases rest) auto
    have "insert_path c (r # rs) v = c" if "\<not> is_object c" for c
      using that by (cases c; cases rs) (auto simp: insert_path.simps(3))
    with None Some sp rest show ?thesis
      by (auto simp: keep_step_def insert_path_Cons2 child_of_def fmupd_same split: option.splits)
  qed (simp add: keep_step_def None)
qed (simp add: keep_step_def)

text \<open>
  The invariant of the loop: what has been built is a sub-tree of the variables, and every
  path already handled reads the same in both.
\<close>

definition exact :: "host_vars \<Rightarrow> host_vars \<Rightarrow> string \<Rightarrow> bool" where
  "exact vars out p \<longleftrightarrow>
     (case fmlookup vars p of
        Some v \<Rightarrow> fmlookup out p = Some v
      | None \<Rightarrow> walk (JObj out) (split_on dot p) = walk (JObj vars) (split_on dot p))"

definition kept :: "host_vars \<Rightarrow> string set \<Rightarrow> host_vars \<Rightarrow> bool" where
  "kept vars seen out \<longleftrightarrow> sub (JObj out) (JObj vars) \<and> (\<forall>p\<in>seen. exact vars out p)"

lemma sub_None: "sub (JObj m) (JObj n) \<Longrightarrow> fmlookup n k = None \<Longrightarrow> fmlookup m k = None"
  by (metis not_Some_eq sub_JObj_iff)

lemma exact_lookup:
  "sub (JObj out) (JObj vars) \<Longrightarrow> exact vars out p \<Longrightarrow> lookup out p = lookup vars p"
  by (auto simp: exact_def lookup_walk sub_None split: option.splits)

lemma sub_walk_None:
  "sub t f \<Longrightarrow> walk f ss = None \<Longrightarrow> walk t ss = None"
  by (metis not_Some_eq sub_walk)

text \<open>Writing one exact value keeps the invariant.\<close>

lemma insert_path_object: "\<exists>m'. insert_path (JObj m) ss v = JObj m'"
  by (induction ss rule: induct_list012) (auto simp: insert_path_Cons2)

lemma kept_write:
  assumes k: "kept vars seen out" and w: "walk (JObj vars) ss = Some v" and ne: "ss \<noteq> []"
    and out': "out' = the (as_object (insert_path (JObj out) ss v))"
  shows "kept vars seen out'" and "walk (JObj out') ss = Some v"
proof -
  from out' have o: "JObj out' = insert_path (JObj out) ss v"
    using insert_path_object [of out ss v] by auto
  from k have sb: "sub (JObj out) (JObj vars)" by (simp add: kept_def)
  have keep: "walk (JObj out') qs = walk (JObj vars) qs"
    if "walk (JObj out) qs = walk (JObj vars) qs" for qs
  proof (cases "walk (JObj vars) qs")
    case None
    with o insert_path_sub [OF sb w] show ?thesis by (metis sub_walk_None)
  next
    case (Some u)
    with that o insert_path_keeps_exact [OF sb w] show ?thesis by simp
  qed
  have "exact vars out' p" if "exact vars out p" for p
    using that keep [of "[p]"] keep [of "split_on dot p"]
    by (auto simp: exact_def split: option.splits)
  with k o insert_path_sub [OF sb w] show "kept vars seen out'"
    by (simp add: kept_def)
  from insert_path_gives [OF sb w ne] o show "walk (JObj out') ss = Some v" by simp
qed

lemma keep_step_kept: "kept vars seen out \<Longrightarrow> kept vars (insert p seen) (keep_step vars p out)"
proof (cases "fmlookup vars p")
  case (Some v)
  assume k: "kept vars seen out"
  have st: "keep_step vars p out = the (as_object (insert_path (JObj out) [p] v))"
    by (simp add: keep_step_walk Some)
  have w: "walk (JObj vars) [p] = Some v" by (simp add: Some)
  from kept_write [OF k w _ st] Some show ?thesis
    by (auto simp: kept_def exact_def split: option.splits)
next
  case None
  assume k: "kept vars seen out"
  then have sb: "sub (JObj out) (JObj vars)" by (simp add: kept_def)
  show ?thesis
  proof (cases "walk (JObj vars) (split_on dot p)")
    case (Some v)
    with None have st: "keep_step vars p out = the (as_object (insert_path (JObj out) (split_on dot p) v))"
      by (simp add: keep_step_walk lookup_walk)
    from kept_write [OF k Some _ st] None Some show ?thesis by (simp add: kept_def exact_def)
  next
    assume n: "walk (JObj vars) (split_on dot p) = None"
    with None have "keep_step vars p out = out" by (simp add: keep_step_walk lookup_walk)
    with k n None sub_walk_None [OF sb n] show ?thesis by (simp add: kept_def exact_def)
  qed
qed

lemma keep_paths_kept: "kept vars (set paths) (keep_paths vars paths)"
proof -
  have "kept vars (seen \<union> set paths) (fold (keep_step vars) paths out)" if "kept vars seen out" for seen out
    using that
  proof (induction paths arbitrary: seen out)
    case (Cons p paths)
    from Cons.IH [OF keep_step_kept [OF Cons.prems, of p]] show ?case by (simp add: Un_insert_left)
  qed simp
  from this [of "{}" fmempty] show ?thesis by (simp add: keep_paths_def kept_def)
qed

text \<open>
  A \<open>fields\<close> selection is exact: reading any selected path from the selection gives what
  reading it from the host gives (nothing when the host has nothing there), whatever order
  the paths came in and however they overlap.
\<close>

theorem keep_paths_exact:
  assumes "p \<in> set paths"
  shows "lookup (keep_paths vars paths) p = lookup vars p"
  using assms keep_paths_kept [of vars paths] by (auto simp: kept_def intro: exact_lookup)

theorem keep_paths_exact_witness:
  "lookup (keep_paths (fmap_of_list [(''m'', JObj (fmap_of_list [(''n'', JNull), (''s'', JBool True)]))])
     [''m.n'']) ''m.n'' = Some JNull"
proof -
  let ?v = "fmap_of_list [(''m'', JObj (fmap_of_list [(''n'', JNull), (''s'', JBool True)]))]"
  have "lookup ?v ''m.n'' = Some JNull" by (simp add: lookup_def dot_def)
  moreover have "lookup (keep_paths ?v [''m.n'']) ''m.n'' = lookup ?v ''m.n''"
    by (rule keep_paths_exact) simp
  ultimately show ?thesis by simp
qed

text \<open>
  A \<open>fields\<close> selection invents nothing: it is the host's variables with entries left
  out, at every depth.
\<close>

theorem keep_paths_sub: "sub (JObj (keep_paths vars paths)) (JObj vars)"
  using keep_paths_kept [of vars paths] by (simp add: kept_def)

section \<open>What drop_paths removes\<close>

lemma sub_fmdrop: "sub (JObj (fmdrop k m)) (JObj m)"
  by (auto simp: sub_JObj_iff intro: sub_refl)

lemma sub_replace: "fmlookup m k = Some c \<Longrightarrow> sub v c \<Longrightarrow> sub (JObj (fmupd k v m)) (JObj m)"
  by (auto simp: sub_JObj_iff intro: sub_refl)

lemma remove_path_sub: "sub (remove_path v ss) v"
  by (induction v ss rule: remove_path.induct)
    (auto split: json.splits option.splits intro: sub_refl sub_fmdrop sub_replace)

lemma remove_path_gone: "ss \<noteq> [] \<Longrightarrow> walk (remove_path v ss) ss = None"
  by (induction v ss rule: remove_path.induct) (auto split: json.splits option.splits)

lemma drop_step_sub: "sub (JObj (drop_step p vars)) (JObj vars)"
  by (auto simp: drop_step_def split: list.splits option.splits
      intro: sub_fmdrop sub_replace remove_path_sub sub_refl)

lemma drop_paths_sub: "sub (JObj (drop_paths ps vars)) (JObj vars)"
proof (induction ps arbitrary: vars)
  case (Cons p ps)
  from Cons [of "drop_step p vars"] drop_step_sub [of p vars] show ?case
    unfolding drop_paths_def by (auto intro: sub_trans)
qed (simp add: drop_paths_def sub_refl)

lemma drop_step_top: "fmlookup (drop_step p vars) p = None"
proof (cases "fmlookup vars p")
  case None
  then show ?thesis using drop_step_sub sub_None by blast
qed (simp add: drop_step_def)

lemma drop_step_gone:
  assumes "fmlookup vars p = None"
  shows "lookup (drop_step p vars) p = None"
proof -
  obtain root rest where sp: "split_on dot p = root # rest"
    by (cases "split_on dot p") auto
  show ?thesis
  proof (cases "rest = []")
    case True
    with sp have "root = p" by (auto dest: split_on_single)
    with True sp assms show ?thesis by (simp add: drop_step_def lookup_def)
  next
    case False
    with sp assms drop_step_top [of p vars] show ?thesis
      by (auto simp: lookup_def drop_step_def remove_path_gone split: option.splits if_splits)
  qed
qed

lemma lookup_None_walk: "lookup vars p = None \<longleftrightarrow> fmlookup vars p = None \<and> walk (JObj vars) (split_on dot p) = None"
  by (simp add: lookup_walk split: option.splits)

lemma sub_lookup_None:
  "sub (JObj m) (JObj n) \<Longrightarrow> lookup n p = None \<Longrightarrow> lookup m p = None"
  by (auto simp: lookup_None_walk sub_None sub_walk_None)

lemma drop_paths_gone:
  "p \<in> set ps \<Longrightarrow> fmlookup (drop_paths ps vars) p = None
     \<and> (fmlookup vars p = None \<longrightarrow> lookup (drop_paths ps vars) p = None)"
proof (induction ps arbitrary: vars)
  case (Cons q ps)
  have st: "drop_paths (q # ps) vars = drop_paths ps (drop_step q vars)"
    by (simp add: drop_paths_def)
  have later: "sub (JObj (drop_paths ps (drop_step q vars))) (JObj (drop_step q vars))"
    by (rule drop_paths_sub)
  show ?case
  proof (cases "p = q")
    case True
    with st later show ?thesis
      using drop_step_top [of q vars] drop_step_gone [of vars q]
      by (auto intro: sub_None sub_lookup_None)
  next
    case False
    with Cons.prems have "p \<in> set ps" by simp
    from Cons.IH [OF this, of "drop_step q vars"] st show ?thesis
      using sub_None [OF drop_step_sub [of q vars], of p] by auto
  qed
qed simp

text \<open>
  An exclusion holds against every selection: whatever \<open>fields\<close> names, a host shaped by
  \<open>exclude_fields\<close> has no top-level variable of an excluded name, nothing at an excluded
  dotted path (unless the host has a top-level variable spelled with those dots, which is
  then what the name means), and no variable it did not have before.
\<close>

theorem select_host_excludes:
  assumes "p \<in> set (vs_drop s)"
  shows "fmlookup (select_host s vars) p = None
    \<and> (fmlookup vars p = None \<longrightarrow> lookup (select_host s vars) p = None)
    \<and> sub (JObj (select_host s vars)) (JObj vars)"
proof -
  let ?in = "case vs_keep s of None \<Rightarrow> vars | Some paths \<Rightarrow> keep_paths vars paths"
  have in_sub: "sub (JObj ?in) (JObj vars)"
    using keep_paths_kept by (auto simp: kept_def sub_refl split: option.splits)
  have "sub (JObj (select_host s vars)) (JObj vars)"
    unfolding select_host_def by (rule sub_trans [OF drop_paths_sub in_sub])
  moreover have "fmlookup vars p = None \<Longrightarrow> fmlookup ?in p = None"
    using sub_None [OF in_sub] .
  ultimately show ?thesis
    using drop_paths_gone [OF assms, of ?in] by (simp add: select_host_def)
qed

theorem select_host_excludes_witness:
  "lookup (select_host \<lparr>vs_keep = Some [''m''], vs_drop = [''m.n'']\<rparr>
     (fmap_of_list [(''m'', JObj (fmap_of_list [(''n'', JNull)]))])) ''m.n'' = None"
  using select_host_excludes
    [of "''m.n''" "\<lparr>vs_keep = Some [''m''], vs_drop = [''m.n'']\<rparr>"
      "fmap_of_list [(''m'', JObj (fmap_of_list [(''n'', JNull)]))]"]
  by simp

end
