(* ===== verification/Datasets.thy ===== *)
theory Datasets
  imports Var_Path
begin

text \<open>
  The data model and the reader of Ansible inventory JSON: \<open>src/src/domain/dataset.rs\<close>.
  The lemmas say what a conversion that succeeds returns (no meta-group, every host a
  meta-group named, the host variables as given) and that completing a dataset with its
  group members adds empty hosts and changes nothing else.
\<close>

section \<open>Dataset and Group\<close>

record group =
  g_hosts :: "string list"
  g_children :: "string list"
  g_vars :: "host_vars option"

record dataset =
  hostvars :: "(string, host_vars) fmap"
  groups :: "(string, group) fmap"
  remove_hosts :: "string list"

definition group_default :: group where
  "group_default = \<lparr>g_hosts = [], g_children = [], g_vars = None\<rparr>"

definition empty_dataset :: dataset where
  "empty_dataset = \<lparr>hostvars = fmempty, groups = fmempty, remove_hosts = []\<rparr>"

definition is_meta_group :: "string \<Rightarrow> bool" where
  "is_meta_group name \<longleftrightarrow> name = ''all'' \<or> name = ''ungrouped''"

section \<open>Reading Ansible inventory JSON\<close>

datatype inventory_error =
    Not_an_object
  | Old_shape
  | Meta_malformed
  | Group_list_entry string
  | Group_no_known_key string "string list"
  | Group_malformed string
  | Group_wrong_type string string

datatype inventory_warning =
    No_meta_hostvars
  | Extra_keys string "string list"
  | Meta_group_vars string

fun json_type_name :: "json \<Rightarrow> string" where
  "json_type_name JNull = ''null''"
| "json_type_name (JBool _) = ''a boolean''"
| "json_type_name (JNum _) = ''a number''"
| "json_type_name (JStr _) = ''a string''"
| "json_type_name (JArr _) = ''an array''"
| "json_type_name (JObj _) = ''an object''"

definition known_key :: "string \<Rightarrow> bool" where
  "known_key k \<longleftrightarrow> k = ''hosts'' \<or> k = ''children'' \<or> k = ''vars''"

text \<open>
  \<open>serde_json::from_value\<close> into the fields of \<open>Group\<close>: an absent key takes its default, a
  list of names must hold strings only, \<open>vars\<close> may also be null, other keys are ignored.
\<close>

definition names_of_json :: "json option \<Rightarrow> (string list) option" where
  "names_of_json v =
     (case v of
        None \<Rightarrow> Some []
      | Some (JArr items) \<Rightarrow>
          (if list_all (\<lambda>i. as_str i \<noteq> None) items then Some (map (the \<circ> as_str) items) else None)
      | Some _ \<Rightarrow> None)"

definition vars_of_json :: "json option \<Rightarrow> (host_vars option) option" where
  "vars_of_json v =
     (case v of
        None \<Rightarrow> Some None
      | Some JNull \<Rightarrow> Some None
      | Some (JObj m) \<Rightarrow> Some (Some m)
      | Some _ \<Rightarrow> None)"

definition group_of_object :: "(string, json) fmap \<Rightarrow> group option" where
  "group_of_object m =
     (case (names_of_json (fmlookup m ''hosts''), names_of_json (fmlookup m ''children''),
            vars_of_json (fmlookup m ''vars'')) of
        (Some hs, Some cs, Some vs) \<Rightarrow> Some \<lparr>g_hosts = hs, g_children = cs, g_vars = vs\<rparr>
      | _ \<Rightarrow> None)"

definition hostvars_of_json :: "json \<Rightarrow> ((string, host_vars) fmap) option" where
  "hostvars_of_json v =
     (case v of
        JObj m \<Rightarrow>
          (if fmpred (\<lambda>_ x. is_object x) m then Some (fmmap (the \<circ> as_object) m) else None)
      | _ \<Rightarrow> None)"

text \<open>\<open>parse_group\<close>: the group and the warnings it pushes.\<close>

definition parse_group ::
  "string \<Rightarrow> json \<Rightarrow> inventory_error + group \<times> inventory_warning list" where
  "parse_group name v =
     (case v of
        JArr items \<Rightarrow>
          (case traverse (\<lambda>i. case as_str i of
                             Some h \<Rightarrow> Inr h | None \<Rightarrow> Inl (Group_list_entry name)) items of
             Inl e \<Rightarrow> Inl e
           | Inr hs \<Rightarrow> Inr (\<lparr>g_hosts = hs, g_children = [], g_vars = None\<rparr>, []))
      | JObj keys \<Rightarrow>
          (if keys \<noteq> fmempty \<and> \<not> list_ex known_key (fm_keys keys)
           then Inl (Group_no_known_key name (fm_keys keys))
           else
             (let extra = filter (\<lambda>k. \<not> known_key k) (fm_keys keys);
                  warns = (if extra \<noteq> [] then [Extra_keys name extra] else [])
              in case group_of_object keys of
                   None \<Rightarrow> Inl (Group_malformed name)
                 | Some g \<Rightarrow> Inr (g, warns)))
      | other \<Rightarrow> Inl (Group_wrong_type name (json_type_name other)))"

definition old_shape :: "(string, json) fmap \<Rightarrow> string \<Rightarrow> bool" where
  "old_shape obj key =
     (case fmlookup obj key of
        Some (JObj m) \<Rightarrow>
          list_all (\<lambda>k. is_object (the (fmlookup m k))) (fm_keys m)
          \<and> \<not> list_ex known_key (fm_keys m)
      | _ \<Rightarrow> False)"

text \<open>The host variables under \<open>_meta\<close>, and the warning when there is no \<open>_meta\<close>.\<close>

definition read_meta ::
  "(string, json) fmap
     \<Rightarrow> inventory_error + (string, host_vars) fmap \<times> inventory_warning list" where
  "read_meta obj =
     (case fmlookup obj ''_meta'' of
        None \<Rightarrow> Inr (fmempty, [No_meta_hostvars])
      | Some meta \<Rightarrow>
          (case Option.bind (as_object meta) (\<lambda>m. fmlookup m ''hostvars'') of
             None \<Rightarrow> Inr (fmempty, [])
           | Some raw \<Rightarrow>
               (case hostvars_of_json raw of
                  None \<Rightarrow> Inl Meta_malformed
                | Some hv \<Rightarrow> Inr (hv, []))))"

text \<open>The loop over the top-level keys, in serde's order of an object's keys.\<close>

fun read_groups ::
  "(string, json) fmap \<Rightarrow> string list
     \<Rightarrow> (string, host_vars) fmap \<Rightarrow> (string, group) fmap \<Rightarrow> inventory_warning list
     \<Rightarrow> inventory_error + dataset \<times> inventory_warning list" where
  "read_groups obj [] hv gs ws =
     Inr (\<lparr>hostvars = hv, groups = gs, remove_hosts = []\<rparr>, ws)"
| "read_groups obj (name # names) hv gs ws =
     (if name = ''_meta'' then read_groups obj names hv gs ws
      else
        (case parse_group name (the (fmlookup obj name)) of
           Inl e \<Rightarrow> Inl e
         | Inr (g, ws') \<Rightarrow>
             if is_meta_group name then
               read_groups obj names (fm_ensure fmempty (g_hosts g) hv) gs
                 (ws @ ws' @
                   (case g_vars g of
                      None \<Rightarrow> []
                    | Some v \<Rightarrow> if v \<noteq> fmempty then [Meta_group_vars name] else []))
             else read_groups obj names hv (fmupd name g gs) (ws @ ws')))"

definition from_ansible_inventory ::
  "json \<Rightarrow> inventory_error + dataset \<times> inventory_warning list" where
  "from_ansible_inventory v =
     (case as_object v of
        None \<Rightarrow> Inl Not_an_object
      | Some obj \<Rightarrow>
          if fmlookup obj ''_meta'' = None \<and> (old_shape obj ''hostvars'' \<or> old_shape obj ''groups'')
          then Inl Old_shape
          else
            (case read_meta obj of
               Inl e \<Rightarrow> Inl e
             | Inr (hv, ws) \<Rightarrow> read_groups obj (fm_keys obj) hv fmempty ws))"

section \<open>Group members are hosts\<close>

definition add_group_members :: "dataset \<Rightarrow> dataset" where
  "add_group_members d =
     d\<lparr>hostvars := fm_fold (\<lambda>_ g. fm_ensure fmempty (g_hosts g)) (groups d) (hostvars d)\<rparr>"

text \<open>The members of the groups of a dataset.\<close>

definition member_of :: "dataset \<Rightarrow> string \<Rightarrow> bool" where
  "member_of d h \<longleftrightarrow> fm_any (\<lambda>_ g. h \<in> set (g_hosts g)) (groups d)"

lemma add_group_members_lookup:
  "fmlookup (hostvars (add_group_members d)) h =
     (case fmlookup (hostvars d) h of
        Some v \<Rightarrow> Some v | None \<Rightarrow> if member_of d h then Some fmempty else None)"
proof -
  have "(\<exists>n\<in>fmdom' (groups d). h \<in> set (g_hosts (the (fmlookup (groups d) n)))) \<longleftrightarrow> member_of d h"
    by (force simp: member_of_def fm_any_iff fmlookup_dom'_iff)
  then show ?thesis
    by (simp add: add_group_members_def fm_fold_def fold_ensure_lookup)
qed

lemma add_group_members_frame [simp]:
  "groups (add_group_members d) = groups d"
  "remove_hosts (add_group_members d) = remove_hosts d"
  by (simp_all add: add_group_members_def)

text \<open>
  Completing a dataset with its group members: afterwards every member of a group is a
  host; a host that was there keeps its variables, one that was not has none; the groups are
  untouched; and doing it again changes nothing.
\<close>

theorem add_group_members_complete:
  "(\<forall>h. fmlookup (hostvars (add_group_members d)) h =
          (case fmlookup (hostvars d) h of
             Some v \<Rightarrow> Some v
           | None \<Rightarrow> if member_of d h then Some fmempty else None))
   \<and> groups (add_group_members d) = groups d
   \<and> add_group_members (add_group_members d) = add_group_members d"
proof -
  have "hostvars (add_group_members (add_group_members d)) = hostvars (add_group_members d)"
    by (rule fmap_ext)
      (simp add: add_group_members_lookup [of "add_group_members d"] add_group_members_lookup [of d]
        member_of_def split: option.splits)
  then have "add_group_members (add_group_members d) = add_group_members d"
    by (metis add_group_members_frame dataset.surjective dataset.update_convs(1) old.unit.exhaust
        add_group_members_def)
  then show ?thesis by (simp add: add_group_members_lookup)
qed

section \<open>What a conversion returns\<close>

definition ordinary :: "string \<Rightarrow> bool" where
  "ordinary name \<longleftrightarrow> name \<noteq> ''_meta'' \<and> \<not> is_meta_group name"

text \<open>The group a top-level key of the document holds, if it parses as one.\<close>

definition parsed :: "(string, json) fmap \<Rightarrow> string \<Rightarrow> group option" where
  "parsed obj name =
     (case parse_group name (the (fmlookup obj name)) of Inl _ \<Rightarrow> None | Inr (g, _) \<Rightarrow> Some g)"

text \<open>A host some meta-group of the document names.\<close>

definition meta_member :: "(string, json) fmap \<Rightarrow> string list \<Rightarrow> string \<Rightarrow> bool" where
  "meta_member obj names h \<longleftrightarrow>
     list_ex (\<lambda>n. n \<noteq> ''_meta'' \<and> is_meta_group n
        \<and> (case parsed obj n of None \<Rightarrow> False | Some g \<Rightarrow> h \<in> set (g_hosts g))) names"

lemma read_groups_stepE:
  assumes "read_groups obj (name # names) hv gs ws = Inr r" and "name \<noteq> ''_meta''"
  obtains g ws' where "parsed obj name = Some g"
    and "read_groups obj names (if is_meta_group name then fm_ensure fmempty (g_hosts g) hv else hv)
           (if is_meta_group name then gs else fmupd name g gs) ws' = Inr r"
  using assms by (auto simp: parsed_def split: sum.splits if_splits)

lemma read_groups_groups:
  "read_groups obj names hv gs ws = Inr (d, ws') \<Longrightarrow>
     (\<forall>n\<in>set names. n \<noteq> ''_meta'' \<longrightarrow> parsed obj n \<noteq> None)
     \<and> fmlookup (groups d) n =
         (if n \<in> set names \<and> ordinary n then parsed obj n else fmlookup gs n)"
proof (induction names arbitrary: hv gs ws)
  case (Cons name names)
  show ?case
  proof (cases "name = ''_meta''")
    case True
    with Cons show ?thesis by (auto simp: ordinary_def)
  next
    case False
    from Cons.prems False obtain g ws'' where g: "parsed obj name = Some g"
      and r: "read_groups obj names (if is_meta_group name then fm_ensure fmempty (g_hosts g) hv else hv)
           (if is_meta_group name then gs else fmupd name g gs) ws'' = Inr (d, ws')"
      by (rule read_groups_stepE)
    from Cons.IH [OF r] g False show ?thesis
      by (cases "is_meta_group name") (auto simp: ordinary_def)
  qed
qed (auto simp: ordinary_def)

lemma read_groups_hostvars:
  "read_groups obj names hv gs ws = Inr (d, ws') \<Longrightarrow>
     fmlookup (hostvars d) h =
       (case fmlookup hv h of Some v \<Rightarrow> Some v
        | None \<Rightarrow> if meta_member obj names h then Some fmempty else None)"
proof (induction names arbitrary: hv gs ws)
  case (Cons name names)
  show ?case
  proof (cases "name = ''_meta''")
    case True
    with Cons show ?thesis by (simp add: meta_member_def)
  next
    case False
    from Cons.prems False obtain g ws'' where g: "parsed obj name = Some g"
      and r: "read_groups obj names (if is_meta_group name then fm_ensure fmempty (g_hosts g) hv else hv)
           (if is_meta_group name then gs else fmupd name g gs) ws'' = Inr (d, ws')"
      by (rule read_groups_stepE)
    from Cons.IH [OF r] g False show ?thesis
      by (cases "fmlookup hv h"; cases "is_meta_group name") (simp_all add: meta_member_def)
  qed
qed (auto simp: meta_member_def split: option.splits)

text \<open>
  A conversion that succeeds loses nothing it was given: every top-level key but
  \<open>_meta\<close> parsed as a group, the ordinary ones are exactly the groups of the dataset (a
  meta-group never is), the host variables of \<open>_meta\<close> are kept as they are, and the only
  other hosts are those a meta-group names, with no variables.
\<close>

theorem from_ansible_inventory_faithful:
  assumes "from_ansible_inventory (JObj obj) = Inr (d, ws)"
  shows "(\<forall>n\<in>fmdom' obj. n \<noteq> ''_meta'' \<longrightarrow> parsed obj n \<noteq> None)
    \<and> (\<forall>n. fmlookup (groups d) n = (if n \<in> fmdom' obj \<and> ordinary n then parsed obj n else None))
    \<and> (\<exists>hv w. read_meta obj = Inr (hv, w)
          \<and> (\<forall>h. fmlookup (hostvars d) h =
                (case fmlookup hv h of
                   Some v \<Rightarrow> Some v
                 | None \<Rightarrow> if meta_member obj (fm_keys obj) h then Some fmempty else None)))"
proof -
  from assms obtain hv w where m: "read_meta obj = Inr (hv, w)"
    and r: "read_groups obj (fm_keys obj) hv fmempty w = Inr (d, ws)"
    by (auto simp: from_ansible_inventory_def split: if_splits sum.splits)
  from read_groups_groups [OF r] have "\<forall>n\<in>fmdom' obj. n \<noteq> ''_meta'' \<longrightarrow> parsed obj n \<noteq> None"
    and "\<And>n. fmlookup (groups d) n = (if n \<in> fmdom' obj \<and> ordinary n then parsed obj n else None)"
    by simp_all
  then show ?thesis
    using m read_groups_hostvars [OF r] by blast
qed

definition sample_inventory :: "(string, json) fmap" where
  "sample_inventory = fmap_of_list
     [(''_meta'', JObj (fmap_of_list [(''hostvars'', JObj (fmap_of_list [(''a'', JObj fmempty)]))])),
      (''web'', JArr [JStr ''a'']),
      (''all'', JObj (fmap_of_list [(''hosts'', JArr [JStr ''b''])]))]"

theorem from_ansible_inventory_faithful_witness:
  "\<exists>d ws. from_ansible_inventory (JObj sample_inventory) = Inr (d, ws)
     \<and> fmlookup (groups d) ''web'' = Some \<lparr>g_hosts = [''a''], g_children = [], g_vars = None\<rparr>
     \<and> fmlookup (groups d) ''all'' = None"
proof -
  have "\<not> isl (from_ansible_inventory (JObj sample_inventory))"
    by code_simp
  then obtain d ws where r: "from_ansible_inventory (JObj sample_inventory) = Inr (d, ws)"
    by (metis isl_def obj_sumE surj_pair)
  from from_ansible_inventory_faithful [OF r]
  have g: "fmlookup (groups d) n
      = (if n \<in> fmdom' sample_inventory \<and> ordinary n then parsed sample_inventory n else None)" for n
    by blast
  have "fmlookup (groups d) ''web'' = Some \<lparr>g_hosts = [''a''], g_children = [], g_vars = None\<rparr>"
    and "fmlookup (groups d) ''all'' = None"
    unfolding g
    by (simp_all add: sample_inventory_def ordinary_def is_meta_group_def parsed_def parse_group_def)
  with r show ?thesis by blast
qed

end
