(* ===== verification/Cache_Entry.thy ===== *)
theory Cache_Entry
  imports Datasets
begin

text \<open>
  One entry of the cache: \<open>src/src/domain/cache_entry.rs\<close>. A dataset with the clock of its
  last full gather, a clock per host, whether the whole source was ever gathered, and the
  JSON text of the dataset, built at most once per version. An operation that calls
  \<open>Instant::now()\<close> takes the reading \<open>now\<close>. The serializer and the hash behind the ETag are
  parameters (\<open>serde_json::to_vec\<close>, \<open>DefaultHasher\<close>).
\<close>

section \<open>State\<close>

record json_text =
  sj_bytes :: string
  sj_etag :: string

record retained_host =
  r_hostname :: string
  r_vars :: host_vars
  r_age_seconds :: nat
  r_groups :: "string list"

record cache_entry =
  e_dataset :: dataset
  fetched_at :: instant
  e_ttl :: duration
  host_timestamps :: "(string, instant) fmap"
  complete :: bool
  serialized :: "json_text option"

definition ce_new :: "instant \<Rightarrow> dataset \<Rightarrow> nat \<Rightarrow> cache_entry" where
  "ce_new now d ttl_seconds =
     \<lparr>e_dataset = d, fetched_at = now, e_ttl = from_secs ttl_seconds,
      host_timestamps = fmmap (\<lambda>_. now) (hostvars d), complete = True, serialized = None\<rparr>"

definition ce_restore ::
  "instant \<Rightarrow> dataset \<Rightarrow> nat \<Rightarrow> nat \<Rightarrow> (string, nat) fmap \<Rightarrow> cache_entry" where
  "ce_restore now d ttl_seconds age_seconds host_ages =
     (let (at, ttl) = (case checked_sub now (from_secs age_seconds) of
                         Some i \<Rightarrow> (i, from_secs ttl_seconds) | None \<Rightarrow> (now, 0));
          known = fm_retain (\<lambda>_ age. checked_sub now (from_secs age) \<noteq> None) host_ages
      in \<lparr>e_dataset = d, fetched_at = at, e_ttl = ttl,
          host_timestamps = fmmap (\<lambda>age. the (checked_sub now (from_secs age))) known,
          complete = True, serialized = None\<rparr>)"

section \<open>The serialized dataset\<close>

definition hex_digit :: "nat \<Rightarrow> char" where
  "hex_digit n = char_of (if n < 10 then 48 + n else 87 + n)"

text \<open>\<open>format!("{:016x}", ..)\<close>.\<close>

definition hex16 :: "u64 \<Rightarrow> string" where
  "hex16 w = map (\<lambda>i. hex_digit ((unat w div 16 ^ (15 - i)) mod 16)) [0..<16]"

definition etag_of :: "(string \<Rightarrow> u64) \<Rightarrow> string \<Rightarrow> string" where
  "etag_of hash bytes =
     [CHR 0x22] @ hex16 (hash bytes) @ ''-'' @ show_nat (length bytes) @ [CHR 0x22]"

text \<open>\<open>serialized_json\<close>: the entry with the cell filled, and what it answers.\<close>

definition serialized_json ::
  "(dataset \<Rightarrow> string + string) \<Rightarrow> (string \<Rightarrow> u64) \<Rightarrow> cache_entry
     \<Rightarrow> cache_entry \<times> (string + json_text)" where
  "serialized_json ser hash e =
     (case serialized e of
        Some cached \<Rightarrow> (e, Inr cached)
      | None \<Rightarrow>
          (case ser (e_dataset e) of
             Inl err \<Rightarrow> (e, Inl err)
           | Inr bytes \<Rightarrow>
               (let j = \<lparr>sj_bytes = bytes, sj_etag = etag_of hash bytes\<rparr>
                in (e\<lparr>serialized := Some j\<rparr>, Inr j))))"

definition serialized_len :: "cache_entry \<Rightarrow> nat option" where
  "serialized_len e = map_option (\<lambda>j. length (sj_bytes j)) (serialized e)"

definition invalidate_serialized :: "cache_entry \<Rightarrow> cache_entry" where
  "invalidate_serialized e = e\<lparr>serialized := None\<rparr>"

section \<open>Freshness\<close>

definition is_fresh :: "instant \<Rightarrow> cache_entry \<Rightarrow> bool" where
  "is_fresh now e \<longleftrightarrow> complete e \<and> elapsed now (fetched_at e) < e_ttl e"

definition is_complete :: "cache_entry \<Rightarrow> bool" where
  "is_complete e = complete e"

definition set_ttl :: "nat \<Rightarrow> cache_entry \<Rightarrow> cache_entry" where
  "set_ttl ttl_seconds e = e\<lparr>e_ttl := from_secs ttl_seconds\<rparr>"

definition mark_partial :: "cache_entry \<Rightarrow> cache_entry" where
  "mark_partial e = e\<lparr>complete := False\<rparr>"

definition mark_gathered :: "instant \<Rightarrow> cache_entry \<Rightarrow> cache_entry" where
  "mark_gathered now e = e\<lparr>fetched_at := now, complete := True\<rparr>"

definition age_seconds :: "instant \<Rightarrow> cache_entry \<Rightarrow> nat" where
  "age_seconds now e = as_secs (elapsed now (fetched_at e))"

definition is_host_fresh :: "instant \<Rightarrow> cache_entry \<Rightarrow> string \<Rightarrow> nat option \<Rightarrow> bool" where
  "is_host_fresh now e hostname ttl_override =
     (let ttl = (case ttl_override of Some secs \<Rightarrow> from_secs secs | None \<Rightarrow> e_ttl e)
      in case fmlookup (host_timestamps e) hostname of
           Some ts \<Rightarrow> elapsed now ts < ttl
         | None \<Rightarrow> False)"

definition host_age_seconds :: "instant \<Rightarrow> cache_entry \<Rightarrow> string \<Rightarrow> nat option" where
  "host_age_seconds now e hostname =
     map_option (\<lambda>ts. as_secs (elapsed now ts)) (fmlookup (host_timestamps e) hostname)"

section \<open>Writing one host\<close>

definition update_host_aged ::
  "instant \<Rightarrow> string \<Rightarrow> host_vars \<Rightarrow> nat \<Rightarrow> cache_entry \<Rightarrow> cache_entry" where
  "update_host_aged now hostname vars age e =
     (let e = invalidate_serialized e;
          d = e_dataset e;
          ts = (case checked_sub now (from_secs age) of Some i \<Rightarrow> i | None \<Rightarrow> now)
      in e\<lparr>e_dataset := d\<lparr>hostvars := fmupd hostname vars (hostvars d)\<rparr>,
           host_timestamps := fmupd hostname ts (host_timestamps e)\<rparr>)"

definition update_host :: "instant \<Rightarrow> string \<Rightarrow> host_vars \<Rightarrow> cache_entry \<Rightarrow> cache_entry" where
  "update_host now hostname vars e = update_host_aged now hostname vars 0 e"

definition capture_host :: "instant \<Rightarrow> cache_entry \<Rightarrow> string \<Rightarrow> retained_host option" where
  "capture_host now e hostname =
     (case fmlookup (hostvars (e_dataset e)) hostname of
        None \<Rightarrow> None
      | Some vars \<Rightarrow>
          Some \<lparr>r_hostname = hostname, r_vars = vars,
                r_age_seconds = (case host_age_seconds now e hostname of Some a \<Rightarrow> a | None \<Rightarrow> 0),
                r_groups = filter
                  (\<lambda>n. hostname \<in> set (g_hosts (the (fmlookup (groups (e_dataset e)) n))))
                  (fm_keys (groups (e_dataset e)))\<rparr>)"

definition push_host :: "string \<Rightarrow> group \<Rightarrow> group" where
  "push_host h g = (if h \<in> set (g_hosts g) then g else g\<lparr>g_hosts := g_hosts g @ [h]\<rparr>)"

definition drop_host :: "string \<Rightarrow> group \<Rightarrow> group" where
  "drop_host h g = g\<lparr>g_hosts := filter (\<lambda>x. x \<noteq> h) (g_hosts g)\<rparr>"

definition join_groups ::
  "string \<Rightarrow> string list \<Rightarrow> (string, group) fmap \<Rightarrow> (string, group) fmap" where
  "join_groups h names gs = fold (fm_or_default group_default (push_host h)) names gs"

definition restore_host :: "instant \<Rightarrow> retained_host \<Rightarrow> cache_entry \<Rightarrow> cache_entry" where
  "restore_host now r e =
     (let e = update_host_aged now (r_hostname r) (r_vars r) (r_age_seconds r) e;
          d = e_dataset e
      in e\<lparr>e_dataset := d\<lparr>groups := join_groups (r_hostname r) (r_groups r) (groups d)\<rparr>\<rparr>)"

definition set_host_groups :: "string \<Rightarrow> string list \<Rightarrow> cache_entry \<Rightarrow> cache_entry" where
  "set_host_groups hostname names e =
     (let e = invalidate_serialized e;
          d = e_dataset e;
          left = fmmap_keys
            (\<lambda>n g. if is_meta_group n \<or> n \<in> set names then g else drop_host hostname g) (groups d);
          joined = join_groups hostname (filter (\<lambda>n. \<not> is_meta_group n) names) left
      in e\<lparr>e_dataset := d\<lparr>groups := joined\<rparr>\<rparr>)"

section \<open>Merging datasets\<close>

definition merge_hostvar_fields :: "dataset \<Rightarrow> cache_entry \<Rightarrow> cache_entry" where
  "merge_hostvar_fields partial e =
     (let e = invalidate_serialized e;
          d = e_dataset e
      in e\<lparr>e_dataset := d\<lparr>hostvars := fmmap_keys
            (\<lambda>h existing. case fmlookup (hostvars partial) h of
               None \<Rightarrow> existing | Some vars \<Rightarrow> existing ++\<^sub>f vars) (hostvars d)\<rparr>\<rparr>)"

definition merge_group_var_fields :: "dataset \<Rightarrow> cache_entry \<Rightarrow> cache_entry" where
  "merge_group_var_fields partial e =
     (let e = invalidate_serialized e;
          d = e_dataset e;
          described = fm_retain (\<lambda>_ g. g_vars g \<noteq> None) (groups partial);
          merged = fmmap_keys
            (\<lambda>n g. let vars = the (g_vars g) in
               case fmlookup (groups d) n of
                 Some existing \<Rightarrow>
                   existing\<lparr>g_vars := Some
                     ((case g_vars existing of None \<Rightarrow> fmempty | Some v \<Rightarrow> v) ++\<^sub>f vars)\<rparr>
               | None \<Rightarrow> \<lparr>g_hosts = g_hosts g, g_children = g_children g, g_vars = Some vars\<rparr>)
            described
      in e\<lparr>e_dataset := d\<lparr>groups := groups d ++\<^sub>f merged\<rparr>\<rparr>)"

text \<open>The part of a removal the operations share: the host goes from the hosts, from the
  clocks and from every group.\<close>

definition purge_host :: "string \<Rightarrow> cache_entry \<Rightarrow> cache_entry" where
  "purge_host h e =
     (let d = e_dataset e
      in e\<lparr>e_dataset := d\<lparr>hostvars := fmdrop h (hostvars d), groups := fmmap (drop_host h) (groups d)\<rparr>,
           host_timestamps := fmdrop h (host_timestamps e)\<rparr>)"

definition merge_into :: "instant \<Rightarrow> dataset \<Rightarrow> bool \<Rightarrow> cache_entry \<Rightarrow> cache_entry" where
  "merge_into now partial restamp_existing e =
     (let e = invalidate_serialized e;
          d = e_dataset e;
          ts = host_timestamps e;
          stamped_now = fmfilter (\<lambda>h. restamp_existing \<or> fmlookup ts h = None) (hostvars partial);
          e = e\<lparr>e_dataset := d\<lparr>hostvars := hostvars d ++\<^sub>f hostvars partial,
                               groups := groups d ++\<^sub>f groups partial\<rparr>,
                host_timestamps := ts ++\<^sub>f fmmap (\<lambda>_. now) stamped_now\<rparr>
      in fold purge_host (remove_hosts partial) e)"

definition merge_dataset :: "instant \<Rightarrow> dataset \<Rightarrow> cache_entry \<Rightarrow> cache_entry" where
  "merge_dataset now partial e = merge_into now partial True e"

definition merge_enrichment :: "instant \<Rightarrow> dataset \<Rightarrow> cache_entry \<Rightarrow> cache_entry" where
  "merge_enrichment now partial e = merge_into now partial False e"

definition remove_host :: "string \<Rightarrow> cache_entry \<Rightarrow> cache_entry" where
  "remove_host hostname e = purge_host hostname (invalidate_serialized e)"

definition update_group :: "instant \<Rightarrow> string \<Rightarrow> dataset \<Rightarrow> cache_entry \<Rightarrow> cache_entry" where
  "update_group now name partial e =
     (let e = invalidate_serialized e;
          d = e_dataset e;
          members = (case fmlookup (groups d) name of None \<Rightarrow> [] | Some g \<Rightarrow> g_hosts g);
          fresh = fmfilter (\<lambda>h. h \<in> set members) (hostvars partial);
          gs = (case (fmlookup (groups partial) name, fmlookup (groups d) name) of
                  (Some new, Some existing) \<Rightarrow>
                    fmupd name (existing\<lparr>g_vars := g_vars new\<rparr>) (groups d)
                | _ \<Rightarrow> groups d)
      in e\<lparr>e_dataset := d\<lparr>hostvars := hostvars d ++\<^sub>f fresh, groups := gs\<rparr>,
           host_timestamps := host_timestamps e ++\<^sub>f fmmap (\<lambda>_. now) fresh\<rparr>)"

section \<open>Which hosts and clocks an operation leaves\<close>

abbreviation e_hosts :: "cache_entry \<Rightarrow> string set" where
  "e_hosts e \<equiv> fmdom' (hostvars (e_dataset e))"

abbreviation e_clocks :: "cache_entry \<Rightarrow> string set" where
  "e_clocks e \<equiv> fmdom' (host_timestamps e)"

lemmas entry_defs =
  ce_new_def invalidate_serialized_def set_ttl_def mark_partial_def mark_gathered_def
  update_host_aged_def restore_host_def set_host_groups_def merge_hostvar_fields_def
  merge_group_var_fields_def purge_host_def remove_host_def update_group_def Let_def

lemma fold_purge_frame [simp]:
  "fetched_at (fold purge_host hs e) = fetched_at e"
  "e_ttl (fold purge_host hs e) = e_ttl e"
  "complete (fold purge_host hs e) = complete e"
  "serialized (fold purge_host hs e) = serialized e"
  by (induction hs arbitrary: e) (simp_all add: purge_host_def Let_def)

lemma fold_purge_hostvars:
  "fmlookup (hostvars (e_dataset (fold purge_host hs e))) h =
     (if h \<in> set hs then None else fmlookup (hostvars (e_dataset e)) h)"
  by (induction hs arbitrary: e) (auto simp: purge_host_def Let_def)

lemma fold_purge_clocks:
  "fmlookup (host_timestamps (fold purge_host hs e)) h =
     (if h \<in> set hs then None else fmlookup (host_timestamps e) h)"
  by (induction hs arbitrary: e) (auto simp: purge_host_def Let_def)

lemma purge_host_groups:
  "groups (e_dataset (purge_host h e)) = fmmap (drop_host h) (groups (e_dataset e))"
  by (simp add: purge_host_def Let_def)

lemma fold_purge_groups:
  "fmlookup (groups (e_dataset (fold purge_host hs e))) n =
     map_option (\<lambda>g. g\<lparr>g_hosts := filter (\<lambda>x. x \<notin> set hs) (g_hosts g)\<rparr>)
       (fmlookup (groups (e_dataset e)) n)"
  by (induction hs arbitrary: e)
    (simp_all add: purge_host_groups drop_host_def option.map_comp comp_def option.map_ident)

lemma merge_into_hostvars:
  "fmlookup (hostvars (e_dataset (merge_into now p r e))) h =
     (if h \<in> set (remove_hosts p) then None
      else case fmlookup (hostvars p) h of
             Some v \<Rightarrow> Some v | None \<Rightarrow> fmlookup (hostvars (e_dataset e)) h)"
  by (auto simp: merge_into_def entry_defs fold_purge_hostvars fmlookup_dom_iff split: option.splits)

lemma merge_into_clocks:
  "fmlookup (host_timestamps (merge_into now p r e)) h =
     (if h \<in> set (remove_hosts p) then None
      else if fmlookup (hostvars p) h \<noteq> None \<and> (r \<or> fmlookup (host_timestamps e) h = None)
      then Some now else fmlookup (host_timestamps e) h)"
  by (auto simp: merge_into_def entry_defs fold_purge_clocks fmlookup_dom_iff)

lemma merge_into_frame [simp]:
  "fetched_at (merge_into now p r e) = fetched_at e"
  "e_ttl (merge_into now p r e) = e_ttl e"
  "complete (merge_into now p r e) = complete e"
  "serialized (merge_into now p r e) = None"
  by (simp_all add: merge_into_def entry_defs)

lemma join_groups_lookup:
  "fmlookup (join_groups h names gs) n =
     (if n \<in> set names
      then Some (push_host h (case fmlookup gs n of None \<Rightarrow> group_default | Some g \<Rightarrow> g))
      else fmlookup gs n)"
  unfolding join_groups_def
proof (induction names arbitrary: gs)
  case (Cons m names)
  have "push_host h (push_host h g) = push_host h g" for g by (simp add: push_host_def)
  then show ?case by (auto simp: Cons split: option.splits)
qed simp

section \<open>Invariants over any sequence of operations\<close>

text \<open>
  Every host has a clock and only hosts do; and the text in the cell is the text of the
  dataset the entry holds now.
\<close>

definition stamped :: "cache_entry \<Rightarrow> bool" where
  "stamped e \<longleftrightarrow> e_hosts e = e_clocks e"

definition text_of ::
  "(dataset \<Rightarrow> string + string) \<Rightarrow> (string \<Rightarrow> u64) \<Rightarrow> dataset \<Rightarrow> json_text option" where
  "text_of ser hash d =
     (case ser d of
        Inl _ \<Rightarrow> None
      | Inr bytes \<Rightarrow> Some \<lparr>sj_bytes = bytes, sj_etag = etag_of hash bytes\<rparr>)"

definition text_current ::
  "(dataset \<Rightarrow> string + string) \<Rightarrow> (string \<Rightarrow> u64) \<Rightarrow> cache_entry \<Rightarrow> bool" where
  "text_current ser hash e \<longleftrightarrow>
     (serialized e = None \<or> serialized e = text_of ser hash (e_dataset e))"

text \<open>The operations a writer or a reader performs on an entry that is in the cache.\<close>

datatype entry_op =
    Op_read
  | Op_set_ttl nat
  | Op_mark_partial
  | Op_mark_gathered
  | Op_update_host string host_vars nat
  | Op_restore_host retained_host
  | Op_set_host_groups string "string list"
  | Op_merge_hostvar_fields dataset
  | Op_merge_group_var_fields dataset
  | Op_merge_dataset dataset
  | Op_merge_enrichment dataset
  | Op_remove_host string
  | Op_update_group string dataset

fun apply_op ::
  "(dataset \<Rightarrow> string + string) \<Rightarrow> (string \<Rightarrow> u64) \<Rightarrow> instant \<Rightarrow> entry_op
     \<Rightarrow> cache_entry \<Rightarrow> cache_entry" where
  "apply_op ser hash now Op_read e = fst (serialized_json ser hash e)"
| "apply_op ser hash now (Op_set_ttl t) e = set_ttl t e"
| "apply_op ser hash now Op_mark_partial e = mark_partial e"
| "apply_op ser hash now Op_mark_gathered e = mark_gathered now e"
| "apply_op ser hash now (Op_update_host h v a) e = update_host_aged now h v a e"
| "apply_op ser hash now (Op_restore_host r) e = restore_host now r e"
| "apply_op ser hash now (Op_set_host_groups h gs) e = set_host_groups h gs e"
| "apply_op ser hash now (Op_merge_hostvar_fields p) e = merge_hostvar_fields p e"
| "apply_op ser hash now (Op_merge_group_var_fields p) e = merge_group_var_fields p e"
| "apply_op ser hash now (Op_merge_dataset p) e = merge_dataset now p e"
| "apply_op ser hash now (Op_merge_enrichment p) e = merge_enrichment now p e"
| "apply_op ser hash now (Op_remove_host h) e = remove_host h e"
| "apply_op ser hash now (Op_update_group n p) e = update_group now n p e"

lemma stamped_iff:
  "stamped e \<longleftrightarrow> (\<forall>h. fmlookup (hostvars (e_dataset e)) h = None \<longleftrightarrow> fmlookup (host_timestamps e) h = None)"
  by (simp only: stamped_def set_eq_iff fmlookup_fmdom' simp_thms)

lemma stamped_new [simp]: "stamped (ce_new now d ttl)"
  by (simp add: stamped_def ce_new_def)

lemma stamped_merge_into: "stamped e \<Longrightarrow> stamped (merge_into now p r e)"
  by (auto simp: stamped_iff merge_into_hostvars merge_into_clocks split: option.splits)

lemma stamped_serialized_json: "stamped e \<Longrightarrow> stamped (fst (serialized_json ser hash e))"
  by (simp add: stamped_def serialized_json_def Let_def split: option.splits sum.splits)

lemma stamped_update_group: "stamped e \<Longrightarrow> stamped (update_group now n p e)"
  by (simp add: stamped_def update_group_def invalidate_serialized_def Let_def)

lemma stamped_purge_host: "stamped e \<Longrightarrow> stamped (purge_host h e)"
  by (simp add: stamped_def purge_host_def Let_def)

lemma stamped_update_host_aged: "stamped e \<Longrightarrow> stamped (update_host_aged now h v a e)"
  by (simp add: stamped_def update_host_aged_def invalidate_serialized_def Let_def)

lemma stamped_restore_host: "stamped e \<Longrightarrow> stamped (restore_host now r e)"
  using stamped_update_host_aged [of e now "r_hostname r" "r_vars r" "r_age_seconds r"]
  by (simp add: stamped_def restore_host_def Let_def)

lemma stamped_same:
  "stamped (set_ttl t e) = stamped e" "stamped (mark_partial e) = stamped e"
  "stamped (mark_gathered now e) = stamped e" "stamped (invalidate_serialized e) = stamped e"
  by (simp_all add: stamped_def set_ttl_def mark_partial_def mark_gathered_def
      invalidate_serialized_def)

lemma stamped_same_keys:
  "stamped (set_host_groups h gs e) = stamped e"
  "stamped (merge_hostvar_fields p e) = stamped e"
  "stamped (merge_group_var_fields p e) = stamped e"
  by (simp_all add: stamped_def set_host_groups_def merge_hostvar_fields_def
      merge_group_var_fields_def invalidate_serialized_def Let_def)

lemma stamped_apply_op: "stamped e \<Longrightarrow> stamped (apply_op ser hash now op e)"
  by (cases op)
    (simp_all add: stamped_serialized_json stamped_update_group stamped_purge_host
      stamped_update_host_aged stamped_restore_host stamped_same stamped_same_keys
      stamped_merge_into merge_dataset_def merge_enrichment_def remove_host_def)

lemma text_current_apply_op:
  "text_current ser hash e \<Longrightarrow> text_current ser hash (apply_op ser hash now op e)"
  by (cases op)
    (auto simp: text_current_def text_of_def entry_defs serialized_json_def merge_dataset_def
      merge_enrichment_def split: option.splits sum.splits)


lemma serialized_json_current:
  "text_current ser hash e \<Longrightarrow> serialized_json ser hash e = (e', Inr j) \<Longrightarrow>
     text_of ser hash (e_dataset e) = Some j"
  by (auto simp: serialized_json_def text_current_def text_of_def Let_def
      split: option.splits sum.splits)

section \<open>Ages\<close>

lemma update_host_aged_clocks:
  "fmlookup (host_timestamps (update_host_aged now h v a e)) h' =
     (if h = h' then Some (if from_secs a \<le> now then now - from_secs a else now)
      else fmlookup (host_timestamps e) h')"
  by (simp add: update_host_aged_def invalidate_serialized_def Let_def checked_sub_def)

lemma update_host_aged_hostvars:
  "hostvars (e_dataset (update_host_aged now h v a e)) = fmupd h v (hostvars (e_dataset e))"
  by (simp add: update_host_aged_def invalidate_serialized_def Let_def)

lemma update_host_aged_groups [simp]:
  "groups (e_dataset (update_host_aged now h v a e)) = groups (e_dataset e)"
  by (simp add: update_host_aged_def invalidate_serialized_def Let_def)

lemma host_age_update:
  "host_age_seconds now (update_host_aged now h v a e) h' =
     (if h = h' then Some (if from_secs a \<le> now then a else 0) else host_age_seconds now e h')"
  by (simp add: host_age_seconds_def update_host_aged_clocks elapsed_def as_secs_def from_secs_def)

text \<open>
  Writing a host with the age its data has: the host then has the given variables and
  reports exactly that age (or zero, when the clock cannot represent an instant so far
  back), it is fresh exactly under a TTL longer than that age, and no other host's variables,
  clock or group changes.
\<close>

theorem update_host_aged_truthful:
  "let e' = update_host_aged now h vars age e
   in fmlookup (hostvars (e_dataset e')) h = Some vars
      \<and> host_age_seconds now e' h = Some (if from_secs age \<le> now then age else 0)
      \<and> is_host_fresh now e' h (Some ttl) = ((if from_secs age \<le> now then age else 0) < ttl)
      \<and> (\<forall>h'. h' \<noteq> h \<longrightarrow>
            fmlookup (hostvars (e_dataset e')) h' = fmlookup (hostvars (e_dataset e)) h'
            \<and> fmlookup (host_timestamps e') h' = fmlookup (host_timestamps e) h')
      \<and> groups (e_dataset e') = groups (e_dataset e)"
  by (auto simp: Let_def update_host_aged_hostvars host_age_update is_host_fresh_def
      update_host_aged_clocks elapsed_def from_secs_def)

theorem update_host_aged_truthful_witness:
  "host_age_seconds (from_secs 900) (update_host_aged (from_secs 900) ''b'' fmempty 300
     (ce_new (from_secs 900) empty_dataset 600)) ''b'' = Some 300"
  using update_host_aged_truthful [of "from_secs 900" "''b''" fmempty 300
      "ce_new (from_secs 900) empty_dataset 600" 600]
  by (simp add: Let_def from_secs_def)

section \<open>Retained hosts\<close>

lemma restore_host_hostvars:
  "hostvars (e_dataset (restore_host now r e)) = fmupd (r_hostname r) (r_vars r) (hostvars (e_dataset e))"
  by (simp add: restore_host_def Let_def update_host_aged_hostvars)

lemma restore_host_clocks:
  "host_timestamps (restore_host now r e) =
     host_timestamps (update_host_aged now (r_hostname r) (r_vars r) (r_age_seconds r) e)"
  by (simp add: restore_host_def Let_def)

lemma restore_host_age:
  "host_age_seconds now' (restore_host now r e) h =
     host_age_seconds now' (update_host_aged now (r_hostname r) (r_vars r) (r_age_seconds r) e) h"
  by (simp add: host_age_seconds_def restore_host_clocks)

lemma restore_host_groups:
  "fmlookup (groups (e_dataset (restore_host now r e))) n =
     (if n \<in> set (r_groups r)
      then Some (push_host (r_hostname r)
             (case fmlookup (groups (e_dataset e)) n of None \<Rightarrow> group_default | Some g \<Rightarrow> g))
      else fmlookup (groups (e_dataset e)) n)"
  by (simp add: restore_host_def Let_def join_groups_lookup)

lemma push_host_mem [simp]: "x \<in> set (g_hosts (push_host h g)) \<longleftrightarrow> x = h \<or> x \<in> set (g_hosts g)"
  by (auto simp: push_host_def)

lemma host_age_representable:
  "fmlookup (host_timestamps e) h = Some ts \<Longrightarrow> host_age_seconds now e h = Some a \<Longrightarrow> from_secs a \<le> now"
  using from_as_secs_le [of "elapsed now ts"] by (auto simp: host_age_seconds_def elapsed_def)

text \<open>
  A host captured from one entry and put back into any other keeps its whole state: the
  same variables, the same age in seconds (so it is never presented as newer than it was),
  and membership of every group it was in, a group the new entry lacks being created; no
  other host gains or loses a membership it had.
\<close>

theorem retained_host_whole:
  assumes cap: "capture_host now old h = Some r"
    and clock: "fmlookup (host_timestamps old) h = Some ts"
  shows "let e' = restore_host now r e
    in fmlookup (hostvars (e_dataset e')) h = fmlookup (hostvars (e_dataset old)) h
       \<and> host_age_seconds now e' h = host_age_seconds now old h
       \<and> (\<forall>n g. fmlookup (groups (e_dataset old)) n = Some g \<and> h \<in> set (g_hosts g) \<longrightarrow>
             (\<exists>g'. fmlookup (groups (e_dataset e')) n = Some g' \<and> h \<in> set (g_hosts g')))
       \<and> (\<forall>n g. fmlookup (groups (e_dataset e)) n = Some g \<longrightarrow>
             (\<exists>g'. fmlookup (groups (e_dataset e')) n = Some g'
                \<and> g_vars g' = g_vars g \<and> g_children g' = g_children g
                \<and> (\<forall>x. x \<noteq> h \<longrightarrow> (x \<in> set (g_hosts g') \<longleftrightarrow> x \<in> set (g_hosts g)))))"
proof -
  from cap obtain vars where v: "fmlookup (hostvars (e_dataset old)) h = Some vars"
    by (auto simp: capture_host_def split: option.splits)
  from clock have age: "host_age_seconds now old h = Some (as_secs (elapsed now ts))"
    by (simp add: host_age_seconds_def)
  with cap v have r: "r_hostname r = h" "r_vars r = vars" "r_age_seconds r = as_secs (elapsed now ts)"
    "\<And>n. n \<in> set (r_groups r) \<longleftrightarrow> (\<exists>g. fmlookup (groups (e_dataset old)) n = Some g \<and> h \<in> set (g_hosts g))"
    by (auto simp: capture_host_def fmlookup_dom'_iff)
  from host_age_representable [OF clock age]
  have "host_age_seconds now (restore_host now r e) h = host_age_seconds now old h"
    using r age by (simp add: restore_host_age host_age_update)
  then show ?thesis
    using r v unfolding Let_def
    by (auto simp: restore_host_hostvars restore_host_groups push_host_def)
qed

definition sample_entry :: "instant \<Rightarrow> cache_entry" where
  "sample_entry now = update_host_aged now ''b'' fmempty 900
     (ce_new now \<lparr>hostvars = fmempty,
        groups = fmap_of_list [(''g'', \<lparr>g_hosts = [''b''], g_children = [], g_vars = None\<rparr>)],
        remove_hosts = []\<rparr> 3600)"

theorem retained_host_whole_witness:
  "\<exists>r. capture_host (from_secs 1000) (sample_entry (from_secs 1000)) ''b'' = Some r
     \<and> host_age_seconds (from_secs 1000)
         (restore_host (from_secs 1000) r (ce_new (from_secs 1000) empty_dataset 60)) ''b'' = Some 900"
proof -
  let ?now = "from_secs 1000"
  obtain r where cap: "capture_host ?now (sample_entry ?now) ''b'' = Some r"
    by (simp add: capture_host_def sample_entry_def update_host_aged_hostvars)
  have clock: "fmlookup (host_timestamps (sample_entry ?now)) ''b'' = Some (from_secs 100)"
    by (simp add: sample_entry_def update_host_aged_clocks from_secs_def)
  have "host_age_seconds ?now (sample_entry ?now) ''b'' = Some 900"
    using clock by (simp add: host_age_seconds_def elapsed_def as_secs_def from_secs_def)
  with retained_host_whole [OF cap clock, of "ce_new ?now empty_dataset 60"] cap
  show ?thesis by (auto simp: Let_def)
qed

section \<open>Group membership of one host\<close>

lemma set_host_groups_lookup:
  "fmlookup (groups (e_dataset (set_host_groups h names e))) n =
     (if n \<in> set names \<and> \<not> is_meta_group n
      then Some (push_host h (case fmlookup (groups (e_dataset e)) n of
                                None \<Rightarrow> group_default | Some g \<Rightarrow> g))
      else if is_meta_group n then fmlookup (groups (e_dataset e)) n
      else map_option (drop_host h) (fmlookup (groups (e_dataset e)) n))"
  by (auto simp: set_host_groups_def invalidate_serialized_def Let_def join_groups_lookup
      option.map_ident cong: option.case_cong split: option.splits)

lemma drop_push_idem:
  "push_host h (push_host h g) = push_host h g" "drop_host h (drop_host h g) = drop_host h g"
  by (simp_all add: push_host_def drop_host_def)

text \<open>
  A scoped sync's answer about one host's groups replaces that host's membership and
  nobody else's: an ordinary group holds the host afterwards exactly when it was named (and
  is created around it when missing), the meta-groups are untouched, every other host stays
  in exactly the groups it was in, no group's vars or children change, and giving the same
  answer twice is giving it once.
\<close>

theorem set_host_groups_replaces:
  "let gs = groups (e_dataset e); gs' = groups (e_dataset (set_host_groups h names e))
   in (\<forall>n. \<not> is_meta_group n \<longrightarrow>
         (n \<in> set names \<longleftrightarrow> (\<exists>g'. fmlookup gs' n = Some g' \<and> h \<in> set (g_hosts g'))))
      \<and> (\<forall>n. is_meta_group n \<longrightarrow> fmlookup gs' n = fmlookup gs n)
      \<and> (\<forall>n g. fmlookup gs n = Some g \<longrightarrow>
            (\<exists>g'. fmlookup gs' n = Some g' \<and> g_vars g' = g_vars g \<and> g_children g' = g_children g
               \<and> (\<forall>x. x \<noteq> h \<longrightarrow> (x \<in> set (g_hosts g') \<longleftrightarrow> x \<in> set (g_hosts g)))))
      \<and> groups (e_dataset (set_host_groups h names (set_host_groups h names e))) = gs'"
proof -
  have idem: "groups (e_dataset (set_host_groups h names (set_host_groups h names e)))
      = groups (e_dataset (set_host_groups h names e))"
    by (rule fmap_ext)
      (auto simp: set_host_groups_lookup drop_push_idem option.map_comp comp_def
        split: option.splits)
  have "\<exists>g'. fmlookup (groups (e_dataset (set_host_groups h names e))) n = Some g'
      \<and> g_vars g' = g_vars g \<and> g_children g' = g_children g
      \<and> (\<forall>x. x \<noteq> h \<longrightarrow> (x \<in> set (g_hosts g') \<longleftrightarrow> x \<in> set (g_hosts g)))"
    if "fmlookup (groups (e_dataset e)) n = Some g" for n g
    using that by (simp add: set_host_groups_lookup push_host_def drop_host_def)
  moreover have "n \<in> set names \<longleftrightarrow>
      (\<exists>g'. fmlookup (groups (e_dataset (set_host_groups h names e))) n = Some g' \<and> h \<in> set (g_hosts g'))"
    if "\<not> is_meta_group n" for n
    using that by (auto simp: set_host_groups_lookup drop_host_def)
  ultimately show ?thesis
    unfolding Let_def using idem by (simp add: set_host_groups_lookup)
qed

theorem set_host_groups_replaces_witness:
  "fmlookup (groups (e_dataset (set_host_groups ''b'' [''web''] (sample_entry 0)))) ''web''
     = Some \<lparr>g_hosts = [''b''], g_children = [], g_vars = None\<rparr>
   \<and> (\<exists>g'. fmlookup (groups (e_dataset (set_host_groups ''b'' [''web''] (sample_entry 0)))) ''web'' = Some g'
        \<and> ''b'' \<in> set (g_hosts g'))"
  using set_host_groups_replaces [of "sample_entry 0" "''b''" "[''web'']"]
  by (simp add: Let_def is_meta_group_def set_host_groups_lookup sample_entry_def ce_new_def
      group_default_def push_host_def)

section \<open>Enrichment\<close>

lemma merge_hostvar_fields_lookup:
  "fmlookup (hostvars (e_dataset (merge_hostvar_fields p e))) h =
     map_option (\<lambda>ex. case fmlookup (hostvars p) h of None \<Rightarrow> ex | Some vars \<Rightarrow> ex ++\<^sub>f vars)
       (fmlookup (hostvars (e_dataset e)) h)"
  by (simp add: merge_hostvar_fields_def invalidate_serialized_def Let_def)

lemma merge_hostvar_fields_frame [simp]:
  "groups (e_dataset (merge_hostvar_fields p e)) = groups (e_dataset e)"
  "remove_hosts (e_dataset (merge_hostvar_fields p e)) = remove_hosts (e_dataset e)"
  "fetched_at (merge_hostvar_fields p e) = fetched_at e"
  "e_ttl (merge_hostvar_fields p e) = e_ttl e"
  "complete (merge_hostvar_fields p e) = complete e"
  "host_timestamps (merge_hostvar_fields p e) = host_timestamps e"
  "serialized (merge_hostvar_fields p e) = None"
  by (simp_all add: merge_hostvar_fields_def invalidate_serialized_def Let_def)

text \<open>Two partial datasets that write different keys of every host.\<close>

definition disjoint_keys :: "dataset \<Rightarrow> dataset \<Rightarrow> bool" where
  "disjoint_keys p q \<longleftrightarrow>
     (\<forall>h v w. fmlookup (hostvars p) h = Some v \<longrightarrow> fmlookup (hostvars q) h = Some w \<longrightarrow>
        fmdom' v \<inter> fmdom' w = {})"

lemma fmadd_commute_disjoint: "fmdom' v \<inter> fmdom' w = {} \<Longrightarrow> m ++\<^sub>f v ++\<^sub>f w = m ++\<^sub>f w ++\<^sub>f v"
  by (rule fmap_ext) (auto simp: fmdom'_alt_def)

text \<open>
  Enrichers that own different keys cannot lose each other's work: applying their
  results in either order gives the same entry.
\<close>

theorem merge_hostvar_fields_commute:
  assumes "disjoint_keys p q"
  shows "merge_hostvar_fields p (merge_hostvar_fields q e)
       = merge_hostvar_fields q (merge_hostvar_fields p e)"
proof -
  have "hostvars (e_dataset (merge_hostvar_fields p (merge_hostvar_fields q e)))
      = hostvars (e_dataset (merge_hostvar_fields q (merge_hostvar_fields p e)))"
  proof (rule fmap_ext)
    fix h
    show "fmlookup (hostvars (e_dataset (merge_hostvar_fields p (merge_hostvar_fields q e)))) h
      = fmlookup (hostvars (e_dataset (merge_hostvar_fields q (merge_hostvar_fields p e)))) h"
    proof (cases "\<exists>v w. fmlookup (hostvars p) h = Some v \<and> fmlookup (hostvars q) h = Some w")
      case True
      then obtain v w where vw: "fmlookup (hostvars p) h = Some v" "fmlookup (hostvars q) h = Some w"
        by blast
      with assms have "fmdom' v \<inter> fmdom' w = {}" by (auto simp: disjoint_keys_def)
      then have "x ++\<^sub>f v ++\<^sub>f w = x ++\<^sub>f w ++\<^sub>f v" for x by (rule fmadd_commute_disjoint)
      with vw show ?thesis
        by (cases "fmlookup (hostvars (e_dataset e)) h") (simp_all add: merge_hostvar_fields_lookup)
    next
      case False
      then show ?thesis
        by (cases "fmlookup (hostvars (e_dataset e)) h"; cases "fmlookup (hostvars p) h";
            cases "fmlookup (hostvars q) h") (simp_all add: merge_hostvar_fields_lookup)
    qed
  qed
  then show ?thesis
    by (intro cache_entry.equality dataset.equality) simp_all
qed

theorem merge_hostvar_fields_commute_witness:
  "let p = empty_dataset\<lparr>hostvars := fmap_of_list [(''b'', fmap_of_list [(''x'', JNull)])]\<rparr>;
       q = empty_dataset\<lparr>hostvars := fmap_of_list [(''b'', fmap_of_list [(''y'', JNull)])]\<rparr>
   in merge_hostvar_fields p (merge_hostvar_fields q (sample_entry 0))
       = merge_hostvar_fields q (merge_hostvar_fields p (sample_entry 0))"
  unfolding Let_def
  by (rule merge_hostvar_fields_commute) (simp add: disjoint_keys_def)

text \<open>
  Enrichment gathers nothing, so it never makes a host look freshly gathered: merging an
  enricher's result keeps the clock of every host it does not remove, while merging gathered
  data stamps the hosts it carries with now; the host-by-host merge keeps every clock and
  introduces no host.
\<close>

theorem enrichment_keeps_clocks:
  "(\<forall>h ts. fmlookup (host_timestamps e) h = Some ts \<longrightarrow> h \<notin> set (remove_hosts p) \<longrightarrow>
       fmlookup (host_timestamps (merge_enrichment now p e)) h = Some ts)
   \<and> (\<forall>h v. fmlookup (hostvars p) h = Some v \<longrightarrow> h \<notin> set (remove_hosts p) \<longrightarrow>
       fmlookup (host_timestamps (merge_dataset now p e)) h = Some now)
   \<and> host_timestamps (merge_hostvar_fields p e) = host_timestamps e
   \<and> e_hosts (merge_hostvar_fields p e) = e_hosts e"
  by (simp add: merge_enrichment_def merge_dataset_def merge_into_clocks)
    (simp add: merge_hostvar_fields_def invalidate_serialized_def Let_def)

theorem enrichment_keeps_clocks_witness:
  "fmlookup (host_timestamps (merge_enrichment 7 (empty_dataset\<lparr>hostvars := fmap_of_list [(''b'', fmempty)]\<rparr>)
      (sample_entry 5))) ''b'' = Some 5"
  using enrichment_keeps_clocks [of "sample_entry 5"
      "empty_dataset\<lparr>hostvars := fmap_of_list [(''b'', fmempty)]\<rparr>" 7]
  by (simp add: sample_entry_def update_host_aged_clocks empty_dataset_def from_secs_def)

lemma member_of_iff:
  "member_of d h \<longleftrightarrow> (\<exists>n g. fmlookup (groups d) n = Some g \<and> h \<in> set (g_hosts g))"
  by (simp add: member_of_def fm_any_iff)

lemma member_of_remove_host:
  "member_of (e_dataset (remove_host h e)) x \<longleftrightarrow> x \<noteq> h \<and> member_of (e_dataset e) x"
  by (auto simp: member_of_iff remove_host_def purge_host_def invalidate_serialized_def Let_def
      drop_host_def) fastforce+

text \<open>
  Removing a host leaves no trace of it: no variables, no clock, no membership of any
  group, so it is never fresh and has no age; nothing else about the other hosts changes.
\<close>

theorem remove_host_complete:
  "let e' = remove_host h e
   in fmlookup (hostvars (e_dataset e')) h = None \<and> host_age_seconds now e' h = None
      \<and> \<not> is_host_fresh now e' h ttl \<and> \<not> member_of (e_dataset e') h
      \<and> (\<forall>x. x \<noteq> h \<longrightarrow>
            fmlookup (hostvars (e_dataset e')) x = fmlookup (hostvars (e_dataset e)) x
            \<and> fmlookup (host_timestamps e') x = fmlookup (host_timestamps e) x
            \<and> member_of (e_dataset e') x = member_of (e_dataset e) x)"
  by (simp add: Let_def member_of_remove_host)
    (simp add: remove_host_def purge_host_def invalidate_serialized_def Let_def
      host_age_seconds_def is_host_fresh_def split: option.splits)

theorem remove_host_complete_witness:
  "host_age_seconds 0 (remove_host ''b'' (sample_entry 0)) ''b'' = None"
  using remove_host_complete [of "''b''" "sample_entry 0" 0 None] by (simp add: Let_def)

end
