(* ===== verification/Memory_Cache.thy ===== *)
theory Memory_Cache
  imports Cache_Entry
begin

text \<open>
  The cache interface (\<open>src/src/ports/cache.rs\<close>) as a locale with the laws its clients rely
  on, and its only implementation, the in-memory store with a write counter
  (\<open>src/src/adapters/out/cache/memory.rs\<close>), which interprets it. Each call is one atomic
  step: the store runs a closure under its lock. A closure is a function from the entry it
  is lent to the entry it leaves.
\<close>

section \<open>Calls through the interface\<close>

datatype port_call =
    Call_set string cache_entry
  | Call_remove string
  | Call_update string "cache_entry \<Rightarrow> cache_entry"
  | Call_merge instant string dataset nat "cache_entry \<Rightarrow> dataset \<Rightarrow> cache_entry"

fun call_key :: "port_call \<Rightarrow> string" where
  "call_key (Call_set k e) = k"
| "call_key (Call_remove k) = k"
| "call_key (Call_update k f) = k"
| "call_key (Call_merge now k d ttl f) = k"

fun run_call ::
  "(string \<Rightarrow> cache_entry \<Rightarrow> 'c \<Rightarrow> 'c) \<Rightarrow> (string \<Rightarrow> 'c \<Rightarrow> 'c)
     \<Rightarrow> (string \<Rightarrow> (cache_entry \<Rightarrow> cache_entry) \<Rightarrow> 'c \<Rightarrow> 'c \<times> bool)
     \<Rightarrow> (instant \<Rightarrow> string \<Rightarrow> dataset \<Rightarrow> nat \<Rightarrow> (cache_entry \<Rightarrow> dataset \<Rightarrow> cache_entry) \<Rightarrow> 'c \<Rightarrow> 'c)
     \<Rightarrow> port_call \<Rightarrow> 'c \<Rightarrow> 'c" where
  "run_call st rm up mg (Call_set k e) c = st k e c"
| "run_call st rm up mg (Call_remove k) c = rm k c"
| "run_call st rm up mg (Call_update k f) c = fst (up k f c)"
| "run_call st rm up mg (Call_merge now k d ttl f) c = mg now k d ttl f c"

text \<open>What a call leaves of the entry under its key.\<close>

fun call_effect :: "port_call \<Rightarrow> cache_entry option \<Rightarrow> cache_entry option" where
  "call_effect (Call_set k e) old = Some e"
| "call_effect (Call_remove k) old = None"
| "call_effect (Call_update k f) old = map_option f old"
| "call_effect (Call_merge now k d ttl f) old =
     Some (case old of Some e \<Rightarrow> f (set_ttl ttl e) d | None \<Rightarrow> ce_new now d ttl)"

section \<open>The interface\<close>

locale cache_port =
  fixes get :: "'c \<Rightarrow> string \<Rightarrow> cache_entry option"
    and put :: "string \<Rightarrow> cache_entry \<Rightarrow> 'c \<Rightarrow> 'c"
    and rm :: "string \<Rightarrow> 'c \<Rightarrow> 'c"
    and upd :: "string \<Rightarrow> (cache_entry \<Rightarrow> cache_entry) \<Rightarrow> 'c \<Rightarrow> 'c \<times> bool"
    and mrg :: "instant \<Rightarrow> string \<Rightarrow> dataset \<Rightarrow> nat \<Rightarrow> (cache_entry \<Rightarrow> dataset \<Rightarrow> cache_entry) \<Rightarrow> 'c \<Rightarrow> 'c"
    and gen :: "'c \<Rightarrow> u64"
  assumes get_put: "get (put k e c) k' = (if k = k' then Some e else get c k')"
    and get_rm: "get (rm k c) k' = (if k = k' then None else get c k')"
    and get_upd: "get (fst (upd k f c)) k' = (if k = k' then map_option f (get c k) else get c k')"
    and upd_result: "snd (upd k f c) \<longleftrightarrow> get c k \<noteq> None"
    and get_mrg: "get (mrg now k d ttl g c) k' =
      (if k = k' then Some (case get c k of Some e \<Rightarrow> g (set_ttl ttl e) d | None \<Rightarrow> ce_new now d ttl)
       else get c k')"
    and gen_put: "gen (put k e c) = gen c + 1"
    and gen_rm: "gen (rm k c) = (if get c k = None then gen c else gen c + 1)"
    and gen_upd: "gen (fst (upd k f c)) = (if get c k = None then gen c else gen c + 1)"
    and gen_mrg: "gen (mrg now k d ttl g c) = gen c + 1"
begin

lemmas get_laws = get_put get_rm get_upd get_mrg

lemma get_run_call:
  "get (run_call put rm upd mrg call c) k =
     (if call_key call = k then call_effect call (get c k) else get c k)"
  by (cases call) (auto simp: get_laws)

lemma gen_run_call:
  "gen (run_call put rm upd mrg call c) = gen c + 1
     \<or> gen (run_call put rm upd mrg call c) = gen c
       \<and> (\<forall>k. get (run_call put rm upd mrg call c) k = get c k)"
  by (cases call) (auto simp: gen_put gen_rm gen_upd gen_mrg get_laws)

text \<open>A run of calls counts its writes; with none counted, nothing changed.\<close>

lemma gen_run_calls:
  "\<exists>n \<le> length calls. gen (fold (run_call put rm upd mrg) calls c) = gen c + of_nat n
     \<and> (n = 0 \<longrightarrow> (\<forall>k. get (fold (run_call put rm upd mrg) calls c) k = get c k))"
proof (induction calls arbitrary: c)
  case (Cons call calls)
  let ?c = "run_call put rm upd mrg call c"
  from Cons [of ?c] obtain n where n: "n \<le> length calls"
    "gen (fold (run_call put rm upd mrg) calls ?c) = gen ?c + of_nat n"
    "n = 0 \<longrightarrow> (\<forall>k. get (fold (run_call put rm upd mrg) calls ?c) k = get ?c k)"
    by blast
  from gen_run_call [of call c] show ?case
  proof
    assume "gen ?c = gen c + 1"
    with n show ?thesis by (intro exI [of _ "Suc n"]) simp
  next
    assume "gen ?c = gen c \<and> (\<forall>k. get ?c k = get c k)"
    with n show ?thesis by (intro exI [of _ n]) simp
  qed
qed (simp add: exI [of _ 0])

lemma generation_detects:
  assumes "length calls < 2 ^ 64"
    and "gen (fold (run_call put rm upd mrg) calls c) = gen c"
  shows "get (fold (run_call put rm upd mrg) calls c) k = get c k"
proof -
  obtain n where n: "n \<le> length calls"
    "gen (fold (run_call put rm upd mrg) calls c) = gen c + of_nat n"
    "n = 0 \<longrightarrow> (\<forall>k. get (fold (run_call put rm upd mrg) calls c) k = get c k)"
    using gen_run_calls by blast
  with assms(2) have "of_nat n = (0 :: u64)" by simp
  with n(1) assms(1) have "n = 0" by (intro of_nat_u64_0) simp_all
  with n(3) show ?thesis by blast
qed

text \<open>What every call keeps of the entries, a run of calls keeps.\<close>

lemma run_calls_inv:
  assumes "\<And>k e. get c k = Some e \<Longrightarrow> P e"
    and "\<And>call old e. call \<in> set calls \<Longrightarrow> (\<And>e. old = Some e \<Longrightarrow> P e)
           \<Longrightarrow> call_effect call old = Some e \<Longrightarrow> P e"
    and "get (fold (run_call put rm upd mrg) calls c) k = Some e"
  shows "P e"
  using assms
proof (induction calls arbitrary: c)
  case (Cons call calls)
  have "P e" if "get (run_call put rm upd mrg call c) k = Some e" for k e
  proof (cases "call_key call = k")
    case True
    with that have "call_effect call (get c k) = Some e" by (simp add: get_run_call)
    then show ?thesis using Cons.prems(2) [of call "get c k"] Cons.prems(1) by auto
  next
    case False
    with that Cons.prems(1) show ?thesis by (simp add: get_run_call)
  qed
  then show ?case
  proof (rule Cons.IH)
    show "P e" if "call \<in> set calls" "\<And>e. old = Some e \<Longrightarrow> P e" "call_effect call old = Some e"
      for call old e
      using Cons.prems(2) that by (metis list.set_intros(2))
    show "get (fold (run_call put rm upd mrg) calls (run_call put rm upd mrg call c)) k = Some e"
      using Cons.prems(3) by simp
  qed
qed simp

lemma other_keys:
  "(\<And>call. call \<in> set calls \<Longrightarrow> call_key call \<noteq> k)
     \<Longrightarrow> get (fold (run_call put rm upd mrg) calls c) k = get c k"
  by (induction calls arbitrary: c) (auto simp: get_run_call)

end

section \<open>The in-memory store\<close>

record mem_cache =
  store :: "(string, cache_entry) fmap"
  generation :: u64

definition mc_new :: mem_cache where
  "mc_new = \<lparr>store = fmempty, generation = 0\<rparr>"

definition bump_generation :: "mem_cache \<Rightarrow> mem_cache" where
  "bump_generation c = c\<lparr>generation := generation c + 1\<rparr>"

definition mc_set :: "string \<Rightarrow> cache_entry \<Rightarrow> mem_cache \<Rightarrow> mem_cache" where
  "mc_set key entry c = bump_generation (c\<lparr>store := fmupd key entry (store c)\<rparr>)"

definition mc_get :: "mem_cache \<Rightarrow> string \<Rightarrow> cache_entry option" where
  "mc_get c key = fmlookup (store c) key"

definition mc_remove :: "string \<Rightarrow> mem_cache \<Rightarrow> mem_cache" where
  "mc_remove key c =
     (if fmlookup (store c) key \<noteq> None
      then bump_generation (c\<lparr>store := fmdrop key (store c)\<rparr>) else c)"

definition mc_keys :: "mem_cache \<Rightarrow> string list" where
  "mc_keys c = fm_keys (store c)"

definition mc_export :: "mem_cache \<Rightarrow> (string \<times> cache_entry) list" where
  "mc_export c = map (\<lambda>k. (k, the (fmlookup (store c) k))) (fm_keys (store c))"

definition mc_update ::
  "string \<Rightarrow> (cache_entry \<Rightarrow> cache_entry) \<Rightarrow> mem_cache \<Rightarrow> mem_cache \<times> bool" where
  "mc_update key f c =
     (case fmlookup (store c) key of
        Some e \<Rightarrow> (bump_generation (c\<lparr>store := fmupd key (f e) (store c)\<rparr>), True)
      | None \<Rightarrow> (c, False))"

definition mc_merge_or_insert ::
  "instant \<Rightarrow> string \<Rightarrow> dataset \<Rightarrow> nat \<Rightarrow> (cache_entry \<Rightarrow> dataset \<Rightarrow> cache_entry)
     \<Rightarrow> mem_cache \<Rightarrow> mem_cache" where
  "mc_merge_or_insert now key d ttl_seconds f c =
     bump_generation
       (case fmlookup (store c) key of
          Some e \<Rightarrow> c\<lparr>store := fmupd key (f (set_ttl ttl_seconds e) d) (store c)\<rparr>
        | None \<Rightarrow> c\<lparr>store := fmupd key (ce_new now d ttl_seconds) (store c)\<rparr>)"

definition mc_call :: "port_call \<Rightarrow> mem_cache \<Rightarrow> mem_cache" where
  "mc_call = run_call mc_set mc_remove mc_update mc_merge_or_insert"

lemmas mc_defs = mc_set_def mc_get_def mc_remove_def mc_update_def mc_merge_or_insert_def
  bump_generation_def

interpretation mem: cache_port mc_get mc_set mc_remove mc_update mc_merge_or_insert generation
  by unfold_locales (auto simp: mc_defs split: option.splits)

lemmas mc_get_laws [cache_simps] =
  mem.get_put mem.get_rm mem.get_upd mem.get_mrg mem.upd_result

text \<open>
  The write counter answers "did anything change?": after fewer than \<open>2 ^ 64\<close> calls of
  any kind, on any keys, an unchanged counter means every read answers what it answered
  before (which is what lets a snapshot, a memo or an ETag be reused).
\<close>

theorem generation_unchanged:
  assumes "length calls < 2 ^ 64" and "generation (fold mc_call calls c) = generation c"
  shows "mc_get (fold mc_call calls c) key = mc_get c key"
  using mem.generation_detects [OF assms(1)] assms(2) unfolding mc_call_def by blast

theorem generation_unchanged_witness:
  "mc_get (fold mc_call [Call_remove ''x'', Call_update ''x'' (\<lambda>e. e)] (mc_set ''y'' (sample_entry 0) mc_new)) ''y''
     = Some (sample_entry 0)"
proof -
  let ?calls = "[Call_remove ''x'', Call_update ''x'' (\<lambda>e. e)]"
  let ?c = "mc_set ''y'' (sample_entry 0) mc_new"
  have "mc_get (fold mc_call ?calls ?c) ''y'' = mc_get ?c ''y''"
    by (rule generation_unchanged) (simp_all add: mc_call_def mc_defs mc_new_def)
  then show ?thesis by (simp add: mc_defs)
qed

text \<open>
  A call touches the entry under its own key and no other, and leaves there what the
  call says: a write replaces it, an update runs on what is there (and reports whether
  anything was), a merge runs on the entry under the configured TTL or creates it.
\<close>

theorem mc_call_local:
  "mc_get (mc_call call c) key =
     (if call_key call = key then call_effect call (mc_get c key) else mc_get c key)
   \<and> (snd (mc_update key f c) \<longleftrightarrow> mc_get c key \<noteq> None)"
  using mem.get_run_call mem.upd_result unfolding mc_call_def by blast

end
