(* ===== verification/Sync_Health.thy ===== *)
theory Sync_Health
  imports Prelude
begin

text \<open>
  The record of how runs went, per source, enricher, project or snapshot task:
  \<open>src/src/domain/sync_health.rs\<close>. Recording a success or a failure moves the health of one
  id; \<open>record_run\<close> keeps the last \<open>HISTORY\<close> runs of an id, newest first, with its error cut
  at a character boundary.
\<close>

section \<open>State\<close>

record sync_health =
  last_attempt_age_seconds :: "nat option"
  last_success_age_seconds :: "nat option"
  sh_last_error :: "string option"
  sh_consecutive_failures :: u32

datatype run_trigger = Scheduled | Manual | Refresh | Startup

fun trigger_name :: "run_trigger \<Rightarrow> string" where
  "trigger_name Scheduled = ''scheduled''"
| "trigger_name Manual = ''manual''"
| "trigger_name Refresh = ''refresh''"
| "trigger_name Startup = ''startup''"

record run_record =
  started_at :: nat
  duration_ms :: nat
  trigger :: run_trigger
  run_by :: "string option"
  run_scope :: "string option"
  run_error :: "string option"
  run_hosts :: "nat option"
  run_groups :: "nat option"
  revision_before :: "string option"
  revision :: "string option"

definition HISTORY :: nat where
  "HISTORY = 50"

definition HISTORY_ERROR :: nat where
  "HISTORY_ERROR = 2000"

record health_record =
  last_attempt :: instant
  last_success :: "instant option"
  last_error :: "string option"
  consecutive_failures :: u32

record health_registry =
  inner :: "(string, health_record) fmap"
  runs_of :: "(string, run_record list) fmap"

definition hr_new :: health_registry where
  "hr_new = \<lparr>inner = fmempty, runs_of = fmempty\<rparr>"

section \<open>Health\<close>

definition record_success :: "instant \<Rightarrow> string \<Rightarrow> health_registry \<Rightarrow> health_registry" where
  "record_success now key r =
     r\<lparr>inner := fmupd key \<lparr>last_attempt = now, last_success = Some now, last_error = None,
                           consecutive_failures = 0\<rparr> (inner r)\<rparr>"

definition record_failure ::
  "instant \<Rightarrow> string \<Rightarrow> string \<Rightarrow> health_registry \<Rightarrow> health_registry" where
  "record_failure now key err r =
     r\<lparr>inner := fm_or_default
         \<lparr>last_attempt = now, last_success = None, last_error = None, consecutive_failures = 0\<rparr>
         (\<lambda>e. e\<lparr>last_attempt := now, last_error := Some err,
                consecutive_failures := saturating_inc (consecutive_failures e)\<rparr>)
         key (inner r)\<rparr>"

definition health_get :: "instant \<Rightarrow> health_registry \<Rightarrow> string \<Rightarrow> sync_health option" where
  "health_get now r key =
     map_option
       (\<lambda>e. \<lparr>last_attempt_age_seconds = Some (as_secs (elapsed now (last_attempt e))),
             last_success_age_seconds =
               map_option (\<lambda>at. as_secs (elapsed now at)) (last_success e),
             sh_last_error = last_error e,
             sh_consecutive_failures = consecutive_failures e\<rparr>)
       (fmlookup (inner r) key)"

section \<open>The history of runs\<close>

text \<open>\<open>str::is_char_boundary\<close>: the ends, and every byte that does not continue a character.\<close>

definition is_char_boundary :: "string \<Rightarrow> nat \<Rightarrow> bool" where
  "is_char_boundary s i \<longleftrightarrow>
     i = 0 \<or> i = length s \<or> (i < length s \<and> \<not> continuation_byte (s ! i))"

fun boundary_at_most :: "string \<Rightarrow> nat \<Rightarrow> nat" where
  "boundary_at_most s 0 = 0"
| "boundary_at_most s (Suc n) =
     (if is_char_boundary s (Suc n) then Suc n else boundary_at_most s n)"

text \<open>The three bytes of the ellipsis the sources append.\<close>

definition ellipsis :: string where
  "ellipsis = [char_of (226 :: nat), char_of (128 :: nat), char_of (166 :: nat)]"

definition cut_error :: "string \<Rightarrow> string" where
  "cut_error err =
     (if length err > HISTORY_ERROR
      then take (boundary_at_most err HISTORY_ERROR) err @ ellipsis else err)"

definition record_run :: "string \<Rightarrow> run_record \<Rightarrow> health_registry \<Rightarrow> health_registry" where
  "record_run key run r =
     (let run = run\<lparr>run_error := map_option cut_error (run_error run)\<rparr>
      in r\<lparr>runs_of := fm_or_default [] (\<lambda>runs. take HISTORY (run # runs)) key (runs_of r)\<rparr>)"

definition history :: "health_registry \<Rightarrow> string \<Rightarrow> run_record list" where
  "history r key = (case fmlookup (runs_of r) key of Some runs \<Rightarrow> runs | None \<Rightarrow> [])"

section \<open>Events and what a sequence of them leaves\<close>

datatype health_event =
    Ok_at instant string
  | Failed_at instant string string
  | Ran string run_record

fun health_step :: "health_event \<Rightarrow> health_registry \<Rightarrow> health_registry" where
  "health_step (Ok_at now key) r = record_success now key r"
| "health_step (Failed_at now key err) r = record_failure now key err r"
| "health_step (Ran key run) r = record_run key run r"

definition health_after :: "health_event list \<Rightarrow> health_registry" where
  "health_after evs = fold health_step evs hr_new"

text \<open>The failures of an id since its last success, read off the events, oldest first.\<close>

fun streak :: "string \<Rightarrow> health_event list \<Rightarrow> nat" where
  "streak key [] = 0"
| "streak key (Ok_at t i # older) = (if i = key then 0 else streak key older)"
| "streak key (Failed_at t i err # older) = (if i = key then Suc (streak key older) else streak key older)"
| "streak key (Ran i run # older) = streak key older"

fun last_ok :: "string \<Rightarrow> health_event list \<Rightarrow> instant option" where
  "last_ok key [] = None"
| "last_ok key (Ok_at t i # older) = (if i = key then Some t else last_ok key older)"
| "last_ok key (ev # older) = last_ok key older"

fun runs_recorded :: "string \<Rightarrow> health_event list \<Rightarrow> run_record list" where
  "runs_recorded key [] = []"
| "runs_recorded key (Ran i run # older) =
     (if i = key then [run\<lparr>run_error := map_option cut_error (run_error run)\<rparr>] else [])
     @ runs_recorded key older"
| "runs_recorded key (ev # older) = runs_recorded key older"

lemmas health_defs = record_success_def record_failure_def record_run_def history_def
  health_get_def hr_new_def

lemma fold_rev_snoc: "fold f (rev (x # xs)) s = f x (fold f (rev xs) s)"
  by simp

text \<open>What the registry holds after the events (the list is newest first).\<close>

lemma record_after:
  "case fmlookup (inner (fold health_step (rev evs) hr_new)) key of
     None \<Rightarrow> streak key evs = 0 \<and> last_ok key evs = None
   | Some e \<Rightarrow> unat (consecutive_failures e) = min (streak key evs) (2 ^ 32 - 1)
       \<and> last_success e = last_ok key evs"
proof (induction evs)
  case (Cons ev evs)
  show ?case
  proof (cases ev)
    case (Failed_at t i err)
    with Cons show ?thesis
      by (cases "i = key")
        (auto simp: health_defs unat_saturating_inc split: option.splits)
  qed (use Cons in \<open>auto simp: health_defs Let_def split: option.splits\<close>)
qed (simp add: hr_new_def)

lemma take_cons_take: "take n (x # take n xs) = take n (x # xs)"
  by (cases n) (simp_all add: min_def)

lemma history_after:
  "history (fold health_step (rev evs) hr_new) key = take HISTORY (runs_recorded key evs)"
proof (induction evs)
  case (Cons ev evs)
  show ?case
  proof (cases ev)
    case (Ran i run)
    show ?thesis
    proof (cases "i = key")
      case True
      let ?r = "fold health_step (rev evs) hr_new"
      have "history (fold health_step (rev (ev # evs)) hr_new) key
          = take HISTORY (run\<lparr>run_error := map_option cut_error (run_error run)\<rparr> # history ?r key)"
        using True Ran by (auto simp: health_defs Let_def split: option.splits)
      with Cons True Ran show ?thesis by (simp add: take_cons_take)
    next
      case False
      with Cons Ran show ?thesis by (auto simp: health_defs Let_def split: option.splits)
    qed
  qed (use Cons in \<open>simp_all add: health_defs\<close>)
qed (simp add: health_defs)

lemma boundary_at_most_le: "boundary_at_most s n \<le> n"
  by (induction s n rule: boundary_at_most.induct) (auto simp: le_SucI)

lemma boundary_at_most_ok: "is_char_boundary s (boundary_at_most s n)"
  by (induction s n rule: boundary_at_most.induct) (auto simp: is_char_boundary_def)

lemma boundary_at_most_max:
  "is_char_boundary s i \<Longrightarrow> i \<le> n \<Longrightarrow> i \<le> boundary_at_most s n"
  by (induction s n rule: boundary_at_most.induct) (auto simp: le_Suc_eq)

text \<open>
  The health of an id after any sequence of recorded events: the failure streak is the
  number of failures since its last success (saturating at the counter's width), the last
  success survives every later failure, and the history is its last fifty runs, newest
  first.
\<close>

theorem health_summarises:
  "(case health_get now (health_after evs) key of
      None \<Rightarrow> streak key (rev evs) = 0
    | Some h \<Rightarrow> unat (sh_consecutive_failures h) = min (streak key (rev evs)) (2 ^ 32 - 1)
        \<and> last_success_age_seconds h
            = map_option (\<lambda>at. as_secs (elapsed now at)) (last_ok key (rev evs)))
   \<and> history (health_after evs) key = take HISTORY (runs_recorded key (rev evs))"
  using record_after [where evs = "rev evs" and key = key] history_after [where evs = "rev evs" and key = key]
  by (auto simp: health_after_def health_get_def split: option.splits)

text \<open>
  An error longer than the limit is cut at a character boundary, never inside a
  character and never further than it must, and what is kept is bounded.
\<close>

theorem cut_error_boundary:
  assumes "HISTORY_ERROR < length err"
  shows "\<exists>k \<le> HISTORY_ERROR. cut_error err = take k err @ ellipsis
           \<and> is_char_boundary err k
           \<and> (\<forall>i \<le> HISTORY_ERROR. is_char_boundary err i \<longrightarrow> i \<le> k)
           \<and> length (cut_error err) \<le> HISTORY_ERROR + 3"
proof (intro exI [of _ "boundary_at_most err HISTORY_ERROR"] conjI)
  show "length (cut_error err) \<le> HISTORY_ERROR + 3"
    using assms boundary_at_most_le [of err HISTORY_ERROR]
    by (simp add: cut_error_def ellipsis_def)
qed (use assms in \<open>auto simp: cut_error_def boundary_at_most_le boundary_at_most_ok
       intro: boundary_at_most_max\<close>)

theorem cut_error_boundary_witness:
  "\<exists>k \<le> HISTORY_ERROR. cut_error (replicate 1999 CHR ''a'' @ ellipsis) = take k (replicate 1999 CHR ''a'' @ ellipsis) @ ellipsis"
proof -
  have "HISTORY_ERROR < length (replicate 1999 CHR ''a'' @ ellipsis)"
    by (simp add: HISTORY_ERROR_def ellipsis_def)
  from cut_error_boundary [OF this] show ?thesis by blast
qed

end
