(* ===== verification/Persistence.thy ===== *)
theory Persistence
  imports Memory_Cache Sync_Health
begin

text \<open>
  The snapshot file: \<open>src/src/adapters/out/cache/persistence.rs\<close>. A snapshot stores ages,
  not instants; \<open>save\<close> writes a sibling file and renames it over the target; the periodic
  task writes only when the cache's write counter moved. The encoding of the file
  (\<open>serde_json\<close>) is a parameter: a pair \<open>enc\<close>, \<open>dec\<close> over an arbitrary type of file
  contents, of which the properties assume only \<open>dec (enc s) = Inr s\<close>.
\<close>

section \<open>The snapshot\<close>

record snapshot_entry =
  sn_dataset :: dataset
  sn_ttl_seconds :: nat
  sn_age_seconds :: nat
  sn_host_ages :: "(string, nat) fmap"
  sn_complete :: bool

record snapshot_file =
  sf_version :: nat
  sf_entries :: "(string, snapshot_entry) fmap"

definition SNAPSHOT_VERSION :: nat where
  "SNAPSHOT_VERSION = 1"

definition SNAPSHOT_HEALTH_KEY :: string where
  "SNAPSHOT_HEALTH_KEY = ''snapshot''"

definition snapshot_entry_of :: "instant \<Rightarrow> cache_entry \<Rightarrow> snapshot_entry" where
  "snapshot_entry_of now e =
     \<lparr>sn_dataset = e_dataset e,
      sn_ttl_seconds = as_secs (e_ttl e),
      sn_age_seconds = age_seconds now e,
      sn_host_ages =
        fmmap_keys (\<lambda>h _. the (host_age_seconds now e h))
          (fmfilter (\<lambda>h. host_age_seconds now e h \<noteq> None) (hostvars (e_dataset e))),
      sn_complete = is_complete e\<rparr>"

definition snapshot_of :: "instant \<Rightarrow> mem_cache \<Rightarrow> snapshot_file" where
  "snapshot_of now c =
     \<lparr>sf_version = SNAPSHOT_VERSION,
      sf_entries = fmap_of_list (map (\<lambda>(k, e). (k, snapshot_entry_of now e)) (mc_export c))\<rparr>"

definition restore_entry :: "instant \<Rightarrow> snapshot_entry \<Rightarrow> cache_entry" where
  "restore_entry now s =
     (let restored = ce_restore now (sn_dataset s) (sn_ttl_seconds s) (sn_age_seconds s)
                       (sn_host_ages s)
      in if \<not> sn_complete s then mark_partial restored else restored)"

section \<open>Files\<close>

type_synonym 'b files = "(string, 'b) fmap"

text \<open>
  \<open>Path::with_extension("tmp")\<close> on a path whose last component is a file name: the part of
  the name from its last dot on is replaced, unless that dot starts the name.
\<close>

definition file_name :: "string \<Rightarrow> string" where
  "file_name path = rev (takeWhile (\<lambda>c. c \<noteq> CHR ''/'') (rev path))"

definition dir_part :: "string \<Rightarrow> string" where
  "dir_part path = rev (dropWhile (\<lambda>c. c \<noteq> CHR ''/'') (rev path))"

definition file_stem :: "string \<Rightarrow> string" where
  "file_stem name =
     (let before = rev (drop 1 (dropWhile (\<lambda>c. c \<noteq> CHR ''.'') (rev name)))
      in if before = [] then name else before)"

definition tmp_path :: "string \<Rightarrow> string" where
  "tmp_path path = dir_part path @ file_stem (file_name path) @ ''.tmp''"

text \<open>What the file system answers to the three calls: \<open>Some\<close> an error or \<open>None\<close>. A
  failing write may leave any contents behind.\<close>

record 'b io_result =
  io_mkdir :: "string option"
  io_write :: "(string \<times> 'b) option"
  io_rename :: "string option"

definition all_ok :: "'b io_result" where
  "all_ok = \<lparr>io_mkdir = None, io_write = None, io_rename = None\<rparr>"

datatype save_error =
    Serialize string
  | Create_directory string
  | Write_failed string string
  | Rename_failed string string

definition save ::
  "(snapshot_file \<Rightarrow> string + 'b) \<Rightarrow> 'b io_result \<Rightarrow> instant \<Rightarrow> mem_cache \<Rightarrow> string \<Rightarrow> 'b files
     \<Rightarrow> 'b files \<times> (save_error + nat)" where
  "save enc io now c path fs =
     (let snapshot = snapshot_of now c in
      case enc snapshot of
        Inl e \<Rightarrow> (fs, Inl (Serialize e))
      | Inr bytes \<Rightarrow>
          (if io_mkdir io \<noteq> None \<and> dir_part path \<noteq> []
           then (fs, Inl (Create_directory (the (io_mkdir io))))
           else
             (let tmp = tmp_path path in
              case io_write io of
                Some (e, garbage) \<Rightarrow> (fmupd tmp garbage fs, Inl (Write_failed tmp e))
              | None \<Rightarrow>
                  (let fs = fmupd tmp bytes fs in
                   case io_rename io of
                     Some e \<Rightarrow> (fs, Inl (Rename_failed tmp e))
                   | None \<Rightarrow> (if tmp = path then fs else fmupd path bytes (fmdrop tmp fs),
                              Inr (length (mc_export c)))))))"

text \<open>
  The states a crash can leave, from the first byte written on: the write truncates the
  temporary file and fills it in pieces, the rename is one step.
\<close>

inductive crash_point :: "string \<Rightarrow> 'b \<Rightarrow> 'b files \<Rightarrow> 'b files \<Rightarrow> bool"
  for path bytes fs where
  before: "crash_point path bytes fs fs"
| writing: "crash_point path bytes fs (fmupd (tmp_path path) partial_contents fs)"
| written: "crash_point path bytes fs (fmupd (tmp_path path) bytes fs)"
| renamed: "tmp_path path \<noteq> path
    \<Longrightarrow> crash_point path bytes fs (fmupd path bytes (fmdrop (tmp_path path) fs))"

section \<open>Loading\<close>

datatype load_error = Parse string | Wrong_version nat

definition load ::
  "('b \<Rightarrow> string + snapshot_file) \<Rightarrow> instant \<Rightarrow> string \<Rightarrow> 'b files \<Rightarrow> mem_cache
     \<Rightarrow> mem_cache \<times> (load_error + nat)" where
  "load dec now path fs c =
     (case fmlookup fs path of
        None \<Rightarrow> (c, Inr 0)
      | Some bytes \<Rightarrow>
          (case dec bytes of
             Inl e \<Rightarrow> (c, Inl (Parse e))
           | Inr s \<Rightarrow>
               (if sf_version s \<noteq> SNAPSHOT_VERSION then (c, Inl (Wrong_version (sf_version s)))
                else (fm_fold (\<lambda>k se. mc_set k (restore_entry now se)) (sf_entries s) c,
                      Inr (fcard (fmdom (sf_entries s)))))))"

text \<open>\<open>load_or_warn\<close>: whatever happens, the cache to start with.\<close>

definition load_or_warn ::
  "('b \<Rightarrow> string + snapshot_file) \<Rightarrow> instant \<Rightarrow> string \<Rightarrow> 'b files \<Rightarrow> mem_cache \<Rightarrow> mem_cache" where
  "load_or_warn dec now path fs c = fst (load dec now path fs c)"

section \<open>The periodic task\<close>

record 'b snapshot_task =
  st_cache :: mem_cache
  saved_generation :: u64
  st_files :: "'b files"
  st_health :: health_registry

text \<open>
  One tick: the counter is read, calls of other tasks may land, then the cache is exported.
  \<open>during\<close> is what lands in between.
\<close>

definition snapshot_tick ::
  "(snapshot_file \<Rightarrow> string + 'b) \<Rightarrow> (save_error \<Rightarrow> string) \<Rightarrow> 'b io_result \<Rightarrow> instant \<Rightarrow> string
     \<Rightarrow> port_call list \<Rightarrow> 'b snapshot_task \<Rightarrow> 'b snapshot_task" where
  "snapshot_tick enc show_error io now path during s =
     (let gen = generation (st_cache s);
          c = fold mc_call during (st_cache s);
          s = s\<lparr>st_cache := c\<rparr>
      in if gen = saved_generation s then s
         else (case save enc io now c path (st_files s) of
                 (fs, Inr n) \<Rightarrow>
                   s\<lparr>st_files := fs, saved_generation := gen,
                     st_health := record_success now SNAPSHOT_HEALTH_KEY (st_health s)\<rparr>
               | (fs, Inl e) \<Rightarrow>
                   s\<lparr>st_files := fs,
                     st_health := record_failure now SNAPSHOT_HEALTH_KEY (show_error e) (st_health s)\<rparr>))"

section \<open>What a snapshot holds\<close>

lemma mc_export_map_of: "map_of (map (\<lambda>(k, e). (k, f e)) (mc_export c)) key = map_option f (mc_get c key)"
proof -
  have "map_of (map (\<lambda>k. (k, f (the (fmlookup (store c) k)))) ks) key
      = (if key \<in> set ks then Some (f (the (fmlookup (store c) key))) else None)" for ks
    by (induction ks) auto
  from this [of "fm_keys (store c)"] show ?thesis
    by (auto simp: mc_export_def mc_get_def comp_def fmlookup_fmdom')
qed

lemma snapshot_lookup:
  "fmlookup (sf_entries (snapshot_of now c)) key = map_option (snapshot_entry_of now) (mc_get c key)"
  by (simp add: snapshot_of_def fmlookup_of_list mc_export_map_of)

lemma fold_set_get:
  assumes "distinct ks"
  shows "mc_get (fold (\<lambda>k. mc_set k (f k)) ks c) key =
    (if key \<in> set ks then Some (f key) else mc_get c key)"
  using assms
proof (induction ks arbitrary: c)
  case (Cons k ks)
  then show ?case by (auto simp: mem.get_put)
qed simp

lemma load_get:
  assumes "fmlookup fs path = Some bytes" and "dec bytes = Inr (snapshot_of before c)"
  shows "mc_get (load_or_warn dec now path fs c') key =
    (case mc_get c key of
       Some e \<Rightarrow> Some (restore_entry now (snapshot_entry_of before e)) | None \<Rightarrow> mc_get c' key)"
proof -
  have v: "sf_version (snapshot_of before c) = SNAPSHOT_VERSION" by (simp add: snapshot_of_def)
  show ?thesis
    unfolding load_or_warn_def load_def fm_fold_def
    by (simp add: assms v fold_set_get fmlookup_fmdom' snapshot_lookup split: option.split)
qed

lemma save_ok:
  assumes "enc (snapshot_of now c) = Inr bytes"
  shows "fmlookup (fst (save enc all_ok now c path fs)) path = Some bytes"
    and "snd (save enc all_ok now c path fs) = Inr (length (mc_export c))"
  using assms by (auto simp: save_def all_ok_def Let_def)

lemma save_result_file:
  assumes "save enc io now c path fs = (fs', Inr n)"
  shows "\<exists>bytes. enc (snapshot_of now c) = Inr bytes \<and> fmlookup fs' path = Some bytes"
  using assms by (auto simp: save_def Let_def split: sum.splits if_splits option.splits)

text \<open>
  What the entry that comes back is, field by field: the ages are the ones saved, as far
  as the clock of the new process can represent them.
\<close>

lemma restore_entry_fields:
  defines "r now s \<equiv> restore_entry now s"
  shows "e_dataset (r now s) = sn_dataset s"
    and "complete (r now s) = sn_complete s"
    and "from_secs (sn_age_seconds s) \<le> now \<Longrightarrow> age_seconds now (r now s) = sn_age_seconds s"
    and "from_secs (sn_age_seconds s) \<le> now \<Longrightarrow> e_ttl (r now s) = from_secs (sn_ttl_seconds s)"
    and "now < from_secs (sn_age_seconds s) \<Longrightarrow> \<not> is_fresh now' (r now s)"
    and "host_age_seconds now (r now s) h =
           (case fmlookup (sn_host_ages s) h of
              Some a \<Rightarrow> if from_secs a \<le> now then Some a else None | None \<Rightarrow> None)"
  unfolding r_def
  by (auto simp: restore_entry_def ce_restore_def mark_partial_def checked_sub_def Let_def
      age_seconds_def elapsed_def is_fresh_def host_age_seconds_def split: option.split)

lemma snapshot_host_ages:
  "fmlookup (sn_host_ages (snapshot_entry_of now e)) h =
     (if fmlookup (hostvars (e_dataset e)) h = None then None else host_age_seconds now e h)"
  by (auto simp: snapshot_entry_of_def split: option.split)

lemma as_secs_less: "d < from_secs n \<longleftrightarrow> as_secs d < n"
  by (simp add: from_secs_def as_secs_def div_less_iff_less_mult mult.commute)



section \<open>A crash while saving\<close>



text \<open>
  A target whose name already ends in \<open>.tmp\<close> is its own temporary file: a crash while
  writing leaves whatever had been written under the target's name.
\<close>

theorem save_tmp_target_torn:
  assumes "dir = [] \<or> last dir = CHR ''/''" and "stem \<noteq> []" and "CHR ''/'' \<notin> set stem"
  shows "tmp_path (dir @ stem @ ''.tmp'') = dir @ stem @ ''.tmp''
    \<and> crash_point (dir @ stem @ ''.tmp'') bytes fs (fmupd (dir @ stem @ ''.tmp'') torn fs)"
proof -
  have tw: "takeWhile (\<lambda>c. c \<noteq> CHR ''/'') (rev stem @ rev dir) = rev stem"
    "dropWhile (\<lambda>c. c \<noteq> CHR ''/'') (rev stem @ rev dir) = rev dir"
    using split_at_first [of "CHR ''/''" "rev stem" "rev dir"] assms(1,3)
    by (auto simp: hd_rev)
  have "file_name (dir @ stem @ ''.tmp'') = stem @ ''.tmp''"
    "dir_part (dir @ stem @ ''.tmp'') = dir"
    by (simp_all add: file_name_def dir_part_def tw)
  moreover have "file_stem (stem @ ''.tmp'') = stem"
    using assms(2) by (simp add: file_stem_def)
  ultimately have t: "tmp_path (dir @ stem @ ''.tmp'') = dir @ stem @ ''.tmp''"
    by (simp add: tmp_path_def)
  with crash_point.writing [of "dir @ stem @ ''.tmp''" bytes fs torn] show ?thesis by simp
qed

theorem save_tmp_target_torn_witness:
  "crash_point ''data/cache.tmp'' (Inr ''new'') (fmap_of_list [(''data/cache.tmp'', Inr ''old'')])
     (fmupd ''data/cache.tmp'' (Inl ()) (fmap_of_list [(''data/cache.tmp'', Inr ''old'')]))"
proof -
  have "crash_point (''data/'' @ ''cache'' @ ''.tmp'') (Inr ''new'')
      (fmap_of_list [(''data/cache.tmp'', Inr ''old'')])
      (fmupd (''data/'' @ ''cache'' @ ''.tmp'') (Inl ()) (fmap_of_list [(''data/cache.tmp'', Inr ''old'')]))"
    by (rule conjunct2 [OF save_tmp_target_torn]) simp_all
  then show ?thesis by (simp only: append_Cons append_Nil)
qed

section \<open>The periodic task loses no change\<close>

inductive snapshot_run ::
  "(snapshot_file \<Rightarrow> string + 'b) \<Rightarrow> (save_error \<Rightarrow> string) \<Rightarrow> string \<Rightarrow> mem_cache \<Rightarrow> 'b files
     \<Rightarrow> nat \<Rightarrow> 'b snapshot_task \<Rightarrow> bool"
  for enc show_error path c0 fs0 where
  boot: "snapshot_run enc show_error path c0 fs0 0
     \<lparr>st_cache = c0, saved_generation = generation c0, st_files = fs0, st_health = hr_new\<rparr>"
| call: "snapshot_run enc show_error path c0 fs0 n s
     \<Longrightarrow> snapshot_run enc show_error path c0 fs0 (Suc n) (s\<lparr>st_cache := mc_call cl (st_cache s)\<rparr>)"
| tick: "snapshot_run enc show_error path c0 fs0 n s
     \<Longrightarrow> snapshot_run enc show_error path c0 fs0 (n + length during)
           (snapshot_tick enc show_error io now path during s)"

text \<open>The file on disk is that of a cache \<open>c\<close>, the counter the task remembers was read
  before \<open>c\<close> was exported, and the cache has moved on from \<open>c\<close> by at most \<open>n\<close> calls.\<close>

definition on_disk ::
  "(snapshot_file \<Rightarrow> string + 'b) \<Rightarrow> string \<Rightarrow> mem_cache \<Rightarrow> 'b files \<Rightarrow> 'b snapshot_task \<Rightarrow> mem_cache \<Rightarrow> bool" where
  "on_disk enc path c0 fs0 s c \<longleftrightarrow>
     c = c0 \<and> fmlookup (st_files s) path = fmlookup fs0 path
     \<or> (\<exists>now bytes. enc (snapshot_of now c) = Inr bytes \<and> fmlookup (st_files s) path = Some bytes)"

lemma save_error_keeps:
  "tmp_path path \<noteq> path \<Longrightarrow> save enc io now c path fs = (fs', Inl err)
     \<Longrightarrow> fmlookup fs' path = fmlookup fs path"
  by (auto simp: save_def Let_def split: sum.splits if_splits option.splits)

lemma mc_calls_counted:
  "\<exists>k \<le> length calls. generation (fold mc_call calls c) = generation c + of_nat k
     \<and> (k = 0 \<longrightarrow> (\<forall>key. mc_get (fold mc_call calls c) key = mc_get c key))"
  using mem.gen_run_calls unfolding mc_call_def .

lemma snapshot_run_inv:
  assumes "snapshot_run enc show_error path c0 fs0 n s" and "tmp_path path \<noteq> path"
  shows "\<exists>c1 calls1 calls2. saved_generation s = generation c1
     \<and> st_cache s = fold mc_call calls2 (fold mc_call calls1 c1)
     \<and> length calls1 + length calls2 \<le> n \<and> on_disk enc path c0 fs0 s (fold mc_call calls1 c1)"
  using assms(1)
proof induction
  case boot
  show ?case
    by (rule exI [of _ c0], rule exI [of _ "[]"], rule exI [of _ "[]"]) (simp add: on_disk_def)
next
  case (call n s cl)
  then obtain c1 calls1 calls2 where "saved_generation s = generation c1"
    "st_cache s = fold mc_call calls2 (fold mc_call calls1 c1)"
    "length calls1 + length calls2 \<le> n" "on_disk enc path c0 fs0 s (fold mc_call calls1 c1)"
    by blast
  then show ?case
    by (intro exI [of _ c1] exI [of _ calls1] exI [of _ "calls2 @ [cl]"]) (simp add: on_disk_def)
next
  case (tick n s during io now)
  then obtain c1 calls1 calls2 where c1: "saved_generation s = generation c1"
    "st_cache s = fold mc_call calls2 (fold mc_call calls1 c1)"
    "length calls1 + length calls2 \<le> n" "on_disk enc path c0 fs0 s (fold mc_call calls1 c1)"
    by blast
  let ?s' = "snapshot_tick enc show_error io now path during s"
  have cache: "st_cache ?s' = fold mc_call during (st_cache s)"
    by (simp add: snapshot_tick_def Let_def split: prod.split sum.split)
  show ?case
  proof (cases "\<exists>fs' n. generation (st_cache s) \<noteq> saved_generation s
      \<and> save enc io now (fold mc_call during (st_cache s)) path (st_files s) = (fs', Inr n)")
    case True
    then obtain fs' m where ne: "generation (st_cache s) \<noteq> saved_generation s"
      and sv: "save enc io now (fold mc_call during (st_cache s)) path (st_files s) = (fs', Inr m)"
      by blast
    then have "saved_generation ?s' = generation (st_cache s)" "st_files ?s' = fs'"
      by (simp_all add: snapshot_tick_def Let_def)
    moreover obtain bytes where "enc (snapshot_of now (fold mc_call during (st_cache s))) = Inr bytes"
      "fmlookup fs' path = Some bytes"
      using save_result_file [OF sv] by blast
    ultimately show ?thesis
      using cache
      by (intro exI [of _ "st_cache s"] exI [of _ during] exI [of _ "[]"])
        (auto simp: on_disk_def)
  next
    case False
    then have "saved_generation ?s' = saved_generation s"
      "fmlookup (st_files ?s') path = fmlookup (st_files s) path"
      using save_error_keeps [OF assms(2)]
      by (auto simp: snapshot_tick_def Let_def split: prod.split sum.split)
    with c1 cache show ?thesis
      by (intro exI [of _ c1] exI [of _ calls1] exI [of _ "calls2 @ during"]) (auto simp: on_disk_def)
  qed
qed

text \<open>
  When the task skips a tick because the counter has not moved, the file already holds
  what the cache holds: every entry of the cache is the entry of the cache that was written
  (or of the one the process started with), even when calls of other tasks landed between
  reading the counter and exporting, and after any mix of failed saves.
\<close>

theorem snapshot_skip_safe:
  assumes "snapshot_run enc show_error path c0 fs0 n s" and "tmp_path path \<noteq> path"
    and "n < 2 ^ 64" and "generation (st_cache s) = saved_generation s"
  shows "\<exists>c. on_disk enc path c0 fs0 s c \<and> (\<forall>key. mc_get (st_cache s) key = mc_get c key)"
proof -
  obtain c1 calls1 calls2 where c1: "saved_generation s = generation c1"
    "st_cache s = fold mc_call calls2 (fold mc_call calls1 c1)"
    "length calls1 + length calls2 \<le> n" "on_disk enc path c0 fs0 s (fold mc_call calls1 c1)"
    using snapshot_run_inv [OF assms(1,2)] by blast
  obtain k1 where k1: "k1 \<le> length calls1"
    "generation (fold mc_call calls1 c1) = generation c1 + of_nat k1"
    using mc_calls_counted by blast
  obtain k2 where k2: "k2 \<le> length calls2"
    "generation (st_cache s) = generation (fold mc_call calls1 c1) + of_nat k2"
    "k2 = 0 \<longrightarrow> (\<forall>key. mc_get (st_cache s) key = mc_get (fold mc_call calls1 c1) key)"
    using mc_calls_counted c1(2) by metis
  have "of_nat (k1 + k2) = (0 :: u64)"
    using k1(2) k2(2) c1(1) assms(4) by simp
  moreover have "k1 + k2 < 2 ^ 64" using k1(1) k2(1) c1(3) assms(3) by linarith
  ultimately have "k1 + k2 = 0" by (rule of_nat_u64_0 [rotated])
  with k2(3) c1(4) show ?thesis by blast
qed

theorem snapshot_skip_safe_witness:
  "\<exists>c. on_disk Inr ''cache.json'' mc_new fmempty
       (snapshot_tick Inr (\<lambda>_. []) all_ok 5 ''cache.json'' []
         \<lparr>st_cache = mc_call (Call_set ''s'' (sample_entry 5)) mc_new, saved_generation = 0,
          st_files = fmempty, st_health = hr_new\<rparr>) c
     \<and> (\<forall>key. mc_get (mc_call (Call_set ''s'' (sample_entry 5)) mc_new) key = mc_get c key)"
proof -
  let ?b = "\<lparr>st_cache = mc_new, saved_generation = generation mc_new, st_files = fmempty,
    st_health = hr_new\<rparr> :: snapshot_file snapshot_task"
  let ?c = "mc_call (Call_set ''s'' (sample_entry 5)) mc_new"
  let ?s = "\<lparr>st_cache = ?c, saved_generation = 0, st_files = fmempty, st_health = hr_new\<rparr>
    :: snapshot_file snapshot_task"
  let ?t = "snapshot_tick Inr (\<lambda>_. []) all_ok 5 ''cache.json'' [] ?s"
  have g: "generation ?c = 1" "generation mc_new = 0"
    by (simp_all add: mc_call_def mc_set_def bump_generation_def mc_new_def)
  have "snapshot_run Inr (\<lambda>_. []) ''cache.json'' mc_new fmempty (Suc 0) ?s"
    using snapshot_run.call [OF snapshot_run.boot, of Inr "\<lambda>_. []" "''cache.json''" mc_new fmempty "Call_set ''s'' (sample_entry 5)"]
    by (simp add: g)
  from snapshot_run.tick [OF this, of "[]" all_ok 5]
  have r: "snapshot_run Inr (\<lambda>_. []) ''cache.json'' mc_new fmempty (Suc 0) ?t" by simp
  have t: "st_cache ?t = ?c" "saved_generation ?t = 1"
    by (simp_all add: snapshot_tick_def g save_def all_ok_def Let_def)
  have "tmp_path ''cache.json'' \<noteq> ''cache.json''" by code_simp
  from snapshot_skip_safe [OF r this] show ?thesis by (simp add: t g)
qed

end
