(* ===== verification/Connectors.thy ===== *)
theory Connectors
  imports Prelude
begin

text \<open>
  Connector items, their validation and the quoting of a value as one shell word:
  \<open>src/src/domain/connector.rs\<close>. The lemmas say that a quoted value is read back by a POSIX
  shell as that value and nothing else, that an accepted host path holds no character such
  a shell gives a meaning to, and which connectors validation accepts.
\<close>

section \<open>Items\<close>

datatype connector_kind = Kind_script | Kind_ssh

fun kind_name :: "connector_kind \<Rightarrow> string" where
  "kind_name Kind_script = ''script''"
| "kind_name Kind_ssh = ''ssh''"

datatype location = At_host | At_instance

fun location_name :: "location \<Rightarrow> string" where
  "location_name At_host = ''host''"
| "location_name At_instance = ''instance''"

record connector =
  c_name :: string
  c_kind :: connector_kind
  c_project :: "string option"
  c_location :: "location option"
  c_path :: string
  c_script :: "string option"
  c_script_args :: "string list"
  c_host_args :: "string list"
  c_output_format :: "string option"
  c_timeout_seconds :: nat

definition REMOTE :: string where
  "REMOTE = ''remote''"

definition STATIC_INVENTORY :: string where
  "STATIC_INVENTORY = ''static_inventory''"

definition BUILT_IN :: "string list" where
  "BUILT_IN = [REMOTE, STATIC_INVENTORY]"

definition SSH_LOCATION_CONFIG_KEY :: string where
  "SSH_LOCATION_CONFIG_KEY = ''ssh_location''"

definition conn_ssh_location :: "connector \<Rightarrow> location option" where
  "conn_ssh_location c =
     (case c_kind c of
        Kind_script \<Rightarrow> None
      | Kind_ssh \<Rightarrow>
          (if c_script c \<noteq> None then None
           else case c_location c of
             Some l \<Rightarrow> Some l
           | None \<Rightarrow> map_option (\<lambda>_. At_instance) (c_project c)))"

section \<open>Shell words and paths\<close>

abbreviation quote_char :: char where
  "quote_char \<equiv> CHR 0x27"

abbreviation backslash :: char where
  "backslash \<equiv> CHR 0x5C"

definition shell_quote :: "string \<Rightarrow> string" where
  "shell_quote value =
     [quote_char] @
     str_replace value [quote_char] [quote_char, backslash, quote_char, quote_char] @ [quote_char]"

definition is_pattern :: "string \<Rightarrow> bool" where
  "is_pattern path \<longleftrightarrow> list_ex (\<lambda>c. c \<in> set ''*?['') path"

definition is_ascii_alphanumeric :: "char \<Rightarrow> bool" where
  "is_ascii_alphanumeric c \<longleftrightarrow>
     (let n = (of_char c :: nat) in
      48 \<le> n \<and> n \<le> 57 \<or> 65 \<le> n \<and> n \<le> 90 \<or> 97 \<le> n \<and> n \<le> 122)"

definition plain_path_char :: "char \<Rightarrow> bool" where
  "plain_path_char c \<longleftrightarrow> is_ascii_alphanumeric c \<or> c \<in> set ''/._-+@:,*?[]''"

definition is_plain_remote_path :: "string \<Rightarrow> bool" where
  "is_plain_remote_path path \<longleftrightarrow>
     (let rest = (if starts_with path ''~/'' then drop 2 path else path)
      in (starts_with path ''/'' \<or> starts_with path ''~/'') \<and> list_all plain_path_char rest)"

definition is_absolute :: "string \<Rightarrow> bool" where
  "is_absolute path \<longleftrightarrow> starts_with path ''/''"

section \<open>Validation\<close>

datatype connector_error =
    Built_in_name
  | Ssh_output_format
  | Native_output_format
  | Unknown_output_format string
  | Ssh_host_args
  | Script_not_ssh
  | Path_and_script
  | Script_and_location
  | Empty_script
  | Ssh_needs_path
  | Empty_path
  | Relative_without_project
  | Script_location
  | Host_location_project
  | Host_path_not_plain string
  | Path_with_spaces
  | Instance_pattern
  | Old_form

definition format_errors :: "connector \<Rightarrow> connector_error list" where
  "format_errors c =
     (case c_output_format c of
        None \<Rightarrow> []
      | Some f \<Rightarrow>
          (if c_kind c = Kind_ssh then [Ssh_output_format]
           else if f = ''ansible'' then []
           else if f = ''native'' then [Native_output_format]
           else [Unknown_output_format f]))"

definition script_errors :: "connector \<Rightarrow> string \<Rightarrow> connector_error list" where
  "script_errors c script =
     (if c_kind c \<noteq> Kind_ssh then [Script_not_ssh] else [])
     @ (if c_path c \<noteq> [] then [Path_and_script] else [])
     @ (if c_project c \<noteq> None \<or> c_location c \<noteq> None then [Script_and_location] else [])
     @ (if trim script = [] then [Empty_script] else [])"

definition path_errors :: "connector \<Rightarrow> connector_error list" where
  "path_errors c =
     (case c_kind c of
        Kind_script \<Rightarrow>
          (if c_project c = None \<and> \<not> is_absolute (c_path c) then [Relative_without_project] else [])
          @ (if c_location c \<noteq> None then [Script_location] else [])
      | Kind_ssh \<Rightarrow>
          (case conn_ssh_location c of
             Some At_host \<Rightarrow>
               (if c_project c \<noteq> None then [Host_location_project] else [])
               @ (if \<not> is_plain_remote_path (c_path c) then [Host_path_not_plain (c_path c)] else [])
           | Some At_instance \<Rightarrow>
               (if list_ex is_ws (c_path c) then [Path_with_spaces]
                else if c_project c = None \<and> \<not> is_absolute (c_path c) then [Relative_without_project]
                else if is_pattern (c_path c) then [Instance_pattern]
                else [])
           | None \<Rightarrow> [Old_form]))"

definition connector_errors :: "string \<Rightarrow> connector \<Rightarrow> connector_error list" where
  "connector_errors name c =
     (if name \<in> set BUILT_IN then [Built_in_name] else [])
     @ format_errors c
     @ (if c_kind c = Kind_ssh \<and> c_host_args c \<noteq> [] then [Ssh_host_args] else [])
     @ (case c_script c of
          Some script \<Rightarrow> script_errors c script
        | None \<Rightarrow>
            (if trim (c_path c) = []
             then [if c_kind c = Kind_ssh then Ssh_needs_path else Empty_path]
             else path_errors c))"

section \<open>Reading a word as a POSIX shell does\<close>

text \<open>
  The quoting rules of a POSIX shell, as far as a word built by \<open>shell_quote\<close> uses them: in
  single quotes every character stands for itself up to the next single quote; outside, a
  backslash makes the next character literal; a character that separates or expands ends
  the reading with \<open>None\<close>. The argument says whether the reader is inside quotes.
\<close>

definition shell_active :: "char \<Rightarrow> bool" where
  "shell_active c \<longleftrightarrow>
     is_ws c \<or> c \<in> set ''|&;<>()$`!{}#~=*?[]%^'' \<or> c = CHR 0x22 \<or> c = CHR 0x00"

fun sh_word :: "bool \<Rightarrow> string \<Rightarrow> string option" where
  "sh_word True [] = None"
| "sh_word True (c # cs) =
     (if c = quote_char then sh_word False cs else map_option ((#) c) (sh_word True cs))"
| "sh_word False [] = Some []"
| "sh_word False [c] =
     (if c = quote_char \<or> c = backslash \<or> shell_active c then None else Some [c])"
| "sh_word False (c # d # cs) =
     (if c = quote_char then sh_word True (d # cs)
      else if c = backslash then map_option ((#) d) (sh_word False cs)
      else if shell_active c then None
      else map_option ((#) c) (sh_word False (d # cs)))"

definition escaped :: "string \<Rightarrow> string" where
  "escaped v = concat (map (\<lambda>c. if c = quote_char
     then [quote_char, backslash, quote_char, quote_char] else [c]) v)"

lemma str_replace_quote: "length v \<le> n
    \<Longrightarrow> str_replace_fuel n v [quote_char] [quote_char, backslash, quote_char, quote_char] = escaped v"
proof (induction v arbitrary: n)
  case Nil
  then show ?case by (cases n) (simp_all add: escaped_def)
next
  case (Cons c v)
  then show ?case by (cases n) (auto simp: escaped_def)
qed

lemma shell_quote_escaped: "shell_quote v = quote_char # escaped v @ [quote_char]"
  by (simp add: shell_quote_def str_replace_def str_replace_quote)

lemma sh_word_open: "r \<noteq> [] \<Longrightarrow> sh_word False (quote_char # r) = sh_word True r"
  by (cases r) simp_all

lemma sh_word_escaped: "sh_word True (escaped v @ quote_char # rest) = map_option ((@) v) (sh_word False rest)"
proof (induction v)
  case Nil
  then show ?case by (cases "sh_word False rest") (simp_all add: escaped_def)
next
  case (Cons c v)
  then show ?case
    by (cases "sh_word False rest") (auto simp: escaped_def sh_word_open)
qed

text \<open>
  Whatever a value holds (quotes, spaces, newlines, a semicolon, a dollar sign), the
  shell reads its quoted form as one word that is exactly the value.
\<close>

theorem shell_quote_reads_back: "sh_word False (shell_quote value) = Some value"
  by (simp add: shell_quote_escaped sh_word_open sh_word_escaped)

section \<open>What validation accepts\<close>

text \<open>Of the characters a shell acts on, an accepted host path has those of a pattern only.\<close>

lemma alphanumeric_inactive: "is_ascii_alphanumeric c \<Longrightarrow> \<not> shell_active c"
proof
  assume c: "is_ascii_alphanumeric c" and "shell_active c"
  have "list_all (\<lambda>c. \<not> is_ascii_alphanumeric c)
      (''|&;<>()$`!{}#~=*?[]%^ '' @ [CHR 0x22, CHR 0x00])"
    by code_simp
  then have "\<not> is_ascii_alphanumeric c" if "c \<in> set (''|&;<>()$`!{}#~=*?[]%^ '' @ [CHR 0x22, CHR 0x00])"
    using that unfolding list_all_iff by blast
  moreover have "\<not> is_ws c \<or> c = CHR '' ''"
    using c by (auto simp: is_ws_def is_ascii_alphanumeric_def Let_def)
  ultimately show False
    using c \<open>shell_active c\<close> unfolding shell_active_def by fastforce
qed

lemma plain_path_char_active:
  assumes "plain_path_char c" and "shell_active c"
  shows "c \<in> set ''*?[]''"
proof -
  have "list_all (\<lambda>c. shell_active c \<longrightarrow> c \<in> set ''*?[]'') ''/._-+@:,*?[]''"
    by code_simp
  with assms show ?thesis
    using alphanumeric_inactive unfolding plain_path_char_def list_all_iff by blast
qed

lemma format_errors_nil_ssh: "c_kind c = Kind_ssh \<Longrightarrow> format_errors c = [] \<longleftrightarrow> c_output_format c = None"
  by (simp add: format_errors_def split: option.split)

lemma script_errors_nil:
  "script_errors c script = [] \<longleftrightarrow> c_kind c = Kind_ssh \<and> c_path c = [] \<and> c_project c = None
     \<and> c_location c = None \<and> trim script \<noteq> []"
  by (simp add: script_errors_def)

lemma path_errors_nil_script:
  "c_kind c = Kind_script \<Longrightarrow> path_errors c = []
     \<longleftrightarrow> (c_project c \<noteq> None \<or> is_absolute (c_path c)) \<and> c_location c = None"
  by (simp add: path_errors_def)

lemma path_errors_nil_ssh:
  "c_kind c = Kind_ssh \<Longrightarrow> path_errors c = []
     \<longleftrightarrow> (case conn_ssh_location c of
            None \<Rightarrow> False
          | Some At_host \<Rightarrow> c_project c = None \<and> is_plain_remote_path (c_path c)
          | Some At_instance \<Rightarrow> \<not> list_ex is_ws (c_path c) \<and> \<not> is_pattern (c_path c)
              \<and> (c_project c \<noteq> None \<or> is_absolute (c_path c)))"
  by (cases "conn_ssh_location c"; cases "the (conn_ssh_location c)") (simp_all add: path_errors_def)

lemma connector_errors_nil:
  "connector_errors name c = [] \<longleftrightarrow> name \<notin> set BUILT_IN \<and> format_errors c = []
     \<and> \<not> (c_kind c = Kind_ssh \<and> c_host_args c \<noteq> [])
     \<and> (case c_script c of
          Some script \<Rightarrow> script_errors c script = []
        | None \<Rightarrow> trim (c_path c) \<noteq> [] \<and> path_errors c = [])"
  by (cases "c_script c") (simp_all add: connector_errors_def)

lemma plain_remote_path_chars:
  assumes "is_plain_remote_path p" and "c \<in> set p"
  shows "plain_path_char c \<or> c = CHR ''~''"
proof (cases "starts_with p ''~/''")
  case True
  then obtain r where r: "p = CHR ''~'' # CHR ''/'' # r" by (auto simp: starts_with_iff)
  have "plain_path_char CHR ''/''" by code_simp
  with assms r show ?thesis by (auto simp: is_plain_remote_path_def list_all_iff)
next
  case False
  with assms show ?thesis by (auto simp: is_plain_remote_path_def list_all_iff)
qed

text \<open>
  A connector validation accepts runs exactly one thing: a script connector its file
  (absolute or in a project, and with no location); an ssh connector either the script
  written in the item, or a file of this instance with no pattern in it, or a path on the
  hosts whose only characters with a meaning to a shell are the home prefix and those of a
  pattern. Its name is not a built-in's.
\<close>

theorem accepted_connector:
  assumes "connector_errors name c = []"
  shows "name \<notin> set BUILT_IN
    \<and> (c_script c = None \<longrightarrow> trim (c_path c) \<noteq> [])
    \<and> (case c_kind c of
         Kind_script \<Rightarrow> c_script c = None \<and> c_location c = None
           \<and> (c_project c \<noteq> None \<or> is_absolute (c_path c))
       | Kind_ssh \<Rightarrow> c_host_args c = [] \<and> c_output_format c = None
           \<and> (case conn_ssh_location c of
                None \<Rightarrow> c_script c \<noteq> None \<and> c_path c = [] \<and> c_project c = None
              | Some At_host \<Rightarrow> c_project c = None
                  \<and> (\<forall>ch \<in> set (c_path c). shell_active ch \<longrightarrow> ch \<in> set ''~*?[]'')
              | Some At_instance \<Rightarrow> \<not> is_pattern (c_path c)
                  \<and> (c_project c \<noteq> None \<or> is_absolute (c_path c))))"
proof -
  have plain: "\<forall>ch \<in> set (c_path c). shell_active ch \<longrightarrow> ch \<in> set ''~*?[]''"
    if "is_plain_remote_path (c_path c)"
    using plain_remote_path_chars [OF that] plain_path_char_active by fastforce
  note errs = assms [unfolded connector_errors_nil]
  show ?thesis
  proof (cases "c_kind c")
    case Kind_script
    then have "c_script c = None"
      using errs by (cases "c_script c") (simp_all add: script_errors_nil)
    with errs Kind_script show ?thesis by (simp add: path_errors_nil_script)
  next
    case Kind_ssh
    show ?thesis
    proof (cases "c_script c")
      case (Some s)
      then have "conn_ssh_location c = None" using Kind_ssh by (simp add: conn_ssh_location_def)
      with Some errs Kind_ssh show ?thesis
        by (simp add: format_errors_nil_ssh script_errors_nil)
    next
      case None
      with errs Kind_ssh have "path_errors c = []" by simp
      with None errs Kind_ssh plain show ?thesis
        by (cases "conn_ssh_location c"; cases "the (conn_ssh_location c)")
          (simp_all add: path_errors_nil_ssh format_errors_nil_ssh)
    qed
  qed
qed

theorem accepted_connector_witness:
  "let c = \<lparr>c_name = ''facts'', c_kind = Kind_ssh, c_project = None, c_location = Some At_host,
            c_path = ''/etc/ansible/facts.d/*.fact'', c_script = None, c_script_args = [],
            c_host_args = [], c_output_format = None, c_timeout_seconds = 300\<rparr>
   in ''ssh-facts'' \<notin> set BUILT_IN \<and> trim (c_path c) \<noteq> []"
proof -
  let ?c = "\<lparr>c_name = ''facts'', c_kind = Kind_ssh, c_project = None, c_location = Some At_host,
            c_path = ''/etc/ansible/facts.d/*.fact'', c_script = None, c_script_args = [],
            c_host_args = [], c_output_format = None, c_timeout_seconds = 300\<rparr>"
  have "connector_errors ''ssh-facts'' ?c = []" by code_simp
  from accepted_connector [OF this] show ?thesis by (simp add: Let_def)
qed

end
