(* ===== verification/Sources.thy ===== *)
theory Sources
  imports Datasets Connectors
begin

text \<open>
  Sources: a source item and its connector resolved into the source that runs, which host
  gets which TTL, the scope a source advertises, and the hosts an SSH source takes from
  another source's dataset (\<open>src/src/domain/source.rs\<close>). The lemmas say when an item
  resolves and to what, that the strictest TTL wins whatever the order of the maps, and
  exactly which hosts are selected, with which addresses.
\<close>

section \<open>Data\<close>

datatype sync_mode = Mode_replace | Mode_merge

datatype connector_type = CT_script | CT_ssh | CT_static_inventory | CT_remote

record ttl_overrides =
  to_groups :: "(string, nat) fmap"
  to_hosts :: "(string, nat) fmap"

record match_pattern =
  mp_groups :: "string list"
  mp_hosts :: "string list"

datatype connect_via =
    Via_hostname
  | Via_ansible_host
  | Via_ansible_host_then_hostname
  | Via_hostname_then_ansible_host

record hosts_from_source =
  hfs_source :: string
  hfs_pattern :: match_pattern
  hfs_via :: connect_via

record advertised_scope =
  as_groups :: "string list"
  as_hosts :: "string list"

record scope_claim =
  sc_groups :: "string list"
  sc_hosts :: "string list"
  sc_catch_all :: bool

record source =
  s_name :: string
  s_connector :: string
  s_connector_type :: connector_type
  s_ssh_location :: "location option"
  s_project_id :: "string option"
  s_script_path :: string
  s_script_args :: "string list"
  s_host_args :: "string list"
  s_timeout_seconds :: nat
  s_host_sync_updates_group_vars :: bool
  s_sync_mode :: sync_mode
  s_credential_ids :: "string list"
  s_schedule :: "string option"
  s_sync_interval_seconds :: "nat option"
  s_ttl_seconds :: nat
  s_ttl_overrides :: ttl_overrides
  s_hosts_from_source :: "hosts_from_source option"
  s_allow_on_demand_refresh :: bool
  s_advertise_scope :: "advertised_scope option"
  s_config :: "(string, string) fmap"

record source_def =
  sd_name :: string
  sd_connector :: string
  sd_credentials :: "string list"
  sd_project :: "string option"
  sd_path :: "string option"
  sd_timeout_seconds :: "nat option"
  sd_host_sync_updates_group_vars :: bool
  sd_sync_mode :: sync_mode
  sd_schedule :: "string option"
  sd_sync_interval_seconds :: "nat option"
  sd_ttl_seconds :: nat
  sd_ttl_overrides :: ttl_overrides
  sd_hosts_from_source :: "hosts_from_source option"
  sd_allow_on_demand_refresh :: bool
  sd_advertise_scope :: "advertised_scope option"
  sd_config :: "(string, string) fmap"

definition default_timeout_seconds :: nat where
  "default_timeout_seconds = 300"

section \<open>Resolving an item\<close>

datatype source_error =
    Remote_missing_key string
  | Location_refused string string
  | Static_no_project
  | Static_no_path
  | Unknown_connector string
  | Config_ssh_location
  | Config_old_key string

definition has_key :: "(string, string) fmap \<Rightarrow> string \<Rightarrow> bool" where
  "has_key m k \<longleftrightarrow> fmlookup m k \<noteq> None"

definition refuse_location :: "source_def \<Rightarrow> string \<Rightarrow> source_error list" where
  "refuse_location d conn =
     (if sd_project d \<noteq> None then [Location_refused ''project'' conn] else [])
     @ (if sd_path d \<noteq> None then [Location_refused ''path'' conn] else [])"

text \<open>What the connector says of the run: its type, project, path, arguments and timeout.\<close>

record run_spec =
  rs_type :: connector_type
  rs_project :: "string option"
  rs_path :: string
  rs_args :: "string list"
  rs_host_args :: "string list"
  rs_timeout :: nat

definition resolve_run ::
  "(string, connector) fmap \<Rightarrow> source_def \<Rightarrow> run_spec option \<times> source_error list" where
  "resolve_run connectors d =
     (if sd_connector d = REMOTE then
        (Some \<lparr>rs_type = CT_remote, rs_project = None,
               rs_path = (case fmlookup (sd_config d) ''source'' of Some i \<Rightarrow> i | None \<Rightarrow> []),
               rs_args = [], rs_host_args = [], rs_timeout = default_timeout_seconds\<rparr>,
         map Remote_missing_key (filter (\<lambda>k. \<not> has_key (sd_config d) k) [''url'', ''source''])
         @ refuse_location d REMOTE)
      else if sd_connector d = STATIC_INVENTORY then
        (let (path, path_errs) =
               (case sd_path d of
                  Some p \<Rightarrow> if trim p \<noteq> [] then (p, []) else ([], [Static_no_path])
                | None \<Rightarrow> ([], [Static_no_path]))
         in (Some \<lparr>rs_type = CT_static_inventory, rs_project = sd_project d, rs_path = path,
                   rs_args = [], rs_host_args = [], rs_timeout = default_timeout_seconds\<rparr>,
             (if sd_project d = None then [Static_no_project] else []) @ path_errs))
      else
        (case fmlookup connectors (sd_connector d) of
           None \<Rightarrow> (None, [Unknown_connector (sd_connector d)])
         | Some c \<Rightarrow>
             (Some \<lparr>rs_type = (case c_kind c of Kind_script \<Rightarrow> CT_script | Kind_ssh \<Rightarrow> CT_ssh),
                    rs_project = c_project c,
                    rs_path = (case c_script c of Some s \<Rightarrow> s | None \<Rightarrow> c_path c),
                    rs_args = c_script_args c, rs_host_args = c_host_args c,
                    rs_timeout = c_timeout_seconds c\<rparr>,
              refuse_location d (sd_connector d))))"

definition ssh_connector :: "(string, connector) fmap \<Rightarrow> source_def \<Rightarrow> connector option" where
  "ssh_connector connectors d =
     (case fmlookup connectors (sd_connector d) of
        Some c \<Rightarrow> if c_kind c = Kind_ssh then Some c else None
      | None \<Rightarrow> None)"

definition ssh_config_errors :: "source_def \<Rightarrow> source_error list" where
  "ssh_config_errors d =
     (if has_key (sd_config d) SSH_LOCATION_CONFIG_KEY then [Config_ssh_location] else [])
     @ map Config_old_key (filter (has_key (sd_config d)) [''gather_mode'', ''fact_path''])"

definition resolve :: "(string, connector) fmap \<Rightarrow> source_def \<Rightarrow> source_error list + source" where
  "resolve connectors d =
     (let (run, errs) = resolve_run connectors d;
          ssh = ssh_connector connectors d;
          ssh_loc = Option.bind ssh conn_ssh_location;
          errs = errs @ (if ssh \<noteq> None then ssh_config_errors d else [])
      in case run of
           None \<Rightarrow> Inl errs
         | Some r \<Rightarrow>
             (if errs \<noteq> [] then Inl errs
              else Inr
                \<lparr>s_name = sd_name d, s_connector = sd_connector d, s_connector_type = rs_type r,
                 s_ssh_location = ssh_loc, s_project_id = rs_project r, s_script_path = rs_path r,
                 s_script_args = rs_args r, s_host_args = rs_host_args r,
                 s_timeout_seconds =
                   (case sd_timeout_seconds d of Some t \<Rightarrow> t | None \<Rightarrow> rs_timeout r),
                 s_host_sync_updates_group_vars = sd_host_sync_updates_group_vars d,
                 s_sync_mode = sd_sync_mode d, s_credential_ids = sd_credentials d,
                 s_schedule = sd_schedule d, s_sync_interval_seconds = sd_sync_interval_seconds d,
                 s_ttl_seconds = sd_ttl_seconds d, s_ttl_overrides = sd_ttl_overrides d,
                 s_hosts_from_source = sd_hosts_from_source d,
                 s_allow_on_demand_refresh = sd_allow_on_demand_refresh d,
                 s_advertise_scope = sd_advertise_scope d, s_config = sd_config d\<rparr>))"

section \<open>Advertised scope\<close>

definition mp_is_empty :: "match_pattern \<Rightarrow> bool" where
  "mp_is_empty p \<longleftrightarrow> mp_groups p = [] \<and> mp_hosts p = []"

definition source_advertised_scope :: "source \<Rightarrow> scope_claim option" where
  "source_advertised_scope s =
     (case s_advertise_scope s of
        Some explicit \<Rightarrow>
          Some \<lparr>sc_groups = as_groups explicit, sc_hosts = as_hosts explicit, sc_catch_all = False\<rparr>
      | None \<Rightarrow>
          map_option
            (\<lambda>hfs. \<lparr>sc_groups = mp_groups (hfs_pattern hfs), sc_hosts = mp_hosts (hfs_pattern hfs),
                    sc_catch_all = mp_is_empty (hfs_pattern hfs)\<rparr>)
            (s_hosts_from_source s))"

type_synonym scope_registry = "(string, scope_claim) fmap"

definition scope_record :: "string \<Rightarrow> scope_claim \<Rightarrow> scope_registry \<Rightarrow> scope_registry" where
  "scope_record source_id claim r = fmupd source_id claim r"

definition scope_get :: "scope_registry \<Rightarrow> string \<Rightarrow> scope_claim option" where
  "scope_get r source_id = fmlookup r source_id"

section \<open>Hosts from another source\<close>

record host_spec =
  hs_name :: string
  hs_addresses :: "string list"

datatype pick_warning =
    No_such_group string string
  | No_such_host string string
  | No_ansible_host string

definition in_some_group :: "dataset \<Rightarrow> string \<Rightarrow> bool" where
  "in_some_group d h \<longleftrightarrow> fm_any (\<lambda>_ g. h \<in> set (g_hosts g)) (groups d)"

definition pick_hosts :: "hosts_from_source \<Rightarrow> dataset \<Rightarrow> string list \<times> pick_warning list" where
  "pick_hosts f d =
     (if mp_is_empty (hfs_pattern f) then (fm_keys (hostvars d), [])
      else
        (concat (map (\<lambda>g. case fmlookup (groups d) g of Some grp \<Rightarrow> g_hosts grp | None \<Rightarrow> [])
                  (mp_groups (hfs_pattern f)))
         @ filter (\<lambda>h. fmlookup (hostvars d) h \<noteq> None \<or> in_some_group d h) (mp_hosts (hfs_pattern f)),
         concat (map (\<lambda>g. case fmlookup (groups d) g of
                            Some grp \<Rightarrow> [] | None \<Rightarrow> [No_such_group g (hfs_source f)])
                  (mp_groups (hfs_pattern f)))
         @ map (\<lambda>h. No_such_host h (hfs_source f))
             (filter (\<lambda>h. \<not> (fmlookup (hostvars d) h \<noteq> None \<or> in_some_group d h))
               (mp_hosts (hfs_pattern f)))))"

definition ansible_host_of :: "dataset \<Rightarrow> string \<Rightarrow> string option" where
  "ansible_host_of d h =
     Option.bind (fmlookup (hostvars d) h) (\<lambda>vars. Option.bind (fmlookup vars ''ansible_host'') as_str)"

text \<open>The candidates for one host; \<open>None\<close> skips it.\<close>

fun candidate_addresses :: "connect_via \<Rightarrow> string \<Rightarrow> string option \<Rightarrow> (string list) option" where
  "candidate_addresses Via_hostname h _ = Some [h]"
| "candidate_addresses Via_ansible_host h (Some a) = Some [a]"
| "candidate_addresses Via_ansible_host h None = None"
| "candidate_addresses Via_ansible_host_then_hostname h (Some a) = Some [a, h]"
| "candidate_addresses Via_ansible_host_then_hostname h None = Some [h]"
| "candidate_addresses Via_hostname_then_ansible_host h (Some a) = Some [h, a]"
| "candidate_addresses Via_hostname_then_ansible_host h None = Some [h]"

fun spec_loop ::
  "connect_via \<Rightarrow> dataset \<Rightarrow> string list \<Rightarrow> host_spec list \<times> pick_warning list" where
  "spec_loop via d [] = ([], [])"
| "spec_loop via d (h # hs) =
     (let (specs, ws) = spec_loop via d hs in
      case candidate_addresses via h (ansible_host_of d h) of
        None \<Rightarrow> (specs, No_ansible_host h # ws)
      | Some as \<Rightarrow> (\<lparr>hs_name = h, hs_addresses = remdups_adj as\<rparr> # specs, ws))"

definition hosts_resolve :: "hosts_from_source \<Rightarrow> dataset \<Rightarrow> host_spec list \<times> pick_warning list" where
  "hosts_resolve f d =
     (let (picked, warnings) = pick_hosts f d;
          (specs, skipped) = spec_loop (hfs_via f) d (sort_dedup picked)
      in (specs, warnings @ skipped))"

section \<open>TTLs\<close>

definition note_ttl :: "nat \<Rightarrow> string \<Rightarrow> (string, nat) fmap \<Rightarrow> (string, nat) fmap" where
  "note_ttl ttl h m =
     fmupd h (case fmlookup m h of Some current \<Rightarrow> min current ttl | None \<Rightarrow> ttl) m"

definition group_ttl_by_host :: "source \<Rightarrow> dataset \<Rightarrow> (string, nat) fmap" where
  "group_ttl_by_host s d =
     fm_fold (\<lambda>g ttl m. case fmlookup (groups d) g of
                Some grp \<Rightarrow> fold (note_ttl ttl) (g_hosts grp) m | None \<Rightarrow> m)
       (to_groups (s_ttl_overrides s)) fmempty"

definition effective_ttl :: "source \<Rightarrow> string \<Rightarrow> (string, nat) fmap \<Rightarrow> nat \<Rightarrow> nat" where
  "effective_ttl s hostname group_ttls fallback =
     (case fmlookup (to_hosts (s_ttl_overrides s)) hostname of
        Some t \<Rightarrow> t
      | None \<Rightarrow> (case fmlookup group_ttls hostname of Some t \<Rightarrow> t | None \<Rightarrow> fallback))"

section \<open>Which TTL a host gets\<close>

text \<open>The TTLs set for the groups that name a host.\<close>

definition group_ttls_of :: "source \<Rightarrow> dataset \<Rightarrow> string \<Rightarrow> nat set" where
  "group_ttls_of s d h =
     {t. \<exists>g grp. fmlookup (to_groups (s_ttl_overrides s)) g = Some t
          \<and> fmlookup (groups d) g = Some grp \<and> h \<in> set (g_hosts grp)}"

definition min_opt :: "nat option \<Rightarrow> nat set \<Rightarrow> nat option" where
  "min_opt a ts =
     (if a = None \<and> ts = {} then None
      else Some (Min (set_option a \<union> ts)))"

lemma min_opt_empty [simp]: "min_opt a {} = a"
  by (cases a) (simp_all add: min_opt_def)

lemma min_opt_union:
  assumes "finite S" and "finite T"
  shows "min_opt (min_opt a S) T = min_opt a (S \<union> T)"
proof (cases "a = None \<and> S = {}")
  case False
  then have ne: "set_option a \<union> S \<noteq> {}" by auto
  have fin: "finite (set_option a \<union> S)" using assms by simp
  have "Min (insert (Min (set_option a \<union> S)) T) = Min (set_option a \<union> (S \<union> T))"
    using Min_Un [OF fin ne, of T] assms(2) by (cases "T = {}") (simp_all add: Un_assoc)
  with False show ?thesis by (auto simp: min_opt_def)
qed simp

lemma note_ttl_min: "fmlookup (note_ttl t x m) h = (if x = h then min_opt (fmlookup m h) {t} else fmlookup m h)"
  by (auto simp: note_ttl_def min_opt_def split: option.split)

lemma fold_note_ttl:
  "fmlookup (fold (note_ttl ttl) hs m) h = min_opt (fmlookup m h) (if h \<in> set hs then {ttl} else {})"
proof (induction hs arbitrary: m)
  case (Cons x hs)
  then show ?case by (auto simp: note_ttl_min min_opt_union)
qed simp

lemma fold_group_ttls:
  fixes gs :: "(string, group) fmap"
  defines "step \<equiv> \<lambda>g ttl m. case fmlookup gs g of
      Some grp \<Rightarrow> fold (note_ttl ttl) (g_hosts grp) m | None \<Rightarrow> m"
  shows "fmlookup (fold (\<lambda>g. step g (the (fmlookup tg g))) ks m) h
    = min_opt (fmlookup m h)
        ((\<lambda>g. the (fmlookup tg g)) ` {g \<in> set ks. \<exists>grp. fmlookup gs g = Some grp \<and> h \<in> set (g_hosts grp)})"
    (is "_ = min_opt _ (?ttls ks)")
proof (induction ks arbitrary: m)
  case (Cons k ks)
  have fin: "finite (?ttls xs)" for xs by simp
  show ?case
  proof (cases "\<exists>grp. fmlookup gs k = Some grp \<and> h \<in> set (g_hosts grp)")
    case True
    then have "?ttls (k # ks) = {the (fmlookup tg k)} \<union> ?ttls ks" by auto
    moreover have "fmlookup (step k (the (fmlookup tg k)) m) h = min_opt (fmlookup m h) {the (fmlookup tg k)}"
      using True by (auto simp: step_def fold_note_ttl)
    ultimately show ?thesis
      using Cons.IH fin by (simp add: min_opt_union del: image_Collect)
  next
    case False
    then have "?ttls (k # ks) = ?ttls ks" by auto
    moreover have "fmlookup (step k (the (fmlookup tg k)) m) h = fmlookup m h"
      using False by (auto simp: step_def fold_note_ttl split: option.split)
    ultimately show ?thesis using Cons.IH by simp
  qed
qed simp

lemma group_ttl_by_host_lookup:
  "fmlookup (group_ttl_by_host s d) h = min_opt None (group_ttls_of s d h)"
proof -
  have "(\<lambda>g. the (fmlookup (to_groups (s_ttl_overrides s)) g)) `
      {g \<in> set (fm_keys (to_groups (s_ttl_overrides s))).
        \<exists>grp. fmlookup (groups d) g = Some grp \<and> h \<in> set (g_hosts grp)}
    = group_ttls_of s d h"
    unfolding group_ttls_of_def fm_keys_set by (auto simp: fmlookup_fmdom' image_iff) force
  with fold_group_ttls [where gs = "groups d" and tg = "to_groups (s_ttl_overrides s)"]
  show ?thesis by (simp add: group_ttl_by_host_def fm_fold_def)
qed

lemma group_ttls_of_finite: "finite (group_ttls_of s d h)"
proof (rule finite_subset)
  show "group_ttls_of s d h
      \<subseteq> (\<lambda>g. the (fmlookup (to_groups (s_ttl_overrides s)) g)) ` fmdom' (to_groups (s_ttl_overrides s))"
    by (force simp: group_ttls_of_def intro: rev_image_eqI fmdom'I)
qed simp

text \<open>
  The TTL of a host is its own override, else the strictest of the TTLs set for the
  groups that name it, else the fallback: one of the values someone wrote, no greater than
  any that a group of the host asks for, and the same whatever the order of the maps.
\<close>

theorem effective_ttl_strictest:
  fixes s :: source and d :: dataset
  shows "let t = effective_ttl s h (group_ttl_by_host s d) fallback in case fmlookup (to_hosts (s_ttl_overrides s)) h of
      Some own \<Rightarrow> t = own
    | None \<Rightarrow>
        (if group_ttls_of s d h = {} then t = fallback
         else t \<in> group_ttls_of s d h \<and> (\<forall>u \<in> group_ttls_of s d h. t \<le> u))"
  unfolding Let_def effective_ttl_def group_ttl_by_host_lookup
  using group_ttls_of_finite [of s d h] by (auto simp: min_opt_def split: option.split)

definition sample_source :: source where
  "sample_source =
     \<lparr>s_name = ''vm'', s_connector = ''vmware'', s_connector_type = CT_script,
      s_ssh_location = None, s_project_id = None, s_script_path = ''/opt/vm.py'',
      s_script_args = [''--list''], s_host_args = [], s_timeout_seconds = 300,
      s_host_sync_updates_group_vars = False, s_sync_mode = Mode_replace,
      s_credential_ids = [], s_schedule = None, s_sync_interval_seconds = Some 600,
      s_ttl_seconds = 900,
      s_ttl_overrides =
        \<lparr>to_groups = fmap_of_list [(''prod'', 300), (''web'', 60)], to_hosts = fmap_of_list [(''db1'', 30)]\<rparr>,
      s_hosts_from_source = None, s_allow_on_demand_refresh = True, s_advertise_scope = None,
      s_config = fmempty\<rparr>"

definition sample_dataset :: dataset where
  "sample_dataset =
     \<lparr>hostvars = fmap_of_list [(''web1'', fmap_of_list [(''ansible_host'', JStr ''10.0.0.1'')]), (''db1'', fmempty)],
      groups = fmap_of_list
        [(''prod'', \<lparr>g_hosts = [''web1'', ''db1''], g_children = [], g_vars = None\<rparr>),
         (''web'', \<lparr>g_hosts = [''web1''], g_children = [], g_vars = None\<rparr>)],
      remove_hosts = []\<rparr>"

theorem effective_ttl_strictest_witness:
  "effective_ttl sample_source ''web1'' (group_ttl_by_host sample_source sample_dataset) 900 = 60
   \<and> effective_ttl sample_source ''db1'' (group_ttl_by_host sample_source sample_dataset) 900 = 30"
proof -
  have "group_ttls_of sample_source sample_dataset ''web1'' = {300, 60}"
  proof -
    have "fmlookup (to_groups (s_ttl_overrides sample_source)) g = Some t \<and> fmlookup (groups sample_dataset) g = Some grp
      \<and> ''web1'' \<in> set (g_hosts grp) \<longleftrightarrow> g = ''prod'' \<and> t = 300 \<and> fmlookup (groups sample_dataset) g = Some grp
        \<or> g = ''web'' \<and> t = 60 \<and> fmlookup (groups sample_dataset) g = Some grp" for g t grp
      by (auto simp: sample_source_def sample_dataset_def fmlookup_of_list split: if_splits)
    moreover have "\<exists>grp. fmlookup (groups sample_dataset) ''prod'' = Some grp"
      "\<exists>grp. fmlookup (groups sample_dataset) ''web'' = Some grp"
      by (simp_all add: sample_dataset_def fmlookup_of_list)
    ultimately show ?thesis unfolding group_ttls_of_def by auto
  qed
  moreover have "fmlookup (to_hosts (s_ttl_overrides sample_source)) ''web1'' = None"
    "fmlookup (to_hosts (s_ttl_overrides sample_source)) ''db1'' = Some 30"
    by (simp_all add: sample_source_def fmlookup_of_list)
  ultimately show ?thesis
    using effective_ttl_strictest [where s = sample_source and d = sample_dataset and h = "''web1''" and fallback = 900]
      effective_ttl_strictest [where s = sample_source and d = sample_dataset and h = "''db1''" and fallback = 900]
    by (auto simp: Let_def)
qed

section \<open>When an item resolves, and to what\<close>

definition item_ok :: "(string, connector) fmap \<Rightarrow> source_def \<Rightarrow> bool" where
  "item_ok connectors d \<longleftrightarrow>
     (if sd_connector d = REMOTE then
        has_key (sd_config d) ''url'' \<and> has_key (sd_config d) ''source''
        \<and> sd_project d = None \<and> sd_path d = None
      else if sd_connector d = STATIC_INVENTORY then
        sd_project d \<noteq> None \<and> (\<exists>p. sd_path d = Some p \<and> trim p \<noteq> [])
      else fmlookup connectors (sd_connector d) \<noteq> None \<and> sd_project d = None \<and> sd_path d = None)
     \<and> (if ssh_connector connectors d \<noteq> None
        then \<not> has_key (sd_config d) SSH_LOCATION_CONFIG_KEY
          \<and> \<not> has_key (sd_config d) ''gather_mode'' \<and> \<not> has_key (sd_config d) ''fact_path''
        else True)"

lemma refuse_location_nil: "refuse_location d conn = [] \<longleftrightarrow> sd_project d = None \<and> sd_path d = None"
  by (simp add: refuse_location_def)

lemma ssh_config_errors_nil:
  "ssh_config_errors d = [] \<longleftrightarrow> \<not> has_key (sd_config d) SSH_LOCATION_CONFIG_KEY
     \<and> \<not> has_key (sd_config d) ''gather_mode'' \<and> \<not> has_key (sd_config d) ''fact_path''"
  by (simp add: ssh_config_errors_def)

lemma resolve_run_ok:
  "fst (resolve_run connectors d) \<noteq> None \<and> snd (resolve_run connectors d) = []
     \<longleftrightarrow> (if sd_connector d = REMOTE then
           has_key (sd_config d) ''url'' \<and> has_key (sd_config d) ''source''
           \<and> sd_project d = None \<and> sd_path d = None
         else if sd_connector d = STATIC_INVENTORY then
           sd_project d \<noteq> None \<and> (\<exists>p. sd_path d = Some p \<and> trim p \<noteq> [])
         else fmlookup connectors (sd_connector d) \<noteq> None \<and> sd_project d = None \<and> sd_path d = None)"
  by (auto simp: resolve_run_def refuse_location_nil split: option.splits)

lemma resolve_run_none: "fst (resolve_run connectors d) = None \<Longrightarrow> snd (resolve_run connectors d) \<noteq> []"
  by (auto simp: resolve_run_def Let_def split: option.splits if_splits prod.splits)

lemma resolve_cases:
  "case resolve connectors d of
     Inl errs \<Rightarrow> errs \<noteq> [] \<and> \<not> item_ok connectors d
   | Inr s \<Rightarrow> item_ok connectors d"
proof -
  obtain run errs where r: "resolve_run connectors d = (run, errs)" by fastforce
  have ok: "item_ok connectors d \<longleftrightarrow> run \<noteq> None \<and> errs = []
      \<and> (ssh_connector connectors d \<noteq> None \<longrightarrow> ssh_config_errors d = [])"
    unfolding item_ok_def resolve_run_ok [symmetric] r ssh_config_errors_nil [symmetric] by simp
  show ?thesis
    using resolve_run_none [of connectors d] r unfolding ok
    by (cases run; cases "ssh_connector connectors d") (auto simp: resolve_def)
qed

lemma ssh_location_script: "c_kind c = Kind_script \<Longrightarrow> conn_ssh_location c = None"
  by (simp add: conn_ssh_location_def)

lemma resolve_fields:
  assumes "resolve connectors d = Inr s"
  shows "s_config s = sd_config d" "s_ttl_overrides s = sd_ttl_overrides d"
    "s_connector s = sd_connector d" "s_ttl_seconds s = sd_ttl_seconds d"
    "\<exists>run. resolve_run connectors d = (Some run, []) \<and> s_connector_type s = rs_type run
       \<and> s_project_id s = rs_project run \<and> s_script_path s = rs_path run
       \<and> s_script_args s = rs_args run \<and> s_host_args s = rs_host_args run
       \<and> s_timeout_seconds s = (case sd_timeout_seconds d of Some t \<Rightarrow> t | None \<Rightarrow> rs_timeout run)"
    "s_ssh_location s = Option.bind (ssh_connector connectors d) conn_ssh_location"
  using assms by (auto simp: resolve_def Let_def split: prod.splits option.splits if_splits)

text \<open>
  An item resolves exactly when it names a connector that exists, gives the settings
  that connector needs and none it would ignore; otherwise at least one error is reported.
  The source that runs takes what runs (type, project, script, arguments) from the
  connector and never from the item, except for the two built-ins, and the item's own
  timeout wins over the connector's.
\<close>

theorem resolve_exact:
  "case resolve connectors d of
     Inl errs \<Rightarrow> errs \<noteq> [] \<and> \<not> item_ok connectors d
   | Inr s \<Rightarrow> item_ok connectors d \<and> s_config s = sd_config d
       \<and> (case s_connector_type s of
            CT_remote \<Rightarrow> sd_connector d = REMOTE \<and> fmlookup (sd_config d) ''source'' = Some (s_script_path s)
              \<and> s_project_id s = None \<and> s_script_args s = []
          | CT_static_inventory \<Rightarrow> sd_connector d = STATIC_INVENTORY
              \<and> s_project_id s = sd_project d \<and> sd_path d = Some (s_script_path s)
          | ty \<Rightarrow> (\<exists>c. fmlookup connectors (sd_connector d) = Some c
              \<and> ty = (if c_kind c = Kind_ssh then CT_ssh else CT_script)
              \<and> s_script_path s = (case c_script c of Some sc \<Rightarrow> sc | None \<Rightarrow> c_path c)
              \<and> s_project_id s = c_project c \<and> s_script_args s = c_script_args c
              \<and> s_host_args s = c_host_args c \<and> s_ssh_location s = conn_ssh_location c
              \<and> s_timeout_seconds s
                  = (case sd_timeout_seconds d of Some t \<Rightarrow> t | None \<Rightarrow> c_timeout_seconds c)))"
proof (cases "resolve connectors d")
  case (Inl errs)
  then show ?thesis using resolve_cases [of connectors d] by simp
next
  case (Inr s)
  then have ok: "item_ok connectors d" using resolve_cases [of connectors d] by simp
  note f = resolve_fields [OF Inr]
  consider (remote) "sd_connector d = REMOTE"
    | (static) "sd_connector d = STATIC_INVENTORY" "sd_connector d \<noteq> REMOTE"
    | (item) c where "sd_connector d \<noteq> REMOTE" "sd_connector d \<noteq> STATIC_INVENTORY"
        "fmlookup connectors (sd_connector d) = Some c"
    using ok by (auto simp: item_ok_def split: if_splits)
  then show ?thesis
  proof cases
    case remote
    with Inr ok f show ?thesis
      by (auto simp: resolve_run_def item_ok_def has_key_def)
  next
    case static
    with Inr ok f show ?thesis
      by (auto simp: resolve_run_def item_ok_def split: if_splits)
  next
    case item
    with Inr ok f show ?thesis
      by (cases "c_kind c")
        (auto simp: resolve_run_def ssh_connector_def ssh_location_script split: option.split)
  qed
qed

section \<open>Which hosts an SSH source takes\<close>

definition wanted :: "hosts_from_source \<Rightarrow> dataset \<Rightarrow> string \<Rightarrow> bool" where
  "wanted f d h \<longleftrightarrow>
     (if mp_is_empty (hfs_pattern f) then fmlookup (hostvars d) h \<noteq> None
      else (\<exists>g \<in> set (mp_groups (hfs_pattern f)). \<exists>grp. fmlookup (groups d) g = Some grp \<and> h \<in> set (g_hosts grp))
        \<or> h \<in> set (mp_hosts (hfs_pattern f)) \<and> (fmlookup (hostvars d) h \<noteq> None \<or> in_some_group d h))"

lemma pick_hosts_set: "set (fst (pick_hosts f d)) = {h. wanted f d h}"
  by (auto simp: pick_hosts_def wanted_def fmlookup_fmdom' split: option.splits)

lemma spec_loop_names:
  "map hs_name (fst (spec_loop via d hs))
     = filter (\<lambda>h. candidate_addresses via h (ansible_host_of d h) \<noteq> None) hs"
  by (induction hs) (auto simp: Let_def split: prod.splits option.splits)

lemma spec_loop_addresses:
  "sp \<in> set (fst (spec_loop via d hs)) \<Longrightarrow>
     \<exists>as. candidate_addresses via (hs_name sp) (ansible_host_of d (hs_name sp)) = Some as
       \<and> hs_addresses sp = remdups_adj as"
  by (induction hs) (auto simp: Let_def split: prod.splits option.splits)

lemma spec_loop_warnings:
  "snd (spec_loop via d hs) = map No_ansible_host
     (filter (\<lambda>h. candidate_addresses via h (ansible_host_of d h) = None) hs)"
  by (induction hs) (auto simp: Let_def split: prod.splits option.splits)

lemma candidate_addresses_shape:
  "candidate_addresses via h a = Some as \<Longrightarrow>
     as \<noteq> [] \<and> distinct (remdups_adj as) \<and> set as \<subseteq> {h} \<union> set_option a"
  by (induction via h a rule: candidate_addresses.induct) auto

lemma candidate_addresses_none:
  "candidate_addresses via h a = None \<longleftrightarrow> via = Via_ansible_host \<and> a = None"
  by (induction via h a rule: candidate_addresses.induct) auto

text \<open>
  The hosts taken are exactly those the pattern selects (every host when it is empty),
  sorted, each once; a host is left out only when its address must come from a variable it
  does not have, and then a warning names it. Every host taken has at least one address, no
  address twice, and no address but its name and its \<open>ansible_host\<close>.
\<close>

theorem hosts_resolve_exact:
  "map hs_name (fst (hosts_resolve f d))
     = filter (\<lambda>h. hfs_via f \<noteq> Via_ansible_host \<or> ansible_host_of d h \<noteq> None)
         (sorted_list_of_set {h. wanted f d h})
   \<and> (\<forall>sp \<in> set (fst (hosts_resolve f d)).
        hs_addresses sp \<noteq> [] \<and> distinct (hs_addresses sp)
        \<and> set (hs_addresses sp) \<subseteq> {hs_name sp} \<union> set_option (ansible_host_of d (hs_name sp)))
   \<and> (\<forall>h. wanted f d h \<and> hfs_via f = Via_ansible_host \<and> ansible_host_of d h = None
        \<longrightarrow> No_ansible_host h \<in> set (snd (hosts_resolve f d)))"
proof -
  have w: "sort_dedup (fst (pick_hosts f d)) = sorted_list_of_set {h. wanted f d h}"
    by (simp add: sort_dedup_eq pick_hosts_set)
  have fin: "finite {h. wanted f d h}" using pick_hosts_set [of f d] finite_set by metis
  have r: "hosts_resolve f d
    = (fst (spec_loop (hfs_via f) d (sorted_list_of_set {h. wanted f d h})),
       snd (pick_hosts f d) @ snd (spec_loop (hfs_via f) d (sorted_list_of_set {h. wanted f d h})))"
    by (simp add: hosts_resolve_def w Let_def split_def)
  have "hs_addresses sp \<noteq> [] \<and> distinct (hs_addresses sp)
      \<and> set (hs_addresses sp) \<subseteq> {hs_name sp} \<union> set_option (ansible_host_of d (hs_name sp))"
    if "sp \<in> set (fst (hosts_resolve f d))" for sp
  proof -
    from that have "sp \<in> set (fst (spec_loop (hfs_via f) d (sorted_list_of_set {h. wanted f d h})))"
      unfolding r by simp
    then obtain as where
      as: "candidate_addresses (hfs_via f) (hs_name sp) (ansible_host_of d (hs_name sp)) = Some as"
      "hs_addresses sp = remdups_adj as"
      using spec_loop_addresses by blast
    from candidate_addresses_shape [OF as(1)] as(2) show ?thesis by simp
  qed
  moreover have "map hs_name (fst (hosts_resolve f d))
      = filter (\<lambda>h. hfs_via f \<noteq> Via_ansible_host \<or> ansible_host_of d h \<noteq> None)
          (sorted_list_of_set {h. wanted f d h})"
    unfolding r by (auto simp: spec_loop_names candidate_addresses_none intro!: filter_cong)
  moreover have "No_ansible_host h \<in> set (snd (hosts_resolve f d))"
    if "wanted f d h" "hfs_via f = Via_ansible_host" "ansible_host_of d h = None" for h
    unfolding r using that fin by (auto simp: spec_loop_warnings candidate_addresses_none)
  ultimately show ?thesis by blast
qed

theorem hosts_resolve_exact_witness:
  "hosts_resolve \<lparr>hfs_source = ''vm'', hfs_pattern = \<lparr>mp_groups = [''prod''], mp_hosts = []\<rparr>, hfs_via = Via_ansible_host\<rparr> sample_dataset
     \<noteq> ([], [])"
proof
  let ?f = "\<lparr>hfs_source = ''vm'', hfs_pattern = \<lparr>mp_groups = [''prod''], mp_hosts = []\<rparr>, hfs_via = Via_ansible_host\<rparr>"
  assume e: "hosts_resolve ?f sample_dataset = ([], [])"
  have "wanted ?f sample_dataset ''db1'' \<and> ansible_host_of sample_dataset ''db1'' = None"
    by (simp add: wanted_def mp_is_empty_def sample_dataset_def ansible_host_of_def fmlookup_of_list)
  with hosts_resolve_exact [of ?f sample_dataset] show False unfolding e by auto
qed

end
