(* ===== verification/Host_Items.thy ===== *)
theory Host_Items
  imports Sources
begin

text \<open>
  Host and group items folded into the sources they name: \<open>src/src/domain/host.rs\<close>. Runs at
  load, after the sources are resolved. The lemmas say that with no error every source ends
  up with exactly its own overrides and the items', whatever the order of the maps, and
  that an error is reported exactly for a reference that does not resolve or a TTL set
  twice.
\<close>

section \<open>Items\<close>

datatype item_kind = Host_item | Group_item

text \<open>An item is its per-source TTLs; its label plays no part here.\<close>

record item_def =
  it_name :: string
  it_sources :: "(string, nat) fmap"

datatype fold_error =
    Names_view item_kind string string
  | Unknown_source item_kind string string
  | Already_set item_kind string string

fun kind_text :: "item_kind \<Rightarrow> string" where
  "kind_text Host_item = ''Host''"
| "kind_text Group_item = ''Group''"

fun kind_key :: "item_kind \<Rightarrow> string" where
  "kind_key Host_item = ''hosts''"
| "kind_key Group_item = ''groups''"

abbreviation dash :: string where
  "dash \<equiv> [CHR 0xE2, CHR 0x80, CHR 0x94]"

abbreviation quoted :: "string \<Rightarrow> string" where
  "quoted s \<equiv> [CHR 0x27] @ s @ [CHR 0x27]"

fun fold_error_text :: "fold_error \<Rightarrow> string" where
  "fold_error_text (Names_view k i src) =
     kind_text k @ '' '' @ quoted i @ '' names view '' @ quoted src @ '' '' @ dash
     @ '' a view holds no copy of its own; name the member source that gathers the host instead''"
| "fold_error_text (Unknown_source k i src) =
     kind_text k @ '' '' @ quoted i @ '' references unknown source '' @ quoted src"
| "fold_error_text (Already_set k i src) =
     kind_text k @ '' '' @ quoted i @ '' sets a TTL for source '' @ quoted src
     @ '', whose ttl_overrides.'' @ kind_key k @ '' already sets one for it '' @ dash
     @ '' keep one of the two''"

section \<open>Folding\<close>

fun override_map :: "item_kind \<Rightarrow> ttl_overrides \<Rightarrow> (string, nat) fmap" where
  "override_map Host_item o' = to_hosts o'"
| "override_map Group_item o' = to_groups o'"

fun set_override :: "item_kind \<Rightarrow> string \<Rightarrow> nat \<Rightarrow> ttl_overrides \<Rightarrow> ttl_overrides" where
  "set_override Host_item i t o' = o'\<lparr>to_hosts := fmupd i t (to_hosts o')\<rparr>"
| "set_override Group_item i t o' = o'\<lparr>to_groups := fmupd i t (to_groups o')\<rparr>"

type_synonym sources = "(string, source) fmap"

text \<open>One entry: the item \<open>i\<close> says \<open>t\<close> for the source \<open>src\<close>.\<close>

definition fold_entry ::
  "string list \<Rightarrow> item_kind \<times> string \<times> string \<times> nat \<Rightarrow> sources \<times> fold_error list
     \<Rightarrow> sources \<times> fold_error list" where
  "fold_entry views = (\<lambda>(k, i, src, t) (ss, errs).
     case fmlookup ss src of
       None \<Rightarrow> (ss, errs @ [if src \<in> set views then Names_view k i src else Unknown_source k i src])
     | Some s \<Rightarrow>
         (if fmlookup (override_map k (s_ttl_overrides s)) i \<noteq> None
          then (ss, errs @ [Already_set k i src])
          else (fmupd src (s\<lparr>s_ttl_overrides := set_override k i t (s_ttl_overrides s)\<rparr>) ss, errs)))"

definition entries_of :: "item_kind \<Rightarrow> (string, item_def) fmap \<Rightarrow> (item_kind \<times> string \<times> string \<times> nat) list" where
  "entries_of k items =
     concat (map (\<lambda>i. let ps = it_sources (the (fmlookup items i)) in
                       map (\<lambda>src. (k, i, src, the (fmlookup ps src))) (fm_keys ps))
             (fm_keys items))"

definition fold_into_sources ::
  "(string, item_def) fmap \<Rightarrow> (string, item_def) fmap \<Rightarrow> string list \<Rightarrow> sources \<Rightarrow> sources \<times> string list" where
  "fold_into_sources hosts grps views ss =
     (let (ss', errs) = fold (fold_entry views) (entries_of Host_item hosts @ entries_of Group_item grps) (ss, [])
      in (ss', sort (map fold_error_text errs)))"

section \<open>What folding leaves\<close>

definition says :: "(string, item_def) fmap \<Rightarrow> string \<Rightarrow> string \<Rightarrow> nat option" where
  "says items i src = Option.bind (fmlookup items i) (\<lambda>it. fmlookup (it_sources it) src)"

lemma entries_of_set:
  "(k', i, src, t) \<in> set (entries_of k items) \<longleftrightarrow> k' = k \<and> says items i src = Some t"
  by (force simp: entries_of_def says_def Let_def fmlookup_fmdom' bind_eq_Some_conv)

lemma entries_of_distinct: "distinct (map (\<lambda>(k, i, src, t). (k, i, src)) (entries_of k items))"
proof -
  have inner: "map (\<lambda>(k, i, src, t). (k, i, src))
      (map (\<lambda>src. (k, i, src, the (fmlookup ps src))) (fm_keys ps)) = map (\<lambda>src. (k, i, src)) (fm_keys ps)"
    for i ps by (simp add: comp_def)
  have "distinct (concat (map (\<lambda>i. map (\<lambda>src. (k, i, src)) (fm_keys (it_sources (the (fmlookup items i))))) is))"
    if "distinct is" for "is"
    using that by (induction "is") (auto simp: distinct_map inj_on_def)
  from this [of "fm_keys items"] show ?thesis
    by (simp add: entries_of_def map_concat comp_def Let_def)
qed

text \<open>The override of source \<open>src\<close> for a host or group, and what a list of entries adds.\<close>

definition override :: "sources \<Rightarrow> item_kind \<times> string \<times> string \<Rightarrow> nat option" where
  "override ss = (\<lambda>(k, i, src).
     Option.bind (fmlookup ss src) (\<lambda>s. fmlookup (override_map k (s_ttl_overrides s)) i))"

definition key_of :: "item_kind \<times> string \<times> string \<times> nat \<Rightarrow> item_kind \<times> string \<times> string" where
  "key_of = (\<lambda>(k, i, src, t). (k, i, src))"

definition entry_ok :: "sources \<Rightarrow> item_kind \<times> string \<times> string \<times> nat \<Rightarrow> bool" where
  "entry_ok ss = (\<lambda>(k, i, src, t). fmlookup ss src \<noteq> None \<and> override ss (k, i, src) = None)"

lemma override_map_set:
  "fmlookup (override_map k' (set_override k i t x)) i'
     = (if k = k' \<and> i = i' then Some t else fmlookup (override_map k' x) i')"
  by (cases k; cases k') auto

lemma fold_entry_ok:
  "entry_ok ss e \<Longrightarrow> snd (fold_entry views e (ss, errs)) = errs
     \<and> fmdom' (fst (fold_entry views e (ss, errs))) = fmdom' ss
     \<and> override (fst (fold_entry views e (ss, errs))) key
         = (if key = key_of e then Some (snd (snd (snd e))) else override ss key)"
  by (cases e; cases key)
    (auto simp: entry_ok_def fold_entry_def override_def key_of_def override_map_set
      bind_eq_None_conv fmlookup_fmdom' split: option.splits)

lemma fold_entry_bad:
  "\<not> entry_ok ss e \<Longrightarrow> fst (fold_entry views e (ss, errs)) = ss
     \<and> (\<exists>err. snd (fold_entry views e (ss, errs)) = errs @ [err])"
  by (cases e) (auto simp: entry_ok_def fold_entry_def override_def split: option.splits)

lemma fold_entries:
  assumes "distinct (map key_of es)"
  shows "override (fst (fold (fold_entry views) es (ss, errs))) key
      = (case map_of (map (\<lambda>e. (key_of e, snd (snd (snd e)))) (filter (entry_ok ss) es)) key of
           Some t \<Rightarrow> Some t | None \<Rightarrow> override ss key)
    \<and> length (snd (fold (fold_entry views) es (ss, errs))) = length errs + length (filter (\<lambda>e. \<not> entry_ok ss e) es)"
  using assms
proof (induction es arbitrary: ss errs)
  case (Cons e es)
  have keep: "entry_ok ss' e' \<longleftrightarrow> entry_ok ss e'"
    if "fmdom' ss' = fmdom' ss" "override ss' (key_of e') = override ss (key_of e')" for ss' e'
    using that by (cases e') (auto simp: entry_ok_def key_of_def fmlookup_fmdom' set_eq_iff)
  show ?case
  proof (cases "entry_ok ss e")
    case True
    obtain ss' errs' where s: "fold_entry views e (ss, errs) = (ss', errs')" by fastforce
    note f = fold_entry_ok [OF True, of views errs, unfolded s, simplified]
    have "entry_ok ss' e' \<longleftrightarrow> entry_ok ss e'" if "e' \<in> set es" for e'
    proof -
      have "key_of e' \<noteq> key_of e" using Cons.prems that by (force simp: image_iff)
      then show ?thesis using f by (intro keep) auto
    qed
    then have "filter (entry_ok ss') es = filter (entry_ok ss) es"
      "filter (\<lambda>e. \<not> entry_ok ss' e) es = filter (\<lambda>e. \<not> entry_ok ss e) es"
      by (auto intro!: filter_cong)
    moreover have "map_of (map (\<lambda>e. (key_of e, snd (snd (snd e)))) (filter P es)) (key_of e) = None" for P
      using Cons.prems by (auto simp: map_of_eq_None_iff)
    ultimately show ?thesis
      using Cons.IH [of ss' errs'] Cons.prems f True by (auto simp: s split: option.split)
  next
    case False
    obtain errs' err where s: "fold_entry views e (ss, errs) = (ss, errs')" "errs' = errs @ [err]"
      using fold_entry_bad [OF False, of views errs] by (cases "fold_entry views e (ss, errs)") auto
    with Cons.IH [of ss errs'] Cons.prems False show ?thesis by simp
  qed
qed simp

text \<open>
  Folding reports no error exactly when every entry names a source that exists and sets
  a TTL its source does not set already; and each entry that does takes effect, whether or
  not others are refused: a source ends up with its own overrides and the items', each
  once, whatever the order of the items.
\<close>

theorem fold_into_sources_exact:
  "(snd (fold_into_sources hosts grps views ss) = [] \<longleftrightarrow>
      (\<forall>i src t. says hosts i src = Some t \<longrightarrow> entry_ok ss (Host_item, i, src, t))
      \<and> (\<forall>i src t. says grps i src = Some t \<longrightarrow> entry_ok ss (Group_item, i, src, t)))
   \<and> override (fst (fold_into_sources hosts grps views ss)) (k, i, src)
      = (case says (if k = Host_item then hosts else grps) i src of
           Some t \<Rightarrow> if entry_ok ss (k, i, src, t) then Some t else override ss (k, i, src)
         | None \<Rightarrow> override ss (k, i, src))"
proof -
  define es where "es = entries_of Host_item hosts @ entries_of Group_item grps"
  have mem: "(k, i, src, t) \<in> set es \<longleftrightarrow> says (if k = Host_item then hosts else grps) i src = Some t" for k i src t
    by (cases k) (auto simp: es_def entries_of_set)
  have dist: "distinct (map key_of es)"
    using entries_of_distinct [of Host_item hosts] entries_of_distinct [of Group_item grps]
    by (auto simp: es_def key_of_def entries_of_set)
  note f = fold_entries [OF dist, of views ss "[]"]
  have res: "fold_into_sources hosts grps views ss
      = (fst (fold (fold_entry views) es (ss, [])), sort (map fold_error_text (snd (fold (fold_entry views) es (ss, [])))))"
    by (simp add: fold_into_sources_def es_def split_def Let_def)
  have "snd (fold_into_sources hosts grps views ss) = [] \<longleftrightarrow> (\<forall>e\<in>set es. entry_ok ss e)"
  proof -
    have "length (snd (fold (fold_entry views) es (ss, []))) = length (filter (\<lambda>e. \<not> entry_ok ss e) es)"
      using f by simp
    then have "snd (fold (fold_entry views) es (ss, [])) = [] \<longleftrightarrow> filter (\<lambda>e. \<not> entry_ok ss e) es = []"
      by (metis length_0_conv)
    moreover have "sort xs = [] \<longleftrightarrow> xs = []" for xs :: "string list"
      by (metis length_0_conv length_sort)
    ultimately show ?thesis by (simp add: res filter_empty_conv)
  qed
  then have first: "snd (fold_into_sources hosts grps views ss) = [] \<longleftrightarrow>
      (\<forall>i src t. says hosts i src = Some t \<longrightarrow> entry_ok ss (Host_item, i, src, t))
      \<and> (\<forall>i src t. says grps i src = Some t \<longrightarrow> entry_ok ss (Group_item, i, src, t))"
  proof -
    have all_kinds: "(\<forall>k. P k) \<longleftrightarrow> P Host_item \<and> P Group_item" for P
      by (metis item_kind.exhaust)
    have "(\<forall>e\<in>set es. entry_ok ss e)
        \<longleftrightarrow> (\<forall>k i src t. (k, i, src, t) \<in> set es \<longrightarrow> entry_ok ss (k, i, src, t))"
      by (simp add: Ball_def split_paired_All)
    also have "\<dots> \<longleftrightarrow> (\<forall>k i src t. says (if k = Host_item then hosts else grps) i src = Some t
        \<longrightarrow> entry_ok ss (k, i, src, t))"
      by (simp only: mem)
    finally show ?thesis
      using \<open>snd (fold_into_sources hosts grps views ss) = [] \<longleftrightarrow> (\<forall>e\<in>set es. entry_ok ss e)\<close>
      by (simp add: all_kinds)
  qed
  have "map_of (map (\<lambda>e. (key_of e, snd (snd (snd e)))) (filter (entry_ok ss) es)) (k, i, src)
      = (case says (if k = Host_item then hosts else grps) i src of
           Some t \<Rightarrow> if entry_ok ss (k, i, src, t) then Some t else None | None \<Rightarrow> None)"
  proof -
    have d: "distinct (map fst (map (\<lambda>e. (key_of e, snd (snd (snd e)))) (filter (entry_ok ss) es)))"
      using dist by (simp add: comp_def distinct_map inj_on_def)
    have m: "((k, i, src), t) \<in> set (map (\<lambda>e. (key_of e, snd (snd (snd e)))) (filter (entry_ok ss) es))
        \<longleftrightarrow> (k, i, src, t) \<in> set es \<and> entry_ok ss (k, i, src, t)" for t
      by (force simp: key_of_def)
    have "map_of (map (\<lambda>e. (key_of e, snd (snd (snd e)))) (filter (entry_ok ss) es)) (k, i, src) = Some t
        \<longleftrightarrow> says (if k = Host_item then hosts else grps) i src = Some t \<and> entry_ok ss (k, i, src, t)" for t
      by (simp only: map_of_eq_Some_iff [OF d] m mem)
    then show ?thesis
      by (intro option_ext) (cases "says (if k = Host_item then hosts else grps) i src"; simp only:; simp; blast)
  qed
  with f [of "(k, i, src)"] first show ?thesis
    by (auto simp: res split: option.split)
qed

theorem fold_into_sources_exact_witness:
  "let items = fmap_of_list [(''db1'', \<lparr>it_name = ''db1'', it_sources = fmap_of_list [(''vm'', 45), (''gone'', 5)]\<rparr>),
        (''web1'', \<lparr>it_name = ''web1'', it_sources = fmap_of_list [(''vm'', 10)]\<rparr>)];
       r = fold_into_sources items fmempty [] (fmap_of_list [(''vm'', sample_source)])
   in snd r \<noteq> [] \<and> override (fst r) (Host_item, ''web1'', ''vm'') = Some 10
      \<and> override (fst r) (Host_item, ''db1'', ''vm'') = Some 30"
proof -
  let ?items = "fmap_of_list [(''db1'', \<lparr>it_name = ''db1'', it_sources = fmap_of_list [(''vm'', 45), (''gone'', 5)]\<rparr>),
        (''web1'', \<lparr>it_name = ''web1'', it_sources = fmap_of_list [(''vm'', 10)]\<rparr>)]"
  let ?ss = "fmap_of_list [(''vm'', sample_source)]"
  note t = fold_into_sources_exact [of ?items fmempty "[]" ?ss]
  have s: "says ?items ''db1'' ''gone'' = Some 5" "says ?items ''web1'' ''vm'' = Some 10"
    "says ?items ''db1'' ''vm'' = Some 45"
    by (simp_all add: says_def fmlookup_of_list)
  have o: "override ?ss (Host_item, ''web1'', ''vm'') = None" "override ?ss (Host_item, ''db1'', ''vm'') = Some 30"
    by (simp_all add: override_def sample_source_def fmlookup_of_list)
  have e: "\<not> entry_ok ?ss (Host_item, ''db1'', ''gone'', 5)" "entry_ok ?ss (Host_item, ''web1'', ''vm'', 10)"
    "\<not> entry_ok ?ss (Host_item, ''db1'', ''vm'', 45)"
    using o by (simp_all add: entry_ok_def fmlookup_of_list)
  have "snd (fold_into_sources ?items fmempty [] ?ss) \<noteq> []"
    using t [of Host_item "''db1''" "''gone''"] s(1) e(1) by blast
  moreover have "override (fst (fold_into_sources ?items fmempty [] ?ss)) (Host_item, ''web1'', ''vm'') = Some 10"
    using t [of Host_item "''web1''" "''vm''"] s(2) e(2) by simp
  moreover have "override (fst (fold_into_sources ?items fmempty [] ?ss)) (Host_item, ''db1'', ''vm'') = Some 30"
    using t [of Host_item "''db1''" "''vm''"] s(3) e(3) o(2) by simp
  ultimately show ?thesis by (simp only: Let_def) blast
qed

end
