(* ===== verification/Group_Trim.thy ===== *)
theory Group_Trim
  imports Prelude
begin

text \<open>
  The groups a page of hosts belongs to: \<open>src/src/domain/group_trim.rs\<close>. The loop adds the
  parents of kept groups until nothing changes; it ends because each round that changes
  something keeps one more of the groups there are. What it keeps is exactly the groups from
  which a group with a host on the page is reached through children.
\<close>

section \<open>The program\<close>

record trimmed_group =
  tr_hosts :: "string list"
  tr_children :: "string list"

type_synonym group_row = "string \<times> string list \<times> string list"

definition seed :: "string set \<Rightarrow> group_row list \<Rightarrow> (string, trimmed_group) fmap" where
  "seed page all =
     fold (\<lambda>(name, hosts, _) kept.
         let on_page = filter (\<lambda>h. h \<in> page) hosts in
         if on_page \<noteq> [] then fmupd name \<lparr>tr_hosts = on_page, tr_children = []\<rparr> kept else kept)
       all fmempty"

text \<open>One round over the groups, and whether it kept a new one.\<close>

definition round_step ::
  "group_row \<Rightarrow> (string, trimmed_group) fmap \<times> bool \<Rightarrow> (string, trimmed_group) fmap \<times> bool" where
  "round_step = (\<lambda>(name, _, children) (kept, grew).
     if fmlookup kept name = None \<and> list_ex (\<lambda>c. fmlookup kept c \<noteq> None) children
     then (fmupd name \<lparr>tr_hosts = [], tr_children = []\<rparr> kept, True)
     else (kept, grew))"

definition one_round ::
  "group_row list \<Rightarrow> (string, trimmed_group) fmap \<Rightarrow> (string, trimmed_group) fmap \<times> bool" where
  "one_round all kept = fold round_step all (kept, False)"

definition missing :: "group_row list \<Rightarrow> (string, trimmed_group) fmap \<Rightarrow> string set" where
  "missing all kept = {n \<in> fst ` set all. fmlookup kept n = None}"

lemma round_step_mono:
  "fmlookup kept n \<noteq> None \<Longrightarrow> fmlookup (fst (round_step g (kept, grew))) n = fmlookup kept n"
  by (cases g) (auto simp: round_step_def)

lemma fold_round_mono:
  "fmlookup kept n \<noteq> None \<Longrightarrow> fmlookup (fst (fold round_step gs (kept, grew))) n = fmlookup kept n"
proof (induction gs arbitrary: kept grew)
  case (Cons g gs)
  obtain kept' grew' where s: "round_step g (kept, grew) = (kept', grew')" by fastforce
  have "fmlookup kept' n = fmlookup kept n" using round_step_mono [OF Cons.prems, of g grew] s by simp
  with Cons s show ?case by simp
qed simp

lemma fold_round_grew:
  "snd (fold round_step gs (kept, grew)) \<Longrightarrow> grew
     \<or> (\<exists>n \<in> fst ` set gs. fmlookup kept n = None \<and> fmlookup (fst (fold round_step gs (kept, grew))) n \<noteq> None)"
proof (induction gs arbitrary: kept grew)
  case (Cons g gs)
  obtain name hosts children where g: "g = (name, hosts, children)" by (cases g)
  obtain kept' grew' where s: "round_step g (kept, grew) = (kept', grew')" by fastforce
  show ?case
  proof (cases "fmlookup kept name = None \<and> list_ex (\<lambda>c. fmlookup kept c \<noteq> None) children")
    case True
    then have "fmlookup kept' name \<noteq> None" using s g by (auto simp: round_step_def)
    then have "fmlookup (fst (fold round_step gs (kept', grew'))) name \<noteq> None"
      using fold_round_mono [of kept' name gs grew'] by simp
    with True s g show ?thesis by auto
  next
    case False
    then have "kept' = kept" "grew' = grew" using s g by (auto simp: round_step_def)
    with Cons s show ?thesis by auto
  qed
qed simp

lemma one_round_missing:
  assumes "snd (one_round all kept)"
  shows "card (missing all (fst (one_round all kept))) < card (missing all kept)"
proof (rule psubset_card_mono)
  obtain n where "n \<in> fst ` set all" "fmlookup kept n = None"
    "fmlookup (fst (one_round all kept)) n \<noteq> None"
    using assms fold_round_grew [of all kept False] by (auto simp: one_round_def)
  then have "n \<in> missing all kept" "n \<notin> missing all (fst (one_round all kept))"
    by (simp_all add: missing_def)
  moreover have "missing all (fst (one_round all kept)) \<subseteq> missing all kept"
    using fold_round_mono [of kept _ all False] by (fastforce simp: missing_def one_round_def)
  ultimately show "missing all (fst (one_round all kept)) \<subset> missing all kept" by blast
qed (simp add: missing_def)

function grow :: "group_row list \<Rightarrow> (string, trimmed_group) fmap \<Rightarrow> (string, trimmed_group) fmap" where
  "grow all kept =
     (let (kept', grew) = one_round all kept in if grew then grow all kept' else kept')"
  by pat_completeness auto

termination grow
proof (relation "measure (\<lambda>(all, kept). card (missing all kept))")
  fix all :: "group_row list" and kept x kept' grew
  assume "x = one_round all kept" "(kept', grew) = x" grew
  then have "snd (one_round all kept)" "fst (one_round all kept) = kept'" by (metis snd_conv, metis fst_conv)
  with one_round_missing show "((all, kept'), all, kept) \<in> measure (\<lambda>(all, kept). card (missing all kept))"
    by auto
qed simp

declare grow.simps [simp del]

definition matching :: "group_row list \<Rightarrow> string set \<Rightarrow> (string, trimmed_group) fmap" where
  "matching all page =
     (let kept = grow all (seed page all) in
      fold (\<lambda>(name, _, children) k.
          case fmlookup k name of
            Some t \<Rightarrow> fmupd name (t\<lparr>tr_children := filter (\<lambda>c. fmlookup kept c \<noteq> None) children\<rparr>) k
          | None \<Rightarrow> k) all kept)"

section \<open>Which groups are kept\<close>

inductive reaches :: "group_row list \<Rightarrow> string set \<Rightarrow> string \<Rightarrow> bool" for all page where
  on_page: "(n, hosts, children) \<in> set all \<Longrightarrow> h \<in> set hosts \<Longrightarrow> h \<in> page \<Longrightarrow> reaches all page n"
| through: "(n, hosts, children) \<in> set all \<Longrightarrow> c \<in> set children \<Longrightarrow> reaches all page c \<Longrightarrow> reaches all page n"

lemma fold_seed:
  assumes "distinct (map fst gs)"
  shows "fmlookup (fold (\<lambda>(name, hosts, _) kept.
         let on_page = filter (\<lambda>h. h \<in> page) hosts in
         if on_page \<noteq> [] then fmupd name \<lparr>tr_hosts = on_page, tr_children = []\<rparr> kept else kept) gs acc) n
    = (case map_of gs n of
         Some (hosts, children) \<Rightarrow>
           (if filter (\<lambda>h. h \<in> page) hosts \<noteq> []
            then Some \<lparr>tr_hosts = filter (\<lambda>h. h \<in> page) hosts, tr_children = []\<rparr> else fmlookup acc n)
       | None \<Rightarrow> fmlookup acc n)"
  using assms
proof (induction gs arbitrary: acc)
  case (Cons g gs)
  obtain name hosts children where g: "g = (name, hosts, children)" by (cases g)
  have "map_of gs name = None" using Cons.prems g by (simp add: map_of_eq_None_iff)
  with Cons g show ?case by (auto simp: Let_def split: option.split)
qed simp

lemma round_step_cases:
  obtains (kept_more) name hosts children c where "g = (name, hosts, children)" "fmlookup kept name = None"
      "c \<in> set children" "fmlookup kept c \<noteq> None"
      "round_step g (kept, grew) = (fmupd name \<lparr>tr_hosts = [], tr_children = []\<rparr> kept, True)"
  | (same) "round_step g (kept, grew) = (kept, grew)"
      "\<And>name hosts children c. g = (name, hosts, children) \<Longrightarrow> c \<in> set children
         \<Longrightarrow> fmlookup kept c \<noteq> None \<Longrightarrow> fmlookup kept name \<noteq> None"
proof -
  obtain name hosts children where g: "g = (name, hosts, children)" by (cases g)
  show thesis
  proof (cases "fmlookup kept name = None \<and> list_ex (\<lambda>c. fmlookup kept c \<noteq> None) children")
    case True
    with g kept_more show thesis by (auto simp: round_step_def list_ex_iff)
  next
    case False
    show thesis
    proof (rule same)
      show "round_step g (kept, grew) = (kept, grew)" using False g by (auto simp: round_step_def)
      show "fmlookup kept name' \<noteq> None"
        if "g = (name', hosts', children')" "c \<in> set children'" "fmlookup kept c \<noteq> None" for name' hosts' children' c
        using False g that by (auto simp: list_ex_iff)
    qed
  qed
qed

lemma round_sound:
  assumes "\<And>n. fmlookup kept n \<noteq> None \<Longrightarrow> reaches all page n" and "set gs \<subseteq> set all"
    and "fmlookup (fst (fold round_step gs (kept, grew))) n \<noteq> None"
  shows "reaches all page n"
  using assms
proof (induction gs arbitrary: kept grew)
  case (Cons g gs)
  show ?case
  proof (rule round_step_cases [where g = g and kept = kept and grew = grew])
    fix name hosts children c
    assume kept_more: "g = (name, hosts, children)" "fmlookup kept name = None" "c \<in> set children"
      "fmlookup kept c \<noteq> None"
      "round_step g (kept, grew) = (fmupd name \<lparr>tr_hosts = [], tr_children = []\<rparr> kept, True)"
    have r: "reaches all page name"
      using kept_more(1,3,4) Cons.prems(1) [of c] Cons.prems(2)
      by (intro reaches.through [of name hosts children all c]) simp_all
    have more: "reaches all page m" if "fmlookup (fmupd name \<lparr>tr_hosts = [], tr_children = []\<rparr> kept) m \<noteq> None" for m
    proof (cases "m = name")
      case False
      with that Cons.prems(1) [of m] show ?thesis by simp
    qed (simp add: r)
    show ?thesis
      by (rule Cons.IH [of "fmupd name \<lparr>tr_hosts = [], tr_children = []\<rparr> kept" True, OF more])
        (use Cons.prems(2,3) kept_more(5) in simp_all)
  next
    assume same: "round_step g (kept, grew) = (kept, grew)"
    show ?thesis
      by (rule Cons.IH [of kept grew, OF Cons.prems(1)]) (use Cons.prems(2,3) same in simp_all)
  qed
qed simp

lemma round_new:
  "fmlookup kept n = None \<Longrightarrow>
     fmlookup (fst (fold round_step gs (kept, grew))) n \<in> {None, Some \<lparr>tr_hosts = [], tr_children = []\<rparr>}"
proof (induction gs arbitrary: kept grew)
  case (Cons g gs)
  show ?case
  proof (rule round_step_cases [where g = g and kept = kept and grew = grew])
    fix name hosts children c
    assume kept_more: "g = (name, hosts, children)" "fmlookup kept name = None" "c \<in> set children"
      "fmlookup kept c \<noteq> None"
      "round_step g (kept, grew) = (fmupd name \<lparr>tr_hosts = [], tr_children = []\<rparr> kept, True)"
    show ?thesis
    proof (cases "n = name")
      case True
      then show ?thesis
        using kept_more(5) fold_round_mono [of "fmupd name \<lparr>tr_hosts = [], tr_children = []\<rparr> kept" n gs True]
        by simp
    next
      case False
      with Cons kept_more(5) show ?thesis by simp
    qed
  next
    assume "round_step g (kept, grew) = (kept, grew)"
    with Cons show ?thesis by simp
  qed
qed simp

lemma round_still:
  "\<not> snd (fold round_step gs (kept, grew)) \<Longrightarrow> fst (fold round_step gs (kept, grew)) = kept \<and> \<not> grew
     \<and> (\<forall>(name, hosts, children) \<in> set gs. \<forall>c \<in> set children.
          fmlookup kept c \<noteq> None \<longrightarrow> fmlookup kept name \<noteq> None)"
proof (induction gs arbitrary: kept grew)
  case (Cons g gs)
  show ?case
  proof (rule round_step_cases [where g = g and kept = kept and grew = grew])
    fix name hosts children c
    assume kept_more: "g = (name, hosts, children)" "fmlookup kept name = None" "c \<in> set children"
      "fmlookup kept c \<noteq> None"
      "round_step g (kept, grew) = (fmupd name \<lparr>tr_hosts = [], tr_children = []\<rparr> kept, True)"
    with Cons.prems Cons.IH [of "fmupd name \<lparr>tr_hosts = [], tr_children = []\<rparr> kept" True] show ?thesis by simp
  next
    assume "round_step g (kept, grew) = (kept, grew)"
      "\<And>name hosts children c. g = (name, hosts, children) \<Longrightarrow> c \<in> set children
         \<Longrightarrow> fmlookup kept c \<noteq> None \<Longrightarrow> fmlookup kept name \<noteq> None"
    with Cons show ?thesis by fastforce
  qed
qed simp

lemma grow_props:
  assumes "\<And>n. fmlookup kept n \<noteq> None \<Longrightarrow> reaches all page n"
  shows "(\<forall>n. fmlookup (grow all kept) n \<noteq> None \<longrightarrow> reaches all page n)
     \<and> (\<forall>n. fmlookup kept n \<noteq> None \<longrightarrow> fmlookup (grow all kept) n = fmlookup kept n)
     \<and> (\<forall>n. fmlookup kept n = None \<longrightarrow> fmlookup (grow all kept) n \<in> {None, Some \<lparr>tr_hosts = [], tr_children = []\<rparr>})
     \<and> \<not> snd (one_round all (grow all kept))"
  using assms
proof (induction all kept rule: grow.induct)
  case (1 all kept)
  obtain kept' grew where r: "one_round all kept = (kept', grew)" by fastforce
  have g: "grow all kept = (if grew then grow all kept' else kept')" using r by (subst grow.simps) simp
  have sound: "reaches all page n" if "fmlookup kept' n \<noteq> None" for n
    using round_sound [of kept all page all False n] "1.prems" r that by (simp add: one_round_def)
  have mono: "fmlookup kept n \<noteq> None \<Longrightarrow> fmlookup kept' n = fmlookup kept n" for n
    using fold_round_mono [of kept n all False] r by (simp add: one_round_def)
  have new: "fmlookup kept n = None \<Longrightarrow> fmlookup kept' n \<in> {None, Some \<lparr>tr_hosts = [], tr_children = []\<rparr>}" for n
    using round_new [of kept n all False] r by (simp add: one_round_def)
  show ?case
  proof (cases grew)
    case True
    note ih = "1.IH" [OF r [symmetric] refl True, OF sound]
    have "fmlookup (grow all kept') n = fmlookup kept n" if "fmlookup kept n \<noteq> None" for n
      using ih mono [OF that] that by simp
    moreover have "fmlookup (grow all kept') n \<in> {None, Some \<lparr>tr_hosts = [], tr_children = []\<rparr>}"
      if "fmlookup kept n = None" for n
      using ih new [OF that] by (cases "fmlookup kept' n = None") auto
    ultimately show ?thesis using True ih g by simp
  next
    case False
    then have "kept' = kept" using round_still [of all kept False] r by (simp add: one_round_def)
    with False g r sound show ?thesis by simp
  qed
qed

lemma fold_children:
  assumes "distinct (map fst gs)"
  shows "fmlookup (fold (\<lambda>(name, _, children) k.
          case fmlookup k name of
            Some t \<Rightarrow> fmupd name (t\<lparr>tr_children := filter P children\<rparr>) k
          | None \<Rightarrow> k) gs acc) n
    = (case map_of gs n of
         Some (hosts, children) \<Rightarrow> map_option (\<lambda>t. t\<lparr>tr_children := filter P children\<rparr>) (fmlookup acc n)
       | None \<Rightarrow> fmlookup acc n)"
  using assms
proof (induction gs arbitrary: acc)
  case (Cons g gs)
  obtain name hosts children where g: "g = (name, hosts, children)" by (cases g)
  have "map_of gs name = None" using Cons.prems g by (simp add: map_of_eq_None_iff)
  with Cons g show ?case by (auto split: option.split)
qed simp

text \<open>
  A page keeps exactly the groups with a host on it and, through children, their
  parents however far up, each with its own hosts that are on the page and the children
  that are kept; the loop ends on any groups, cycles included.
\<close>

theorem group_trim_exact:
  assumes "distinct (map fst all)"
  shows "fmlookup (matching all page) n =
    (case map_of all n of
       None \<Rightarrow> None
     | Some (hosts, children) \<Rightarrow>
         if reaches all page n
         then Some \<lparr>tr_hosts = filter (\<lambda>h. h \<in> page) hosts, tr_children = filter (reaches all page) children\<rparr>
         else None)"
proof -
  let ?seed = "seed page all" and ?kept = "grow all (seed page all)"
  note seed = fold_seed [OF assms, of page fmempty, folded seed_def]
  have "reaches all page m" if seeded: "fmlookup ?seed m \<noteq> None" for m
  proof -
    obtain hosts children where "(m, hosts, children) \<in> set all" "filter (\<lambda>h. h \<in> page) hosts \<noteq> []"
      using seeded map_of_SomeD [of all m] by (cases "map_of all m") (auto simp: seed split: if_splits)
    then show ?thesis by (auto simp: filter_empty_conv intro: reaches.on_page)
  qed
  note g = grow_props [OF this]
  have kept: "fmlookup ?kept m \<noteq> None" if "reaches all page m" for m
    using that
  proof induction
    case (on_page m hosts children h)
    then have "fmlookup ?seed m \<noteq> None"
      using assms by (auto simp: seed filter_empty_conv)
    with g show ?case by simp
  next
    case (through m hosts children c)
    have "\<not> snd (fold round_step all (?kept, False))" using g by (simp add: one_round_def)
    from round_still [OF this] through show ?case by fastforce
  qed
  then have iff: "fmlookup ?kept m \<noteq> None \<longleftrightarrow> reaches all page m" for m using g by blast
  have res: "fmlookup (matching all page) n
      = (case map_of all n of
           Some (hosts, children) \<Rightarrow>
             map_option (\<lambda>t. t\<lparr>tr_children := filter (reaches all page) children\<rparr>) (fmlookup ?kept n)
         | None \<Rightarrow> fmlookup ?kept n)"
    unfolding matching_def Let_def iff by (rule fold_children [OF assms])
  show ?thesis
  proof (cases "map_of all n")
    case None
    have "\<not> reaches all page n"
    proof
      assume "reaches all page n"
      then have "n \<in> fst ` set all" by cases force+
      with None show False by (simp add: map_of_eq_None_iff)
    qed
    with iff [of n] None res show ?thesis by simp
  next
    case (Some hc)
    obtain hosts children where hc: "hc = (hosts, children)" by (cases hc)
    show ?thesis
    proof (cases "reaches all page n")
      case True
      have "fmlookup ?kept n = Some \<lparr>tr_hosts = filter (\<lambda>h. h \<in> page) hosts, tr_children = []\<rparr>"
      proof (cases "filter (\<lambda>h. h \<in> page) hosts = []")
        case True
        then have "fmlookup ?seed n = None" using Some hc by (simp add: seed)
        then have "fmlookup ?kept n \<in> {None, Some \<lparr>tr_hosts = [], tr_children = []\<rparr>}" using g by blast
        with kept [OF \<open>reaches all page n\<close>] True show ?thesis by auto
      next
        case False
        then have "fmlookup ?seed n = Some \<lparr>tr_hosts = filter (\<lambda>h. h \<in> page) hosts, tr_children = []\<rparr>"
          using Some hc by (simp add: seed)
        with g show ?thesis by simp
      qed
      with True Some hc res show ?thesis by simp
    next
      case False
      with iff [of n] have "fmlookup ?kept n = None" by blast
      with False Some hc res show ?thesis by simp
    qed
  qed
qed

theorem group_trim_exact_witness:
  "fmlookup (matching [(''dc'', [], [''web'', ''db'']), (''web'', [''web1'', ''web2''], []), (''db'', [''db1''], [''dc''])] {''web1''}) ''dc''
     = Some \<lparr>tr_hosts = [], tr_children = [''web'', ''db'']\<rparr>"
proof -
  let ?all = "[(''dc'', [], [''web'', ''db'']), (''web'', [''web1'', ''web2''], []), (''db'', [''db1''], [''dc''])]"
  have w: "reaches ?all {''web1''} ''web''" by (rule reaches.on_page [of _ "[''web1'', ''web2'']" "[]" _ "''web1''"]) simp_all
  have d: "reaches ?all {''web1''} ''dc''" by (rule reaches.through [OF _ _ w, of _ "[]" "[''web'', ''db'']"]) simp_all
  have b: "reaches ?all {''web1''} ''db''" by (rule reaches.through [OF _ _ d, of _ "[''db1'']" "[''dc'']"]) simp_all
  have "distinct (map fst ?all)" by simp
  from group_trim_exact [OF this, of "{''web1''}" "''dc''"] w d b show ?thesis by simp
qed

end
