(* ===== verification/Scripts.thy ===== *)
theory Scripts
  imports Connectors
begin

text \<open>
  Where a script lives and which virtualenv it runs in: \<open>src/src/application/scripts.rs\<close>.
  The file system is two predicates on paths, asked when the script runs.
\<close>

definition path_join :: "string \<Rightarrow> string \<Rightarrow> string" where
  "path_join a b =
     (if is_absolute b then b
      else if a = [] \<or> last a = CHR ''/'' then a @ b
      else a @ ''/'' @ b)"

definition VENVS_DIR :: string where
  "VENVS_DIR = ''.venvs''"

definition VENV_BIN_CONFIG_KEY :: string where
  "VENV_BIN_CONFIG_KEY = ''python_venv_bin''"

definition resolve_script_path :: "(string \<Rightarrow> bool) \<Rightarrow> string \<Rightarrow> string \<Rightarrow> string \<Rightarrow> string" where
  "resolve_script_path is_file projects_dir project_id script_path =
     (if is_absolute script_path then script_path
      else
        (let candidate = path_join (path_join projects_dir project_id) script_path in
         if is_file candidate then candidate else script_path))"

definition venv_bin_dir :: "(string \<Rightarrow> bool) \<Rightarrow> string \<Rightarrow> string \<Rightarrow> string option" where
  "venv_bin_dir is_dir projects_dir project_id =
     (let bin = path_join (path_join (path_join projects_dir VENVS_DIR) project_id) ''bin''
      in if is_dir bin then Some bin else None)"

text \<open>The path that runs is the configured one or a file that exists in the checkout.\<close>

lemma resolve_script_path_cases:
  "resolve_script_path is_file dir p s = s
     \<or> \<not> is_absolute s \<and> resolve_script_path is_file dir p s = path_join (path_join dir p) s
        \<and> is_file (path_join (path_join dir p) s)"
  by (simp add: resolve_script_path_def Let_def)

end
