(* ===== verification/Enrich.thy ===== *)
theory Enrich
  imports Memory_Cache Sync_Health Scripts Sources
begin

text \<open>
  Enrichment: \<open>src/src/application/enrich.rs\<close> and \<open>src/src/domain/enricher.rs\<close>. A declarative
  enricher copies variables from one cached dataset into another; a script enricher runs a
  script on the target's dataset, and that run (the enricher port, its timeout included) is
  a parameter. The lemmas say exactly which variables a declarative merge writes and that
  it moves no host, that a run that fails leaves the cache alone, and that every run is
  recorded.
\<close>

section \<open>Enrichers\<close>

record enricher =
  en_name :: string
  en_target_id :: string
  en_script_path :: "string option"
  en_script_args :: "string list"
  en_project_id :: "string option"
  en_source_id :: "string option"
  en_fields :: "(string list) option"
  en_fields_excluded :: "(string list) option"
  en_groups :: "(string list) option"
  en_groups_excluded :: "(string list) option"
  en_sync_interval_seconds :: "nat option"
  en_schedule :: "string option"
  en_config :: "(string, string) fmap"
  en_timeout_seconds :: nat

definition is_declarative :: "enricher \<Rightarrow> bool" where
  "is_declarative en \<longleftrightarrow> en_source_id en \<noteq> None"

datatype enrich_error =
    Missing_source_id
  | Source_not_cached string
  | Missing_script_path
  | Enricher_timed_out nat
  | Enricher_failed string

fun enrich_error_text :: "enrich_error \<Rightarrow> string" where
  "enrich_error_text Missing_source_id = ''declarative enricher missing source_id''"
| "enrich_error_text (Source_not_cached s) = ''source '' @ [CHR 0x27] @ s @ [CHR 0x27] @ '' not in cache''"
| "enrich_error_text Missing_script_path = ''script-based enricher missing script_path''"
| "enrich_error_text (Enricher_timed_out t) = ''enricher timed out after '' @ show_nat t @ ''s''"
| "enrich_error_text (Enricher_failed m) = m"

record enrich_outcome =
  eo_hosts_updated :: nat
  eo_hosts_removed :: nat
  eo_duration_ms :: nat
  eo_error :: "enrich_error option"

definition enrich_failed :: "nat \<Rightarrow> enrich_error \<Rightarrow> enrich_outcome" where
  "enrich_failed ms e =
     \<lparr>eo_hosts_updated = 0, eo_hosts_removed = 0, eo_duration_ms = ms, eo_error = Some e\<rparr>"

section \<open>What a declarative enricher takes\<close>

definition admits :: "string \<Rightarrow> (string list) option \<Rightarrow> (string list) option \<Rightarrow> bool" where
  "admits name allowed excluded \<longleftrightarrow>
     (if (case excluded of Some names \<Rightarrow> name \<in> set names | None \<Rightarrow> False) then False
      else (case allowed of None \<Rightarrow> True | Some names \<Rightarrow> name \<in> set names))"

definition selected ::
  "host_vars \<Rightarrow> (string list) option \<Rightarrow> (string list) option \<Rightarrow> host_vars" where
  "selected vars fs excluded =
     (if fs = None \<and> excluded = None then vars
      else fmfilter (\<lambda>k. admits k fs excluded) vars)"

definition group_vars_for_target :: "dataset \<Rightarrow> dataset \<Rightarrow> enricher \<Rightarrow> (string, group) fmap" where
  "group_vars_for_target target src en =
     (let wanted = (\<lambda>g. case g_vars g of
            None \<Rightarrow> fmempty | Some vars \<Rightarrow> selected vars (en_fields en) (en_fields_excluded en))
      in fmmap_keys
           (\<lambda>name g. \<lparr>g_hosts = (if name = ''all'' then fm_keys (hostvars target) else []),
                       g_children = [], g_vars = Some (wanted g)\<rparr>)
           (fm_retain (\<lambda>name g. g_vars g \<noteq> None \<and> admits name (en_groups en) (en_groups_excluded en)
                                 \<and> wanted g \<noteq> fmempty) (groups src)))"

text \<open>The variables copied per host: those of the hosts both datasets have.\<close>

definition host_vars_for_target :: "dataset \<Rightarrow> dataset \<Rightarrow> enricher \<Rightarrow> (string, host_vars) fmap" where
  "host_vars_for_target target src en =
     (let owned = (\<lambda>vars. selected vars (en_fields en) (en_fields_excluded en))
      in fm_retain (\<lambda>_ vars. vars \<noteq> fmempty)
           (fmmap owned (fmfilter (\<lambda>h. fmlookup (hostvars target) h \<noteq> None) (hostvars src))))"

definition execute_declarative_merge ::
  "nat \<Rightarrow> enricher \<Rightarrow> mem_cache \<Rightarrow> mem_cache \<times> enrich_outcome option" where
  "execute_declarative_merge ms en c =
     (case en_source_id en of
        None \<Rightarrow> (c, Some (enrich_failed ms Missing_source_id))
      | Some source_id \<Rightarrow>
          (case mc_get c (en_target_id en) of
             None \<Rightarrow> (c, None)
           | Some target \<Rightarrow>
               (case mc_get c source_id of
                  None \<Rightarrow> (c, Some (enrich_failed ms (Source_not_cached source_id)))
                | Some src \<Rightarrow>
                    (let hv = host_vars_for_target (e_dataset target) (e_dataset src) en;
                         gs = group_vars_for_target (e_dataset target) (e_dataset src) en;
                         c = fst (mc_update (en_target_id en)
                               (\<lambda>e. merge_hostvar_fields
                                      \<lparr>hostvars = hv, groups = fmempty, remove_hosts = []\<rparr>
                                      (merge_group_var_fields
                                        \<lparr>hostvars = fmempty, groups = gs, remove_hosts = []\<rparr> e)) c)
                     in (c, Some \<lparr>eo_hosts_updated = fcard (fmdom hv), eo_hosts_removed = 0,
                                  eo_duration_ms = ms, eo_error = None\<rparr>)))))"

section \<open>A script enricher\<close>

text \<open>The run of the script under its timeout, and the files it is found by.\<close>

datatype 'o run_result = Run_timed_out | Run_failed string | Run_ok 'o

record enricher_env =
  ee_execute :: "string \<Rightarrow> string list \<Rightarrow> (string, string) fmap \<Rightarrow> dataset \<Rightarrow> dataset run_result"
  ee_is_file :: "string \<Rightarrow> bool"
  ee_is_dir :: "string \<Rightarrow> bool"
  ee_projects_dir :: string

definition enricher_config :: "enricher_env \<Rightarrow> enricher \<Rightarrow> string option \<Rightarrow> (string, string) fmap" where
  "enricher_config env en trig =
     (let config = en_config en;
          config = (case Option.bind (en_project_id en) (venv_bin_dir (ee_is_dir env) (ee_projects_dir env)) of
             Some bin \<Rightarrow> fmupd VENV_BIN_CONFIG_KEY bin config | None \<Rightarrow> config)
      in case trig of Some t \<Rightarrow> fmupd ''trigger'' t config | None \<Rightarrow> config)"

definition execute_enricher ::
  "enricher_env \<Rightarrow> instant \<Rightarrow> nat \<Rightarrow> enricher \<Rightarrow> string option \<Rightarrow> mem_cache
     \<Rightarrow> mem_cache \<times> enrich_outcome option" where
  "execute_enricher env now ms en trig c =
     (case mc_get c (en_target_id en) of
        None \<Rightarrow> (c, None)
      | Some current \<Rightarrow>
          (case en_script_path en of
             None \<Rightarrow> (c, Some (enrich_failed 0 Missing_script_path))
           | Some p \<Rightarrow>
               (let path = (case en_project_id en of
                      Some project \<Rightarrow> resolve_script_path (ee_is_file env) (ee_projects_dir env) project p
                    | None \<Rightarrow> p)
                in case ee_execute env path (en_script_args en) (enricher_config env en trig) (e_dataset current) of
                     Run_timed_out \<Rightarrow> (c, Some (enrich_failed ms (Enricher_timed_out (en_timeout_seconds en))))
                   | Run_failed m \<Rightarrow> (c, Some (enrich_failed ms (Enricher_failed m)))
                   | Run_ok d \<Rightarrow>
                       (fst (mc_update (en_target_id en) (merge_enrichment now d) c),
                        Some \<lparr>eo_hosts_updated = fcard (fmdom (hostvars d)),
                              eo_hosts_removed = length (remove_hosts d),
                              eo_duration_ms = ms, eo_error = None\<rparr>))))"

section \<open>Running and recording\<close>

definition not_in_cache_text :: "string \<Rightarrow> string" where
  "not_in_cache_text t = ''target '' @ [CHR 0x27] @ t @ [CHR 0x27] @ '' is not in the cache''"

definition run_enricher ::
  "enricher_env \<Rightarrow> instant \<Rightarrow> nat \<Rightarrow> string \<Rightarrow> enricher \<Rightarrow> string option
     \<Rightarrow> mem_cache \<times> health_registry \<Rightarrow> (mem_cache \<times> health_registry) \<times> enrich_outcome option" where
  "run_enricher env now ms enricher_id en trig = (\<lambda>(c, health).
     let (c, result) = (if is_declarative en then execute_declarative_merge ms en c
                        else execute_enricher env now ms en trig c)
     in case result of
          None \<Rightarrow> ((c, record_failure now enricher_id (not_in_cache_text (en_target_id en)) health), None)
        | Some outcome \<Rightarrow>
            ((c, case eo_error outcome of
                   None \<Rightarrow> record_success now enricher_id health
                 | Some e \<Rightarrow> record_failure now enricher_id (enrich_error_text e) health),
             Some outcome))"

text \<open>Every enricher of a target, in the order of the ids; how many had a target.\<close>

definition run_enrichers_for_target ::
  "enricher_env \<Rightarrow> instant \<Rightarrow> nat \<Rightarrow> (string, enricher) fmap \<Rightarrow> string \<Rightarrow> string option
     \<Rightarrow> mem_cache \<times> health_registry \<Rightarrow> (mem_cache \<times> health_registry) \<times> nat" where
  "run_enrichers_for_target env now ms enrichers target_id trig s =
     (let matching = filter (\<lambda>i. en_target_id (the (fmlookup enrichers i)) = target_id) (fm_keys enrichers)
      in fold (\<lambda>i (s, n).
           let (s, r) = run_enricher env now ms i (the (fmlookup enrichers i)) trig s
           in (s, if r \<noteq> None then n + 1 else n)) matching (s, 0))"

section \<open>Which variables a declarative merge writes\<close>

lemma selected_lookup:
  "fmlookup (selected vars fs ex) k = (if admits k fs ex then fmlookup vars k else None)"
  by (simp add: selected_def admits_def)

lemma host_vars_for_target_lookup:
  "fmlookup (host_vars_for_target t s en) h =
     (case fmlookup (hostvars s) h of
        None \<Rightarrow> None
      | Some vars \<Rightarrow>
          (let own = selected vars (en_fields en) (en_fields_excluded en)
           in if fmlookup (hostvars t) h = None \<or> own = fmempty then None else Some own))"
  by (auto simp: host_vars_for_target_def Let_def split: option.split)

lemma merge_group_var_fields_lookup:
  "fmlookup (groups (e_dataset (merge_group_var_fields p e))) n =
     (case Option.bind (fmlookup (groups p) n) (\<lambda>g. map_option (\<lambda>v. (g, v)) (g_vars g)) of
        None \<Rightarrow> fmlookup (groups (e_dataset e)) n
      | Some (g, vars) \<Rightarrow>
          Some (case fmlookup (groups (e_dataset e)) n of
             Some ex \<Rightarrow> ex\<lparr>g_vars := Some ((case g_vars ex of None \<Rightarrow> fmempty | Some v \<Rightarrow> v) ++\<^sub>f vars)\<rparr>
           | None \<Rightarrow> \<lparr>g_hosts = g_hosts g, g_children = g_children g, g_vars = Some vars\<rparr>))"
  by (auto simp: merge_group_var_fields_def invalidate_serialized_def Let_def fmlookup_dom_iff
      split: option.splits)

lemma merge_group_var_fields_frame [simp]:
  "hostvars (e_dataset (merge_group_var_fields p e)) = hostvars (e_dataset e)"
  "host_timestamps (merge_group_var_fields p e) = host_timestamps e"
  "fetched_at (merge_group_var_fields p e) = fetched_at e"
  "e_ttl (merge_group_var_fields p e) = e_ttl e"
  "complete (merge_group_var_fields p e) = complete e"
  by (simp_all add: merge_group_var_fields_def invalidate_serialized_def Let_def)

lemma declarative_get:
  assumes "en_source_id en = Some sid" and "mc_get c (en_target_id en) = Some target" and "mc_get c sid = Some src"
  shows "mc_get (fst (execute_declarative_merge ms en c)) key =
    (if key = en_target_id en
     then Some (merge_hostvar_fields
       \<lparr>hostvars = host_vars_for_target (e_dataset target) (e_dataset src) en, groups = fmempty, remove_hosts = []\<rparr>
       (merge_group_var_fields
         \<lparr>hostvars = fmempty, groups = group_vars_for_target (e_dataset target) (e_dataset src) en, remove_hosts = []\<rparr> target))
     else mc_get c key)"
  using assms by (auto simp: execute_declarative_merge_def Let_def mem.get_upd)

definition var_of :: "dataset \<Rightarrow> string \<Rightarrow> string \<Rightarrow> json option" where
  "var_of d h k = Option.bind (fmlookup (hostvars d) h) (\<lambda>vars. fmlookup vars k)"

definition group_var_of :: "dataset \<Rightarrow> string \<Rightarrow> string \<Rightarrow> json option" where
  "group_var_of d n k = Option.bind (Option.bind (fmlookup (groups d) n) g_vars) (\<lambda>vars. fmlookup vars k)"

lemma add_lookup: "fmlookup (m ++\<^sub>f m') k = (case fmlookup m' k of Some v \<Rightarrow> Some v | None \<Rightarrow> fmlookup m k)"
  by (auto simp: fmlookup_dom_iff split: option.split)

lemma declarative_host_var:
  "var_of (e_dataset (merge_hostvar_fields
       \<lparr>hostvars = host_vars_for_target (e_dataset t) s en, groups = gs, remove_hosts = []\<rparr> (merge_group_var_fields p t))) h k
   = (if fmlookup (hostvars (e_dataset t)) h \<noteq> None \<and> admits k (en_fields en) (en_fields_excluded en)
         \<and> var_of s h k \<noteq> None
      then var_of s h k else var_of (e_dataset t) h k)"
proof (cases "fmlookup (hostvars (e_dataset t)) h")
  case (Some old)
  show ?thesis
  proof (cases "fmlookup (hostvars s) h")
    case None
    with Some show ?thesis
      by (simp add: var_of_def merge_hostvar_fields_lookup host_vars_for_target_lookup)
  next
    case src: (Some vars)
    let ?own = "selected vars (en_fields en) (en_fields_excluded en)"
    have "fmlookup (old ++\<^sub>f ?own) k = (if admits k (en_fields en) (en_fields_excluded en) \<and> fmlookup vars k \<noteq> None
        then fmlookup vars k else fmlookup old k)"
      by (auto simp: add_lookup selected_lookup split: option.split)
    with Some src show ?thesis
      by (cases "?own = fmempty")
        (auto simp: var_of_def merge_hostvar_fields_lookup host_vars_for_target_lookup Let_def)
  qed
qed (simp add: var_of_def merge_hostvar_fields_lookup)

lemma group_vars_for_target_lookup:
  "fmlookup (group_vars_for_target t s en) n =
     (case Option.bind (fmlookup (groups s) n) g_vars of
        None \<Rightarrow> None
      | Some vars \<Rightarrow>
          (let own = selected vars (en_fields en) (en_fields_excluded en)
           in if \<not> admits n (en_groups en) (en_groups_excluded en) \<or> own = fmempty then None
              else Some \<lparr>g_hosts = (if n = ''all'' then fm_keys (hostvars t) else []), g_children = [],
                         g_vars = Some own\<rparr>))"
  by (auto simp: group_vars_for_target_def Let_def split: option.splits)

lemma declarative_group_var:
  "group_var_of (e_dataset (merge_hostvar_fields q (merge_group_var_fields
       \<lparr>hostvars = hv, groups = group_vars_for_target (e_dataset t) s en, remove_hosts = []\<rparr> t))) n k
   = (if admits n (en_groups en) (en_groups_excluded en) \<and> admits k (en_fields en) (en_fields_excluded en)
         \<and> group_var_of s n k \<noteq> None
      then group_var_of s n k else group_var_of (e_dataset t) n k)"
proof (cases "Option.bind (fmlookup (groups s) n) g_vars")
  case None
  then show ?thesis
    by (simp add: group_var_of_def merge_group_var_fields_lookup group_vars_for_target_lookup)
next
  case (Some vars)
  let ?own = "selected vars (en_fields en) (en_fields_excluded en)"
  have own: "fmlookup ?own k = (if admits k (en_fields en) (en_fields_excluded en) then fmlookup vars k else None)"
    by (rule selected_lookup)
  show ?thesis
  proof (cases "\<not> admits n (en_groups en) (en_groups_excluded en) \<or> ?own = fmempty")
    case True
    then have "fmlookup (group_vars_for_target (e_dataset t) s en) n = None"
      using Some by (simp add: group_vars_for_target_lookup Let_def)
    with True own Some show ?thesis
      by (auto simp: group_var_of_def merge_group_var_fields_lookup)
  next
    case False
    then have "fmlookup (group_vars_for_target (e_dataset t) s en) n
        = Some \<lparr>g_hosts = (if n = ''all'' then fm_keys (hostvars (e_dataset t)) else []), g_children = [], g_vars = Some ?own\<rparr>"
      using Some by (simp add: group_vars_for_target_lookup Let_def)
    with False own Some show ?thesis
      by (auto simp: group_var_of_def merge_group_var_fields_lookup add_lookup split: option.split)
  qed
qed

text \<open>
  C22. A declarative merge writes exactly the variables its rule admits and the source has,
  on the hosts both datasets have and on the source's groups by name, and leaves every other
  variable as it was. It adds and removes no host, restarts no clock, and moves no host
  between groups: a group that was there keeps its members and children, and a group it
  creates has members only when it is \<open>all\<close>. No other entry changes.
\<close>

theorem declarative_merge_exact:
  assumes "en_source_id en = Some sid" and "mc_get c (en_target_id en) = Some target"
    and "mc_get c sid = Some src"
  shows "\<exists>e'. mc_get (fst (execute_declarative_merge ms en c)) (en_target_id en) = Some e'
    \<and> (\<forall>h k. var_of (e_dataset e') h k =
          (if fmlookup (hostvars (e_dataset target)) h \<noteq> None
              \<and> admits k (en_fields en) (en_fields_excluded en) \<and> var_of (e_dataset src) h k \<noteq> None
           then var_of (e_dataset src) h k else var_of (e_dataset target) h k))
    \<and> (\<forall>n k. group_var_of (e_dataset e') n k =
          (if admits n (en_groups en) (en_groups_excluded en)
              \<and> admits k (en_fields en) (en_fields_excluded en) \<and> group_var_of (e_dataset src) n k \<noteq> None
           then group_var_of (e_dataset src) n k else group_var_of (e_dataset target) n k))
    \<and> fmdom' (hostvars (e_dataset e')) = fmdom' (hostvars (e_dataset target))
    \<and> host_timestamps e' = host_timestamps target \<and> fetched_at e' = fetched_at target
    \<and> complete e' = complete target
    \<and> (\<forall>n. map_option (\<lambda>g. (g_hosts g, g_children g)) (fmlookup (groups (e_dataset e')) n) =
          (case fmlookup (groups (e_dataset target)) n of
             Some g \<Rightarrow> Some (g_hosts g, g_children g)
           | None \<Rightarrow>
               (if fmlookup (group_vars_for_target (e_dataset target) (e_dataset src) en) n = None then None
                else Some (if n = ''all'' then fm_keys (hostvars (e_dataset target)) else [], []))))
    \<and> (\<forall>key. key \<noteq> en_target_id en \<longrightarrow>
          mc_get (fst (execute_declarative_merge ms en c)) key = mc_get c key)"
proof -
  let ?p = "\<lparr>hostvars = fmempty, groups = group_vars_for_target (e_dataset target) (e_dataset src) en, remove_hosts = []\<rparr>"
  let ?q = "\<lparr>hostvars = host_vars_for_target (e_dataset target) (e_dataset src) en, groups = fmempty, remove_hosts = []\<rparr>"
  let ?e = "merge_hostvar_fields ?q (merge_group_var_fields ?p target)"
  note get = declarative_get [OF assms, of ms]
  have dom: "fmdom' (hostvars (e_dataset ?e)) = fmdom' (hostvars (e_dataset target))"
    by (auto simp: fmlookup_fmdom' merge_hostvar_fields_lookup)
  have mem: "map_option (\<lambda>g. (g_hosts g, g_children g)) (fmlookup (groups (e_dataset ?e)) n) =
          (case fmlookup (groups (e_dataset target)) n of
             Some g \<Rightarrow> Some (g_hosts g, g_children g)
           | None \<Rightarrow>
               (if fmlookup (group_vars_for_target (e_dataset target) (e_dataset src) en) n = None then None
                else Some (if n = ''all'' then fm_keys (hostvars (e_dataset target)) else [], [])))" for n
    by (auto simp: merge_group_var_fields_lookup group_vars_for_target_lookup Let_def split: option.split)
  show ?thesis
  proof (intro exI [of _ ?e] conjI allI)
    fix n
    show "map_option (\<lambda>g. (g_hosts g, g_children g)) (fmlookup (groups (e_dataset ?e)) n) =
          (case fmlookup (groups (e_dataset target)) n of
             Some g \<Rightarrow> Some (g_hosts g, g_children g)
           | None \<Rightarrow>
               (if fmlookup (group_vars_for_target (e_dataset target) (e_dataset src) en) n = None then None
                else Some (if n = ''all'' then fm_keys (hostvars (e_dataset target)) else [], [])))"
      by (rule mem)
  next
    show "fmdom' (hostvars (e_dataset ?e)) = fmdom' (hostvars (e_dataset target))" by (rule dom)
  qed (simp_all add: get declarative_host_var declarative_group_var)
qed

definition sample_enricher :: enricher where
  "sample_enricher =
     \<lparr>en_name = ''owners'', en_target_id = ''vm'', en_script_path = None, en_script_args = [],
      en_project_id = None, en_source_id = Some ''cmdb'', en_fields = Some [''owner''],
      en_fields_excluded = None, en_groups = None, en_groups_excluded = None,
      en_sync_interval_seconds = None, en_schedule = None, en_config = fmempty, en_timeout_seconds = 300\<rparr>"

definition cmdb_dataset :: dataset where
  "cmdb_dataset =
     \<lparr>hostvars = fmap_of_list [(''web1'', fmap_of_list [(''owner'', JStr ''ops''), (''ansible_host'', JStr ''0.0.0.0'')])],
      groups = fmempty, remove_hosts = []\<rparr>"

theorem declarative_merge_exact_witness:
  "let c = mc_set ''cmdb'' (ce_new 0 cmdb_dataset 60) (mc_set ''vm'' (ce_new 0 sample_dataset 60) mc_new) in
   \<exists>e'. mc_get (fst (execute_declarative_merge 1 sample_enricher c)) ''vm'' = Some e'
     \<and> var_of (e_dataset e') ''web1'' ''owner'' = Some (JStr ''ops'')
     \<and> var_of (e_dataset e') ''web1'' ''ansible_host'' = Some (JStr ''10.0.0.1'')"
proof -
  let ?c = "mc_set ''cmdb'' (ce_new 0 cmdb_dataset 60) (mc_set ''vm'' (ce_new 0 sample_dataset 60) mc_new)"
  have s: "en_source_id sample_enricher = Some ''cmdb''" "en_target_id sample_enricher = ''vm''"
    "en_fields sample_enricher = Some [''owner'']" "en_fields_excluded sample_enricher = None"
    by (simp_all add: sample_enricher_def)
  have t: "mc_get ?c ''vm'' = Some (ce_new 0 sample_dataset 60)" "mc_get ?c ''cmdb'' = Some (ce_new 0 cmdb_dataset 60)"
    by (simp_all add: mc_defs)
  have d: "e_dataset (ce_new now x ttl) = x" for now x ttl by (simp add: ce_new_def)
  have v: "var_of cmdb_dataset ''web1'' ''owner'' = Some (JStr ''ops'')"
    "var_of sample_dataset ''web1'' ''ansible_host'' = Some (JStr ''10.0.0.1'')"
    "fmlookup (hostvars sample_dataset) ''web1'' \<noteq> None"
    by (simp_all add: var_of_def cmdb_dataset_def sample_dataset_def fmlookup_of_list)
  have "mc_get ?c (en_target_id sample_enricher) = Some (ce_new 0 sample_dataset 60)" using t(1) s(2) by simp
  from declarative_merge_exact [OF s(1) this t(2), of 1, unfolded s(2) d]
  obtain e' where e': "mc_get (fst (execute_declarative_merge 1 sample_enricher ?c)) ''vm'' = Some e'"
    "\<forall>h k. var_of (e_dataset e') h k =
          (if fmlookup (hostvars sample_dataset) h \<noteq> None
              \<and> admits k (en_fields sample_enricher) (en_fields_excluded sample_enricher) \<and> var_of cmdb_dataset h k \<noteq> None
           then var_of cmdb_dataset h k else var_of sample_dataset h k)"
    by (elim exE conjE) (rule that; assumption)
  have "admits ''owner'' (Some [''owner'']) None" "\<not> admits ''ansible_host'' (Some [''owner'']) None"
    by (simp_all add: admits_def)
  with e' (2) v s have "var_of (e_dataset e') ''web1'' ''owner'' = Some (JStr ''ops'')"
    "var_of (e_dataset e') ''web1'' ''ansible_host'' = Some (JStr ''10.0.0.1'')"
    by simp_all
  with e' (1) show ?thesis unfolding Let_def by blast
qed

section \<open>Every run is recorded, and a failed one changes nothing\<close>

lemma execute_outcome:
  assumes "execute_declarative_merge ms en c = (c', r) \<or> execute_enricher env now ms en trig c = (c', r)"
    and "r = None \<or> (\<exists>out. r = Some out \<and> eo_error out \<noteq> None)"
  shows "c' = c"
  using assms
  by (auto simp: execute_declarative_merge_def execute_enricher_def enrich_failed_def Let_def
      split: option.splits run_result.splits)

lemma execute_none:
  "is_declarative en \<Longrightarrow> snd (execute_declarative_merge ms en c) = None \<longleftrightarrow> mc_get c (en_target_id en) = None"
  "snd (execute_enricher env now ms en trig c) = None \<longleftrightarrow> mc_get c (en_target_id en) = None"
  by (auto simp: execute_declarative_merge_def execute_enricher_def is_declarative_def Let_def
      split: option.splits run_result.splits)

text \<open>
  Every run of an enricher leaves a record under its id: a run with no target in the
  cache is a failure and answers nothing, a run that failed is a failure, any other a
  success; and unless it succeeded, the cache is as it was.
\<close>

theorem run_enricher_recorded:
  assumes "run_enricher env now ms i en trig (c, health) = ((c', health'), r)"
  shows "(r = None \<longleftrightarrow> mc_get c (en_target_id en) = None)
    \<and> (case r of
         None \<Rightarrow> c' = c \<and> health' = record_failure now i (not_in_cache_text (en_target_id en)) health
       | Some out \<Rightarrow>
           (case eo_error out of
              None \<Rightarrow> health' = record_success now i health
            | Some e \<Rightarrow> c' = c \<and> health' = record_failure now i (enrich_error_text e) health))"
proof -
  obtain c1 res where x: "(if is_declarative en then execute_declarative_merge ms en c
        else execute_enricher env now ms en trig c) = (c1, res)" by fastforce
  have n: "res = None \<longleftrightarrow> mc_get c (en_target_id en) = None"
  proof (cases "is_declarative en")
    case True
    from x True have "snd (execute_declarative_merge ms en c) = res" by simp
    with execute_none (1) [OF True, of ms c] show ?thesis by simp
  next
    case False
    from x False have "snd (execute_enricher env now ms en trig c) = res" by simp
    with execute_none (2) [of env now ms en trig c] show ?thesis by simp
  qed
  have o: "execute_declarative_merge ms en c = (c1, res) \<or> execute_enricher env now ms en trig c = (c1, res)"
    using x by (simp split: if_splits)
  note k = execute_outcome [OF o]
  show ?thesis
  proof (cases res)
    case None
    with k have "c1 = c" by simp
    with assms n None show ?thesis unfolding run_enricher_def prod.case x Let_def by simp
  next
    case (Some out)
    show ?thesis
    proof (cases "eo_error out")
      case None
      with assms n Some show ?thesis unfolding run_enricher_def prod.case x Let_def by auto
    next
      case (Some e)
      with k \<open>res = Some out\<close> have "c1 = c" by simp
      with assms n Some \<open>res = Some out\<close> show ?thesis unfolding run_enricher_def prod.case x Let_def by auto
    qed
  qed
qed

definition idle_env :: enricher_env where
  "idle_env = \<lparr>ee_execute = (\<lambda>_ _ _ _. Run_timed_out), ee_is_file = (\<lambda>_. False), ee_is_dir = (\<lambda>_. False),
     ee_projects_dir = ''projects''\<rparr>"

theorem run_enricher_recorded_witness:
  "snd (run_enricher idle_env 5 1 ''owners'' sample_enricher None (mc_new, hr_new)) = None"
proof -
  obtain c' health' r where "run_enricher idle_env 5 1 ''owners'' sample_enricher None (mc_new, hr_new) = ((c', health'), r)"
    by (metis prod.collapse)
  from run_enricher_recorded [OF this] this show ?thesis by (simp add: mc_get_def mc_new_def)
qed

end
