(* ===== verification/Credentials.thy ===== *)
theory Credentials
  imports Sources
begin

text \<open>
  What a connector is given of its credentials: \<open>resolve_credentials\<close> in
  \<open>src/src/application/credentials.rs\<close>. The resolver of one credential (the secrets port) and
  the two naming functions of the secrets crate, \<open>delivery_id\<close> and \<open>variable_part\<close>, are
  parameters. The lemmas say that two different values never reach the script as one
  variable, and which names every field is delivered under.
\<close>

datatype credential_error =
    Not_resolved string string
  | Same_variable string string string string string

type_synonym fields = "(string, string) fmap"

text \<open>The messages; the variable is upper-cased as ASCII.\<close>

definition ascii_upper :: "char \<Rightarrow> char" where
  "ascii_upper c = (let n = (of_char c :: nat) in if 97 \<le> n \<and> n \<le> 122 then char_of (n - 32) else c)"

fun credential_error_text :: "credential_error \<Rightarrow> string" where
  "credential_error_text (Not_resolved c e) = ''credential '' @ quoted c @ '': '' @ e"
| "credential_error_text (Same_variable other other_field c field variable) =
     ''credentials '' @ quoted other @ '' (field '' @ quoted other_field @ '') and '' @ quoted c
     @ '' (field '' @ quoted field @ '') would both reach the connector as CREDENTIAL_''
     @ map ascii_upper variable @ '' '' @ em_dash @ '' rename one of the fields''"

text \<open>The credentials in the order first listed, each once.\<close>

fun first_seen :: "string list \<Rightarrow> string list \<Rightarrow> string list" where
  "first_seen seen [] = []"
| "first_seen seen (x # xs) =
     (if x \<in> set seen then first_seen seen xs else x # first_seen (x # seen) xs)"

lemma first_seen_set: "set (first_seen seen xs) = set xs - set seen"
  by (induction xs arbitrary: seen) auto

lemma first_seen_distinct: "distinct (first_seen seen xs)"
  by (induction xs arbitrary: seen) (auto simp: first_seen_set)

definition resolve_one ::
  "(string \<Rightarrow> string + fields) \<Rightarrow> string \<Rightarrow> credential_error + string \<times> fields" where
  "resolve_one resolve_secret c =
     (case resolve_secret c of Inl e \<Rightarrow> Inl (Not_resolved c e) | Inr f \<Rightarrow> Inr (c, f))"

text \<open>How many fields of these credentials become the variable \<open>v\<close>.\<close>

definition holders :: "(string \<Rightarrow> string) \<Rightarrow> (string \<times> fields) list \<Rightarrow> string \<Rightarrow> nat" where
  "holders variable_part resolved v =
     length (filter (\<lambda>f. variable_part f = v) (concat (map (\<lambda>(_, fields). fm_keys fields) resolved)))"

record delivery =
  all_credentials :: fields
  origin :: "(string, string \<times> string) fmap"

definition deliver ::
  "(string \<Rightarrow> string) \<Rightarrow> string \<times> string \<times> string \<times> string \<Rightarrow> delivery \<Rightarrow> credential_error + delivery" where
  "deliver variable_part = (\<lambda>(name, val, c, field) d.
     let variable = variable_part name;
         ok = d\<lparr>origin := fmupd variable (c, field) (origin d),
                all_credentials := fmupd name val (all_credentials d)\<rparr>
     in case fmlookup (origin d) variable of
          Some (other, other_field) \<Rightarrow>
            (if other \<noteq> c \<or> other_field \<noteq> field
             then Inl (Same_variable other other_field c field variable) else Inr ok)
        | None \<Rightarrow> Inr ok)"

text \<open>The names one field of one credential is delivered under.\<close>

definition names_of ::
  "(string \<Rightarrow> string) \<Rightarrow> (string \<Rightarrow> string) \<Rightarrow> (string \<times> fields) list \<Rightarrow> string \<Rightarrow> string \<Rightarrow> string list" where
  "names_of variable_part delivery_id resolved c field =
     (let prefix = delivery_id c @ ''_'';
          variable = variable_part field;
          unshared = holders variable_part resolved variable = 1;
          hand_made = unshared \<and> length variable > length prefix \<and> starts_with variable prefix
      in if hand_made then [field]
         else (prefix @ field) # (if unshared then [field] else []))"

definition deliveries ::
  "(string \<Rightarrow> string) \<Rightarrow> (string \<Rightarrow> string) \<Rightarrow> (string \<times> fields) list
     \<Rightarrow> (string \<times> string \<times> string \<times> string) list" where
  "deliveries variable_part delivery_id resolved =
     concat (map (\<lambda>(c, fields). concat (map
         (\<lambda>field. map (\<lambda>name. (name, the (fmlookup fields field), c, field))
                    (names_of variable_part delivery_id resolved c field))
         (fm_keys fields))) resolved)"

fun deliver_all ::
  "(string \<Rightarrow> string) \<Rightarrow> (string \<times> string \<times> string \<times> string) list \<Rightarrow> delivery \<Rightarrow> credential_error + delivery" where
  "deliver_all variable_part [] d = Inr d"
| "deliver_all variable_part (x # xs) d =
     (case deliver variable_part x d of Inl e \<Rightarrow> Inl e | Inr d \<Rightarrow> deliver_all variable_part xs d)"

definition resolve_credentials ::
  "(string \<Rightarrow> string + fields) \<Rightarrow> (string \<Rightarrow> string) \<Rightarrow> (string \<Rightarrow> string) \<Rightarrow> string list
     \<Rightarrow> credential_error + fields" where
  "resolve_credentials resolve_secret variable_part delivery_id credential_ids =
     (case traverse (resolve_one resolve_secret) (first_seen [] credential_ids) of
        Inl e \<Rightarrow> Inl e
      | Inr resolved \<Rightarrow>
          (case deliver_all variable_part (deliveries variable_part delivery_id resolved)
                  \<lparr>all_credentials = fmempty, origin = fmempty\<rparr> of
             Inl e \<Rightarrow> Inl e
           | Inr d \<Rightarrow> Inr (all_credentials d)))"

section \<open>What is delivered\<close>

text \<open>Every name delivered has an origin, and its value is that field's.\<close>

definition delivery_ok :: "(string \<Rightarrow> string) \<Rightarrow> (string \<Rightarrow> string \<Rightarrow> string option) \<Rightarrow> delivery \<Rightarrow> bool" where
  "delivery_ok variable_part value_of d \<longleftrightarrow>
     (\<forall>name v. fmlookup (all_credentials d) name = Some v \<longrightarrow>
        (\<exists>c field. fmlookup (origin d) (variable_part name) = Some (c, field) \<and> value_of c field = Some v))"

lemma deliver_ok:
  assumes "delivery_ok variable_part value_of d" and "deliver variable_part (name, v, c, field) d = Inr d'"
    and "value_of c field = Some v"
  shows "delivery_ok variable_part value_of d'"
    and "all_credentials d' = fmupd name v (all_credentials d)"
proof -
  have d': "all_credentials d' = fmupd name v (all_credentials d)"
    "origin d' = fmupd (variable_part name) (c, field) (origin d)"
    and old: "fmlookup (origin d) (variable_part name) \<in> {None, Some (c, field)}"
    using assms(2) by (auto simp: deliver_def Let_def split: option.splits if_splits)
  show "all_credentials d' = fmupd name v (all_credentials d)" by (rule d'(1))
  show "delivery_ok variable_part value_of d'"
    unfolding delivery_ok_def
  proof (intro allI impI)
    fix n w assume n: "fmlookup (all_credentials d') n = Some w"
    show "\<exists>c field. fmlookup (origin d') (variable_part n) = Some (c, field) \<and> value_of c field = Some w"
    proof (cases "n = name")
      case True
      with n d' assms(3) show ?thesis by simp
    next
      case False
      with n d'(1) have "fmlookup (all_credentials d) n = Some w" by simp
      then obtain c0 f0 where o': "fmlookup (origin d) (variable_part n) = Some (c0, f0)" "value_of c0 f0 = Some w"
        using assms(1) unfolding delivery_ok_def by blast
      then show ?thesis using old d'(2) by (cases "variable_part n = variable_part name") auto
    qed
  qed
qed

lemma deliver_all_ok:
  assumes "delivery_ok variable_part value_of d" and "deliver_all variable_part xs d = Inr d'"
    and "\<forall>(name, v, c, field) \<in> set xs. value_of c field = Some v"
  shows "delivery_ok variable_part value_of d'
    \<and> (\<forall>name. fmlookup (all_credentials d') name \<noteq> None
          \<longleftrightarrow> name \<in> fst ` set xs \<or> fmlookup (all_credentials d) name \<noteq> None)"
  using assms
proof (induction xs arbitrary: d)
  case (Cons x xs)
  obtain name v c field where x: "x = (name, v, c, field)" by (cases x)
  from Cons.prems(2) x obtain d1 where d1: "deliver variable_part (name, v, c, field) d = Inr d1"
    "deliver_all variable_part xs d1 = Inr d'"
    by (auto split: sum.splits)
  note s = deliver_ok [OF Cons.prems(1) d1(1)]
  have "value_of c field = Some v" using Cons.prems(3) x by simp
  with Cons.IH [OF s(1) d1(2)] Cons.prems(3) s(2) x show ?case by auto
qed simp

lemma resolve_one_Inr: "resolve_one r c = Inr (c', f) \<longleftrightarrow> c' = c \<and> r c = Inr f"
  by (auto simp: resolve_one_def split: sum.splits)

lemma traverse_resolved:
  assumes "traverse (resolve_one r) cs = Inr resolved"
  shows "(c, f) \<in> set resolved \<longleftrightarrow> c \<in> set cs \<and> r c = Inr f"
proof -
  have "list_all2 (\<lambda>c y. resolve_one r c = Inr y) cs resolved"
    using assms by (simp only: traverse_Inr_iff)
  then show ?thesis
    by (induction rule: list_all2_induct) (auto simp: resolve_one_Inr)
qed

text \<open>
  When credentials resolve, two names that reach the script as one variable carry one
  value; nothing is delivered but the listed credentials' fields; every field of every
  listed credential is delivered, under its credential's name or its own; and no listed
  credential was left unresolved.
\<close>

theorem credentials_unambiguous:
  assumes "resolve_credentials resolve_secret variable_part delivery_id ids = Inr creds"
  shows "(\<forall>n1 n2 v1 v2. fmlookup creds n1 = Some v1 \<and> fmlookup creds n2 = Some v2
            \<and> variable_part n1 = variable_part n2 \<longrightarrow> v1 = v2)
    \<and> (\<forall>name v. fmlookup creds name = Some v \<longrightarrow>
         (\<exists>c \<in> set ids. \<exists>f field. resolve_secret c = Inr f \<and> fmlookup f field = Some v))
    \<and> (\<forall>c \<in> set ids. \<forall>f field. resolve_secret c = Inr f \<and> fmlookup f field \<noteq> None \<longrightarrow>
         fmlookup creds (delivery_id c @ ''_'' @ field) \<noteq> None \<or> fmlookup creds field \<noteq> None)
    \<and> (\<forall>c \<in> set ids. \<exists>f. resolve_secret c = Inr f)"
proof -
  obtain resolved d where r: "traverse (resolve_one resolve_secret) (first_seen [] ids) = Inr resolved"
    and d: "deliver_all variable_part (deliveries variable_part delivery_id resolved)
              \<lparr>all_credentials = fmempty, origin = fmempty\<rparr> = Inr d"
    and creds: "creds = all_credentials d"
    using assms by (auto simp: resolve_credentials_def split: sum.splits)
  note res = traverse_resolved [OF r, unfolded first_seen_set, simplified]
  define value_of where "value_of c field = (case resolve_secret c of
      Inr f \<Rightarrow> if c \<in> set ids then fmlookup f field else None | Inl _ \<Rightarrow> None)" for c field
  have "\<forall>(name, v, c, field) \<in> set (deliveries variable_part delivery_id resolved). value_of c field = Some v"
    by (auto simp: deliveries_def value_of_def res fmlookup_fmdom')
  note ok = deliver_all_ok [OF _ d this, simplified]
  have "delivery_ok variable_part value_of \<lparr>all_credentials = fmempty, origin = fmempty\<rparr>"
    by (simp add: delivery_ok_def)
  note ok = ok [OF this]
  have all: "\<forall>c \<in> set ids. \<exists>f. resolve_secret c = Inr f"
  proof
    fix c assume "c \<in> set ids"
    then have "c \<in> set (first_seen [] ids)" by (simp add: first_seen_set)
    moreover have "list_all2 (\<lambda>c y. resolve_one resolve_secret c = Inr y) (first_seen [] ids) resolved"
      using r by (simp only: traverse_Inr_iff)
    ultimately have "\<exists>y. resolve_one resolve_secret c = Inr y" by (auto simp: list_all2_conv_all_nth in_set_conv_nth)
    then show "\<exists>f. resolve_secret c = Inr f" by (auto simp: resolve_one_def split: sum.splits)
  qed
  have some: "fmlookup creds (delivery_id c @ ''_'' @ field) \<noteq> None \<or> fmlookup creds field \<noteq> None"
    if c: "c \<in> set ids" "resolve_secret c = Inr f" "fmlookup f field \<noteq> None" for c f field
  proof -
    obtain name where n: "name \<in> set (names_of variable_part delivery_id resolved c field)"
      "name = delivery_id c @ ''_'' @ field \<or> name = field"
      by (cases "field \<in> set (names_of variable_part delivery_id resolved c field)")
        (auto simp: names_of_def Let_def split: if_splits)
    have "(c, f) \<in> set resolved" using c res by simp
    with n(1) c(3) have "name \<in> fst ` set (deliveries variable_part delivery_id resolved)"
      by (force simp: deliveries_def fmlookup_fmdom')
    then have "fmlookup creds name \<noteq> None" using ok unfolding creds by simp
    with n(2) show ?thesis by blast
  qed
  have same: "v1 = v2" if "fmlookup creds n1 = Some v1" "fmlookup creds n2 = Some v2"
    "variable_part n1 = variable_part n2" for n1 n2 v1 v2
  proof -
    note o' = conjunct1 [OF ok, unfolded delivery_ok_def, rule_format]
    from o' [of n1 v1] that obtain c1 f1 where "fmlookup (origin d) (variable_part n1) = Some (c1, f1)" "value_of c1 f1 = Some v1"
      unfolding creds by blast
    moreover from o' [of n2 v2] that obtain c2 f2 where "fmlookup (origin d) (variable_part n2) = Some (c2, f2)" "value_of c2 f2 = Some v2"
      unfolding creds by blast
    ultimately show ?thesis using that(3) by simp
  qed
  have from_field: "\<exists>c \<in> set ids. \<exists>f field. resolve_secret c = Inr f \<and> fmlookup f field = Some v"
    if "fmlookup creds name = Some v" for name v
  proof -
    from conjunct1 [OF ok, unfolded delivery_ok_def] that obtain c field where "value_of c field = Some v"
      unfolding creds by blast
    then show ?thesis by (auto simp: value_of_def split: sum.splits if_splits)
  qed
  show ?thesis using same from_field some all by blast
qed

theorem credentials_unambiguous_witness:
  "\<exists>creds. resolve_credentials (\<lambda>_. Inr (fmap_of_list [(''token'', ''s3cret'')])) (\<lambda>n. n) (\<lambda>c. c) [''api''] = Inr creds
     \<and> (fmlookup creds ''api_token'' \<noteq> None \<or> fmlookup creds ''token'' \<noteq> None)"
proof -
  let ?r = "\<lambda>_ :: string. Inr (fmap_of_list [(''token'', ''s3cret'')]) :: string + fields"
  have k: "fm_keys (fmap_of_list [(''token'', ''s3cret'')]) = [''token'']"
    by (simp add: fm_keys_def)
  have "\<exists>creds. resolve_credentials ?r (\<lambda>n. n) (\<lambda>c. c) [''api''] = Inr creds"
    by (simp add: resolve_credentials_def resolve_one_def deliveries_def names_of_def holders_def
        deliver_def Let_def k [simplified])
  then obtain creds where c: "resolve_credentials ?r (\<lambda>n. n) (\<lambda>c. c) [''api''] = Inr creds" ..
  have "\<forall>c \<in> set [''api'']. \<forall>f field. ?r c = Inr f \<and> fmlookup f field \<noteq> None \<longrightarrow>
         fmlookup creds (c @ ''_'' @ field) \<noteq> None \<or> fmlookup creds field \<noteq> None"
    using credentials_unambiguous [OF c] by blast
  then have "fmlookup creds (''api'' @ ''_'' @ ''token'') \<noteq> None \<or> fmlookup creds ''token'' \<noteq> None"
    by (simp add: fmlookup_of_list)
  with c show ?thesis by auto
qed

end
