(* ===== verification/Sync.thy ===== *)
theory Sync
  imports Enrich Credentials
begin

text \<open>
  The use case that gathers a source and writes the cache: \<open>src/src/application/sync.rs\<close>. A
  run resolves the hosts and the credentials, calls the connector (a parameter, with its
  timeout), and applies what it returned by the scope and the mode; \<open>sync_source\<close> puts the
  coalescing check before it and the record of the run and the enrichers after it. The
  lemmas say what a full or a scoped run leaves in the entry, that a failed one leaves
  nothing, and what the reserved keys of the script's configuration hold.
\<close>

section \<open>Requests and what a connector returns\<close>

datatype sync_scope = Scope_full | Scope_hosts "string list" | Scope_group string

fun label :: "sync_scope \<Rightarrow> string" where
  "label Scope_full = ''full''"
| "label (Scope_hosts hs) = ''host:'' @ join '','' hs"
| "label (Scope_group g) = ''group:'' @ g"

definition hosts_from_csv :: "string \<Rightarrow> sync_scope option" where
  "hosts_from_csv v = (let hs = csv_items v in if hs \<noteq> [] then Some (Scope_hosts hs) else None)"

definition DEFAULT_REFRESH_DEPTH :: "8 word" where
  "DEFAULT_REFRESH_DEPTH = 3"

record sync_request =
  sr_scope :: sync_scope
  refresh_origin :: bool
  refresh_depth :: "8 word"
  sr_trigger :: "string option"
  sr_run_trigger :: run_trigger
  sr_by :: "string option"

definition plain_request :: "sync_scope \<Rightarrow> sync_request" where
  "plain_request s = \<lparr>sr_scope = s, refresh_origin = False, refresh_depth = 0, sr_trigger = None,
     sr_run_trigger = Manual, sr_by = None\<rparr>"

definition refreshing_origin :: "sync_scope \<Rightarrow> 8 word \<Rightarrow> sync_request" where
  "refreshing_origin s depth = \<lparr>sr_scope = s, refresh_origin = True, refresh_depth = depth,
     sr_trigger = None, sr_run_trigger = Manual, sr_by = None\<rparr>"

definition with_trigger :: "string \<Rightarrow> sync_request \<Rightarrow> sync_request" where
  "with_trigger t r = r\<lparr>sr_trigger := Some t\<rparr>"

definition with_run_trigger :: "run_trigger \<Rightarrow> sync_request \<Rightarrow> sync_request" where
  "with_run_trigger t r = r\<lparr>sr_run_trigger := t\<rparr>"

definition requested_by :: "string \<Rightarrow> sync_request \<Rightarrow> sync_request" where
  "requested_by who r = r\<lparr>sr_by := Some who\<rparr>"

record dataset_ages =
  dataset_age_seconds :: nat
  host_ages :: "(string, nat) fmap"

record connector_output =
  co_dataset :: dataset
  co_ages :: "dataset_ages option"
  co_unreachable :: "string list"
  co_advertised_scope :: "scope_claim option"

definition output_of_dataset :: "dataset \<Rightarrow> connector_output" where
  "output_of_dataset d = \<lparr>co_dataset = d, co_ages = None, co_unreachable = [], co_advertised_scope = None\<rparr>"

section \<open>Writing the cache\<close>

subsection \<open>A host scope\<close>

text \<open>The requested hosts that were returned, in the order asked, each with its age.\<close>

definition reported_age :: "connector_output \<Rightarrow> string \<Rightarrow> nat" where
  "reported_age out h =
     (case Option.bind (co_ages out) (\<lambda>a. fmlookup (host_ages a) h) of Some age \<Rightarrow> age | None \<Rightarrow> 0)"

definition host_updates :: "string list \<Rightarrow> connector_output \<Rightarrow> (string \<times> host_vars \<times> nat) list" where
  "host_updates hs out = List.map_filter
     (\<lambda>h. map_option (\<lambda>vars. (h, vars, reported_age out h)) (fmlookup (hostvars (co_dataset out)) h)) hs"

definition groups_with :: "dataset \<Rightarrow> string \<Rightarrow> string list" where
  "groups_with d h = filter (\<lambda>n. h \<in> set (g_hosts (the (fmlookup (groups d) n)))) (fm_keys (groups d))"

definition memberships :: "dataset \<Rightarrow> (string \<times> host_vars \<times> nat) list \<Rightarrow> (string \<times> string list) list" where
  "memberships d updates = List.map_filter
     (\<lambda>(h, _, _). let gs = groups_with d h in if gs \<noteq> [] then Some (h, gs) else None) updates"

definition claimed_group_vars :: "source \<Rightarrow> dataset \<Rightarrow> (string \<times> string list) list \<Rightarrow> dataset option" where
  "claimed_group_vars src d ms =
     (if s_host_sync_updates_group_vars src
      then Some \<lparr>hostvars = fmempty,
                 groups = fmmap (\<lambda>g. g\<lparr>g_hosts := []\<rparr>)
                   (fm_retain (\<lambda>n g. n \<in> set (concat (map snd ms)) \<and> g_vars g \<noteq> None) (groups d)),
                 remove_hosts = []\<rparr>
      else None)"

definition host_sync_merge ::
  "instant \<Rightarrow> (string \<times> host_vars \<times> nat) list \<Rightarrow> (string \<times> string list) list \<Rightarrow> dataset option
     \<Rightarrow> cache_entry \<Rightarrow> cache_entry" where
  "host_sync_merge now updates ms gv e =
     (let e = fold (\<lambda>(h, vars, age). update_host_aged now h vars age) updates e;
          e = fold (\<lambda>(h, gs). set_host_groups h gs) ms e
      in case gv of Some partial \<Rightarrow> merge_group_var_fields partial e | None \<Rightarrow> e)"

definition cold_fixup ::
  "instant \<Rightarrow> (string \<times> host_vars \<times> nat) list \<Rightarrow> cache_entry \<Rightarrow> cache_entry" where
  "cold_fixup now updates e = mark_partial
     (fold (\<lambda>(h, _, age) e. case fmlookup (hostvars (e_dataset e)) h of
              Some vars \<Rightarrow> update_host_aged now h vars age e | None \<Rightarrow> e) updates e)"

subsection \<open>A full gather that replaces\<close>

definition gathered_entry :: "instant \<Rightarrow> dataset \<Rightarrow> nat \<Rightarrow> dataset_ages option \<Rightarrow> cache_entry" where
  "gathered_entry now d ttl ages =
     (case ages of
        Some a \<Rightarrow> ce_restore now d ttl (dataset_age_seconds a) (host_ages a)
      | None \<Rightarrow> ce_new now d ttl)"

definition retained_hosts :: "instant \<Rightarrow> string list \<Rightarrow> dataset \<Rightarrow> cache_entry \<Rightarrow> retained_host list" where
  "retained_hosts now unreachable d e =
     List.map_filter (capture_host now e) (filter (\<lambda>h. fmlookup (hostvars d) h = None) unreachable)"

definition replace_retaining ::
  "instant \<Rightarrow> nat \<Rightarrow> dataset_ages option \<Rightarrow> string list \<Rightarrow> cache_entry \<Rightarrow> dataset \<Rightarrow> cache_entry" where
  "replace_retaining now ttl ages unreachable e d =
     fold (restore_host now) (retained_hosts now unreachable d e) (gathered_entry now d ttl ages)"

subsection \<open>By scope and mode\<close>

definition apply_to_cache ::
  "instant \<Rightarrow> string \<Rightarrow> source \<Rightarrow> sync_scope \<Rightarrow> connector_output \<Rightarrow> mem_cache \<Rightarrow> mem_cache" where
  "apply_to_cache now sid src scope out c =
     (let d = co_dataset out; ttl = s_ttl_seconds src; occupied = (mc_get c sid \<noteq> None)
      in case scope of
           Scope_hosts hs \<Rightarrow>
             (let updates = host_updates hs out;
                  ms = memberships d updates;
                  gv = claimed_group_vars src d ms
              in if updates = [] then c
                 else let c = mc_merge_or_insert now sid d ttl (\<lambda>e _. host_sync_merge now updates ms gv e) c
                      in if occupied then c else fst (mc_update sid (cold_fixup now updates) c))
         | Scope_group g \<Rightarrow>
             (let c = mc_merge_or_insert now sid d ttl (\<lambda>e new. update_group now g new e) c
              in if occupied then c else fst (mc_update sid mark_partial c))
         | Scope_full \<Rightarrow>
             (case s_sync_mode src of
                Mode_replace \<Rightarrow>
                  (if co_unreachable out = [] then mc_set sid (gathered_entry now d ttl (co_ages out)) c
                   else mc_merge_or_insert now sid d ttl
                          (replace_retaining now ttl (co_ages out) (co_unreachable out)) c)
              | Mode_merge \<Rightarrow>
                  mc_merge_or_insert now sid d ttl (\<lambda>e new. mark_gathered now (merge_dataset now new e)) c))"

section \<open>One run\<close>

datatype sync_error =
    Hosts_source_not_cached string
  | Hosts_source_empty string
  | Spec_not_serialized string
  | Credentials_refused credential_error
  | Sync_timed_out nat
  | Connector_failed string

fun sync_error_text :: "sync_error \<Rightarrow> string" where
  "sync_error_text (Hosts_source_not_cached s) =
     ''hosts_from_source '' @ quoted s @ '' is not in the cache yet '' @ em_dash @ '' sync it first''"
| "sync_error_text (Hosts_source_empty s) =
     ''hosts_from_source '' @ quoted s @ '' resolved to zero hosts (pattern too narrow, or empty source?)''"
| "sync_error_text (Spec_not_serialized e) = ''failed to serialize hosts_spec: '' @ e"
| "sync_error_text (Credentials_refused e) = credential_error_text e"
| "sync_error_text (Sync_timed_out t) = ''sync timed out after '' @ show_nat t @ ''s''"
| "sync_error_text (Connector_failed m) = m"

record sync_outcome =
  so_scope :: string
  so_total_hosts :: nat
  so_total_groups :: nat
  so_duration_ms :: nat
  so_error :: "sync_error option"
  so_coalesced :: bool

definition success :: "sync_outcome \<Rightarrow> bool" where
  "success o' \<longleftrightarrow> so_error o' = None"

definition sync_failed :: "string \<Rightarrow> nat \<Rightarrow> sync_error \<Rightarrow> sync_outcome" where
  "sync_failed scope ms e = \<lparr>so_scope = scope, so_total_hosts = 0, so_total_groups = 0,
     so_duration_ms = ms, so_error = Some e, so_coalesced = False\<rparr>"

text \<open>
  What a run asks of the world: the connector under its timeout, the secrets port, the two
  naming functions of the secrets crate, and the JSON text of a host list.
\<close>

record sync_env =
  se_execute :: "string \<Rightarrow> string list \<Rightarrow> (string, string) fmap \<Rightarrow> fields \<Rightarrow> connector_output run_result"
  se_secret :: "string \<Rightarrow> string + fields"
  se_variable_part :: "string \<Rightarrow> string"
  se_delivery_id :: "string \<Rightarrow> string"
  se_spec_json :: "host_spec list \<Rightarrow> string + string"

definition TARGET_PLACEHOLDER :: string where
  "TARGET_PLACEHOLDER = ''{target}''"

definition args_for_scope :: "source \<Rightarrow> sync_scope \<Rightarrow> string list" where
  "args_for_scope src scope =
     (case scope of
        Scope_hosts hs \<Rightarrow>
          (if s_host_args src \<noteq> []
           then map (\<lambda>arg. str_replace arg TARGET_PLACEHOLDER (join '','' hs)) (s_host_args src)
           else s_script_args src)
      | _ \<Rightarrow> s_script_args src)"

definition REFRESH_ON_READ_CONFIG_KEY :: string where
  "REFRESH_ON_READ_CONFIG_KEY = ''refresh_on_read''"

text \<open>The hosts taken from another source's cached dataset, as text; none for most sources.\<close>

definition hosts_spec :: "sync_env \<Rightarrow> source \<Rightarrow> mem_cache \<Rightarrow> sync_error + string option" where
  "hosts_spec env src c =
     (case s_hosts_from_source src of
        None \<Rightarrow> Inr None
      | Some hfs \<Rightarrow>
          (case mc_get c (hfs_source hfs) of
             None \<Rightarrow> Inl (Hosts_source_not_cached (hfs_source hfs))
           | Some e \<Rightarrow>
               (let (specs, warnings) = hosts_resolve hfs (e_dataset e)
                in if specs = [] then Inl (Hosts_source_empty (hfs_source hfs))
                   else case se_spec_json env specs of
                          Inl err \<Rightarrow> Inl (Spec_not_serialized err)
                        | Inr spec_json \<Rightarrow> Inr (Some spec_json))))"

definition put_opt :: "string \<Rightarrow> string option \<Rightarrow> (string, string) fmap \<Rightarrow> (string, string) fmap" where
  "put_opt k v m = (case v of Some x \<Rightarrow> fmupd k x m | None \<Rightarrow> m)"

definition sync_config :: "source \<Rightarrow> string option \<Rightarrow> sync_request \<Rightarrow> (string, string) fmap" where
  "sync_config src spec req =
     (let config = put_opt ''hosts_spec'' spec (s_config src);
          config = (case sr_scope req of
             Scope_hosts hs \<Rightarrow> fmupd ''target'' (join '','' hs) (fmupd ''scope'' ''host'' config)
           | Scope_group g \<Rightarrow> fmupd ''target'' g (fmupd ''scope'' ''group'' config)
           | Scope_full \<Rightarrow> config);
          config = put_opt ''trigger'' (sr_trigger req) config;
          config = (if refresh_origin req then
              (let config = fmupd ''refresh_depth'' (show_nat (unat (refresh_depth req)))
                              (fmupd ''refresh_origin'' ''true'' config)
               in if sr_run_trigger req = Refresh then fmupd REFRESH_ON_READ_CONFIG_KEY ''true'' config else config)
            else config)
      in if s_connector_type src = CT_ssh then
           (case s_ssh_location src of
              Some l \<Rightarrow> fmupd SSH_LOCATION_CONFIG_KEY (location_name l) config
            | None \<Rightarrow> fmdrop SSH_LOCATION_CONFIG_KEY config)
         else config)"

text \<open>
  A run in its two halves, since other tasks use the cache while the connector runs: up to
  the connector's answer, reading the cache as it was then, and from the answer on.
\<close>

definition sync_call ::
  "sync_env \<Rightarrow> nat \<Rightarrow> source \<Rightarrow> sync_request \<Rightarrow> mem_cache \<Rightarrow> sync_outcome + connector_output run_result" where
  "sync_call env ms src req c =
     (let scope_label = label (sr_scope req)
      in case hosts_spec env src c of
           Inl e \<Rightarrow> Inl (sync_failed scope_label 0 e)
         | Inr spec \<Rightarrow>
             (case resolve_credentials (se_secret env) (se_variable_part env) (se_delivery_id env)
                     (s_credential_ids src) of
                Inl e \<Rightarrow> Inl (sync_failed scope_label ms (Credentials_refused e))
              | Inr creds \<Rightarrow>
                  Inr (se_execute env (s_script_path src) (args_for_scope src (sr_scope req))
                         (sync_config src spec req) creds)))"

definition sync_landed ::
  "instant \<Rightarrow> nat \<Rightarrow> string \<Rightarrow> source \<Rightarrow> sync_request \<Rightarrow> connector_output run_result
     \<Rightarrow> mem_cache \<times> scope_registry \<Rightarrow> (mem_cache \<times> scope_registry) \<times> sync_outcome" where
  "sync_landed now ms sid src req result = (\<lambda>(c, scopes).
     let scope_label = label (sr_scope req)
     in case result of
          Run_timed_out \<Rightarrow> ((c, scopes), sync_failed scope_label ms (Sync_timed_out (s_timeout_seconds src)))
        | Run_failed m \<Rightarrow> ((c, scopes), sync_failed scope_label ms (Connector_failed m))
        | Run_ok out \<Rightarrow>
            (let out = (if sr_scope req = Scope_full
                   then out\<lparr>co_dataset := add_group_members (co_dataset out)\<rparr> else out);
                 scopes = (case co_advertised_scope out of
                   Some claim \<Rightarrow> scope_record sid claim scopes | None \<Rightarrow> scopes)
             in ((apply_to_cache now sid src (sr_scope req) out c, scopes),
                 \<lparr>so_scope = scope_label,
                  so_total_hosts = fcard (fmdom (hostvars (co_dataset out))),
                  so_total_groups = fcard (fmdom (groups (co_dataset out))),
                  so_duration_ms = ms, so_error = None, so_coalesced = False\<rparr>)))"

definition run_sync ::
  "sync_env \<Rightarrow> instant \<Rightarrow> nat \<Rightarrow> string \<Rightarrow> source \<Rightarrow> sync_request
     \<Rightarrow> mem_cache \<times> scope_registry \<Rightarrow> (mem_cache \<times> scope_registry) \<times> sync_outcome" where
  "run_sync env now ms sid src req = (\<lambda>(c, scopes).
     case sync_call env ms src req c of
       Inl outcome \<Rightarrow> ((c, scopes), outcome)
     | Inr result \<Rightarrow> sync_landed now ms sid src req result (c, scopes))"

section \<open>Under the lock of the source\<close>

record sync_state =
  ss_cache :: mem_cache
  ss_scopes :: scope_registry
  ss_health :: health_registry
  ss_enrich_health :: health_registry

definition coalescable :: "sync_request \<Rightarrow> bool" where
  "coalescable req \<longleftrightarrow> sr_scope req = Scope_full \<and> \<not> refresh_origin req"

text \<open>The answer of a request that found the counter moved on while it queued.\<close>

definition coalesced_answer :: "string \<Rightarrow> mem_cache \<Rightarrow> sync_outcome" where
  "coalesced_answer sid c =
     (let (hosts, gs) = (case mc_get c sid of
            Some e \<Rightarrow> (fcard (fmdom (hostvars (e_dataset e))), fcard (fmdom (groups (e_dataset e))))
          | None \<Rightarrow> (0, 0))
      in \<lparr>so_scope = label Scope_full, so_total_hosts = hosts, so_total_groups = gs,
          so_duration_ms = 0, so_error = None, so_coalesced = True\<rparr>)"

text \<open>What follows a run: the record of it, the enrichers, and the counter of full syncs.\<close>

definition after_run ::
  "(enricher_env \<times> (string, enricher) fmap) option \<Rightarrow> instant \<Rightarrow> nat \<Rightarrow> nat \<Rightarrow> string \<Rightarrow> sync_request
     \<Rightarrow> sync_outcome \<Rightarrow> u64 \<times> sync_state \<Rightarrow> u64 \<times> sync_state" where
  "after_run enrichment now ms unix_now sid req outcome = (\<lambda>(n, st).
     let health = (case so_error outcome of
           None \<Rightarrow> record_success now sid (ss_health st)
         | Some e \<Rightarrow> record_failure now sid (sync_error_text e) (ss_health st));
         health = record_run sid
           \<lparr>started_at = unix_now, duration_ms = so_duration_ms outcome, trigger = sr_run_trigger req,
            run_by = sr_by req, run_scope = Some (so_scope outcome),
            run_error = map_option sync_error_text (so_error outcome),
            run_hosts = (if success outcome then Some (so_total_hosts outcome) else None),
            run_groups = (if success outcome then Some (so_total_groups outcome) else None),
            revision_before = None, revision = None\<rparr> health;
         (c, eh) = (case enrichment of
           Some (ee, enrichers) \<Rightarrow>
             (if success outcome
              then fst (run_enrichers_for_target ee now ms enrichers sid (sr_trigger req)
                          (ss_cache st, ss_enrich_health st))
              else (ss_cache st, ss_enrich_health st))
         | None \<Rightarrow> (ss_cache st, ss_enrich_health st))
     in (if coalescable req \<and> success outcome then n + 1 else n,
         st\<lparr>ss_cache := c, ss_health := health, ss_enrich_health := eh\<rparr>))"

text \<open>
  What \<open>sync_source\<close> does once it holds the lock: \<open>before\<close> is the counter of full syncs it
  read before it queued, \<open>n\<close> the counter now. Enrichment is the enricher environment and
  the configured enrichers, when the caller passes them.
\<close>

definition sync_source ::
  "sync_env \<Rightarrow> (enricher_env \<times> (string, enricher) fmap) option \<Rightarrow> instant \<Rightarrow> nat \<Rightarrow> nat
     \<Rightarrow> string \<Rightarrow> source \<Rightarrow> sync_request \<Rightarrow> u64 \<Rightarrow> u64 \<times> sync_state
     \<Rightarrow> (u64 \<times> sync_state) \<times> sync_outcome" where
  "sync_source env enrichment now ms unix_now sid src req before = (\<lambda>(n, st).
     if coalescable req \<and> n \<noteq> before then ((n, st), coalesced_answer sid (ss_cache st))
     else
       (let ((c, scopes), outcome) = run_sync env now ms sid src req (ss_cache st, ss_scopes st)
        in (after_run enrichment now ms unix_now sid req outcome
              (n, st\<lparr>ss_cache := c, ss_scopes := scopes\<rparr>), outcome)))"

section \<open>A full gather that could not reach some hosts\<close>

text \<open>The members of a group of an entry.\<close>

definition members :: "cache_entry \<Rightarrow> string \<Rightarrow> string set" where
  "members e n = (case fmlookup (groups (e_dataset e)) n of Some g \<Rightarrow> set (g_hosts g) | None \<Rightarrow> {})"

lemma gathered_entry_frame [simp]:
  "e_dataset (gathered_entry now d ttl ages) = d" "complete (gathered_entry now d ttl ages)"
  by (simp_all add: gathered_entry_def ce_new_def ce_restore_def split: option.split)

lemma restore_host_frame [simp]:
  "fetched_at (restore_host now r e) = fetched_at e" "complete (restore_host now r e) = complete e"
  "e_ttl (restore_host now r e) = e_ttl e"
  by (simp_all add: restore_host_def update_host_aged_def invalidate_serialized_def Let_def)

lemma captured:
  assumes "capture_host now old h = Some r"
  shows "r_hostname r = h" "fmlookup (hostvars (e_dataset old)) h = Some (r_vars r)"
    "n \<in> set (r_groups r) \<longleftrightarrow> h \<in> members old n"
    "fmlookup (host_timestamps old) h \<noteq> None
       \<Longrightarrow> host_age_seconds now old h = Some (r_age_seconds r) \<and> from_secs (r_age_seconds r) \<le> now"
proof -
  from assms obtain vars where v: "fmlookup (hostvars (e_dataset old)) h = Some vars"
    by (auto simp: capture_host_def split: option.splits)
  with assms have r: "r = \<lparr>r_hostname = h, r_vars = vars,
      r_age_seconds = (case host_age_seconds now old h of Some a \<Rightarrow> a | None \<Rightarrow> 0),
      r_groups = filter (\<lambda>n. h \<in> set (g_hosts (the (fmlookup (groups (e_dataset old)) n))))
                   (fm_keys (groups (e_dataset old)))\<rparr>"
    by (simp add: capture_host_def)
  show "r_hostname r = h" "fmlookup (hostvars (e_dataset old)) h = Some (r_vars r)"
    "n \<in> set (r_groups r) \<longleftrightarrow> h \<in> members old n"
    using v by (auto simp: r members_def fmlookup_dom'_iff split: option.splits)
  assume "fmlookup (host_timestamps old) h \<noteq> None"
  then obtain ts where ts: "fmlookup (host_timestamps old) h = Some ts" by auto
  then have "host_age_seconds now old h = Some (as_secs (elapsed now ts))" by (simp add: host_age_seconds_def)
  with host_age_representable [OF ts this]
  show "host_age_seconds now old h = Some (r_age_seconds r) \<and> from_secs (r_age_seconds r) \<le> now"
    by (simp add: r)
qed

lemma restore_all:
  assumes "\<And>r. r \<in> set rs \<Longrightarrow> capture_host now old (r_hostname r) = Some r"
    and "\<And>r. r \<in> set rs \<Longrightarrow> fmlookup (host_timestamps old) (r_hostname r) \<noteq> None"
  shows "fmlookup (hostvars (e_dataset (fold (restore_host now) rs e))) h =
      (if h \<in> r_hostname ` set rs then fmlookup (hostvars (e_dataset old)) h
       else fmlookup (hostvars (e_dataset e)) h)"
    and "host_age_seconds now (fold (restore_host now) rs e) h =
      (if h \<in> r_hostname ` set rs then host_age_seconds now old h else host_age_seconds now e h)"
    and "members (fold (restore_host now) rs e) n =
      members e n \<union> {h \<in> r_hostname ` set rs. h \<in> members old n}"
    and "complete (fold (restore_host now) rs e) = complete e"
    and "fetched_at (fold (restore_host now) rs e) = fetched_at e"
    and "e_ttl (fold (restore_host now) rs e) = e_ttl e"
  using assms
proof (induction rs rule: rev_induct)
  case (snoc r rs)
  {
    case 1
    have "fmlookup (hostvars (e_dataset old)) (r_hostname r) = Some (r_vars r)"
      using captured(2) [OF 1(1), of r] by simp
    with snoc(1) 1 show ?case by (cases "h = r_hostname r") (simp_all add: restore_host_hostvars)
  next
    case 2
    from captured(4) [OF 2(1), of r] 2(2) [of r]
    have "host_age_seconds now old (r_hostname r) = Some (r_age_seconds r)" "from_secs (r_age_seconds r) \<le> now"
      by simp_all
    with snoc(2) 2 show ?case
      by (cases "h = r_hostname r") (simp_all add: restore_host_age host_age_update)
  next
    case 3
    have "members (restore_host now r e') n = (if n \<in> set (r_groups r) then insert (r_hostname r) (members e' n)
        else members e' n)" for e'
      by (auto simp: members_def restore_host_groups group_default_def split: option.splits)
    moreover have "n \<in> set (r_groups r) \<longleftrightarrow> r_hostname r \<in> members old n"
      using captured(3) [OF 3(1), of r n] by simp
    ultimately show ?case using snoc(3) 3 by auto
  next
    case 4 then show ?case using snoc(4) by simp
  next
    case 5 then show ?case using snoc(5) by simp
  next
    case 6 then show ?case using snoc(6) by simp
  }
qed simp_all

lemma retained_hosts_set:
  "r \<in> set (retained_hosts now u d e) \<longleftrightarrow>
     r_hostname r \<in> set u \<and> fmlookup (hostvars d) (r_hostname r) = None
     \<and> capture_host now e (r_hostname r) = Some r"
  by (auto simp: retained_hosts_def set_map_filter captured(1))

lemma retained_names:
  "r_hostname ` set (retained_hosts now u d e) =
     {h \<in> set u. fmlookup (hostvars d) h = None \<and> fmlookup (hostvars (e_dataset e)) h \<noteq> None}"
  (is "?l = ?r")
proof
  show "?l \<subseteq> ?r" using captured(2) by (auto simp: retained_hosts_set)
  show "?r \<subseteq> ?l"
  proof
    fix h assume h: "h \<in> ?r"
    then obtain r where r: "capture_host now e h = Some r" by (auto simp: capture_host_def)
    with h captured(1) [OF r] have "r \<in> set (retained_hosts now u d e)" by (simp add: retained_hosts_set)
    with captured(1) [OF r] show "h \<in> ?l" by force
  qed
qed

lemma set_ttl_frame [simp]:
  "e_dataset (set_ttl t e) = e_dataset e" "host_timestamps (set_ttl t e) = host_timestamps e"
  "host_age_seconds now (set_ttl t e) h = host_age_seconds now e h" "members (set_ttl t e) n = members e n"
  "stamped (set_ttl t e) = stamped e"
  by (simp_all add: set_ttl_def host_age_seconds_def members_def stamped_def)

text \<open>
  C1. A full gather in replace mode, some of whose hosts could not be reached: afterwards the
  entry holds exactly the hosts gathered, with the variables gathered, and those the entry
  had that could not be reached and were not gathered, with the variables, the age and the
  groups they had; a host no longer listed is gone. The entry is complete, it is as old as
  the gather, and no other entry changes.
\<close>

theorem full_replace_retains:
  assumes "s_sync_mode src = Mode_replace" and "co_unreachable out \<noteq> []"
    and "mc_get c sid = Some old" and "stamped old"
  shows "\<exists>e'. mc_get (apply_to_cache now sid src Scope_full out c) sid = Some e'
    \<and> (\<forall>h. fmlookup (hostvars (e_dataset e')) h =
          (case fmlookup (hostvars (co_dataset out)) h of
             Some v \<Rightarrow> Some v
           | None \<Rightarrow> if h \<in> set (co_unreachable out) then fmlookup (hostvars (e_dataset old)) h else None))
    \<and> (\<forall>h. host_age_seconds now e' h =
          (if fmlookup (hostvars (co_dataset out)) h = None \<and> fmlookup (hostvars (e_dataset old)) h \<noteq> None
              \<and> h \<in> set (co_unreachable out)
           then host_age_seconds now old h
           else host_age_seconds now (gathered_entry now (co_dataset out) (s_ttl_seconds src) (co_ages out)) h))
    \<and> (\<forall>n. members e' n =
          (case fmlookup (groups (co_dataset out)) n of Some g \<Rightarrow> set (g_hosts g) | None \<Rightarrow> {})
          \<union> {h \<in> set (co_unreachable out). fmlookup (hostvars (co_dataset out)) h = None
               \<and> fmlookup (hostvars (e_dataset old)) h \<noteq> None \<and> h \<in> members old n})
    \<and> complete e'
    \<and> fetched_at e' = fetched_at (gathered_entry now (co_dataset out) (s_ttl_seconds src) (co_ages out))
    \<and> (\<forall>k. k \<noteq> sid \<longrightarrow> mc_get (apply_to_cache now sid src Scope_full out c) k = mc_get c k)"
proof -
  let ?d = "co_dataset out" and ?u = "co_unreachable out"
  let ?base = "gathered_entry now ?d (s_ttl_seconds src) (co_ages out)"
  let ?old = "set_ttl (s_ttl_seconds src) old"
  let ?rs = "retained_hosts now ?u ?d ?old"
  let ?e = "fold (restore_host now) ?rs ?base"
  have get: "mc_get (apply_to_cache now sid src Scope_full out c) k = (if k = sid then Some ?e else mc_get c k)" for k
    using assms by (simp add: apply_to_cache_def Let_def cache_simps replace_retaining_def)
  have cap: "capture_host now ?old (r_hostname r) = Some r" if "r \<in> set ?rs" for r
    using that by (simp add: retained_hosts_set)
  have clk: "fmlookup (host_timestamps ?old) (r_hostname r) \<noteq> None" if "r \<in> set ?rs" for r
  proof -
    from captured(2) [OF cap [OF that]] have "fmlookup (hostvars (e_dataset old)) (r_hostname r) \<noteq> None" by simp
    with assms(4) show ?thesis by (simp add: stamped_iff)
  qed
  note all = restore_all [OF cap clk, of ?rs, simplified, unfolded retained_names]
  show ?thesis
  proof (intro exI [of _ ?e] conjI allI impI)
    show "mc_get (apply_to_cache now sid src Scope_full out c) sid = Some ?e" by (simp add: get)
    show "mc_get (apply_to_cache now sid src Scope_full out c) k = mc_get c k" if "k \<noteq> sid" for k
      using that by (simp add: get)
    show "fmlookup (hostvars (e_dataset ?e)) h = (case fmlookup (hostvars ?d) h of Some v \<Rightarrow> Some v
        | None \<Rightarrow> if h \<in> set ?u then fmlookup (hostvars (e_dataset old)) h else None)" for h
      by (cases "fmlookup (hostvars ?d) h") (auto simp: all(1))
    show "host_age_seconds now ?e h = (if fmlookup (hostvars ?d) h = None \<and> fmlookup (hostvars (e_dataset old)) h \<noteq> None
          \<and> h \<in> set ?u then host_age_seconds now old h else host_age_seconds now ?base h)" for h
      by (auto simp: all(2))
    have "members ?base n = (case fmlookup (groups ?d) n of Some g \<Rightarrow> set (g_hosts g) | None \<Rightarrow> {})" for n
      by (simp add: members_def)
    then show "members ?e n = (case fmlookup (groups ?d) n of Some g \<Rightarrow> set (g_hosts g) | None \<Rightarrow> {})
        \<union> {h \<in> set ?u. fmlookup (hostvars ?d) h = None \<and> fmlookup (hostvars (e_dataset old)) h \<noteq> None
            \<and> h \<in> members old n}" for n
      by (auto simp: all(3))
    show "complete ?e" "fetched_at ?e = fetched_at ?base" by (simp_all add: all(4,5))
  qed
qed

definition vm_cache :: mem_cache where
  "vm_cache = mc_set ''vm'' (ce_new 0 sample_dataset 60) mc_new"

lemma vm_cache_get: "mc_get vm_cache ''vm'' = Some (ce_new 0 sample_dataset 60)"
  by (simp add: vm_cache_def cache_simps)

theorem full_replace_retains_witness:
  "let out = \<lparr>co_dataset = empty_dataset, co_ages = None, co_unreachable = [''web1''], co_advertised_scope = None\<rparr>
   in \<exists>e'. mc_get (apply_to_cache 5 ''vm'' sample_source Scope_full out vm_cache) ''vm'' = Some e'
        \<and> fmlookup (hostvars (e_dataset e')) ''web1'' = fmlookup (hostvars sample_dataset) ''web1''
        \<and> fmlookup (hostvars (e_dataset e')) ''db1'' = None"
proof -
  let ?out = "\<lparr>co_dataset = empty_dataset, co_ages = None, co_unreachable = [''web1''], co_advertised_scope = None\<rparr>"
  have m: "s_sync_mode sample_source = Mode_replace" and u: "co_unreachable ?out \<noteq> []"
    by (simp_all add: sample_source_def)
  obtain e' where e: "mc_get (apply_to_cache 5 ''vm'' sample_source Scope_full ?out vm_cache) ''vm'' = Some e'"
    "\<forall>h. fmlookup (hostvars (e_dataset e')) h =
          (case fmlookup (hostvars (co_dataset ?out)) h of
             Some v \<Rightarrow> Some v
           | None \<Rightarrow> if h \<in> set (co_unreachable ?out)
               then fmlookup (hostvars (e_dataset (ce_new 0 sample_dataset 60))) h else None)"
    using full_replace_retains [where now = 5, OF m u vm_cache_get stamped_new]
    by (elim exE conjE) (rule that; assumption)
  have "fmlookup (hostvars (e_dataset e')) ''web1'' = fmlookup (hostvars sample_dataset) ''web1''"
    "fmlookup (hostvars (e_dataset e')) ''db1'' = None"
    using e(2) by (simp_all add: empty_dataset_def ce_new_def)
  with e(1) show ?thesis unfolding Let_def by blast
qed

section \<open>A scoped sync\<close>

lemma update_host_aged_frame [simp]:
  "complete (update_host_aged now h v a e) = complete e"
  "fetched_at (update_host_aged now h v a e) = fetched_at e"
  "members (update_host_aged now h v a e) n = members e n"
  by (simp_all add: update_host_aged_def invalidate_serialized_def Let_def members_def)

lemma update_names:
  fixes now V A xs
  defines "f \<equiv> fold (\<lambda>h. update_host_aged now h (V h) (A h)) xs"
  shows "fmlookup (hostvars (e_dataset (f e))) h =
      (if h \<in> set xs then Some (V h) else fmlookup (hostvars (e_dataset e)) h)"
    and "fmlookup (host_timestamps (f e)) h =
      (if h \<in> set xs then Some (if from_secs (A h) \<le> now then now - from_secs (A h) else now)
       else fmlookup (host_timestamps e) h)"
    and "complete (f e) = complete e" and "fetched_at (f e) = fetched_at e"
    and "members (f e) n = members e n"
  unfolding f_def
  by (induction xs rule: rev_induct) (auto simp: update_host_aged_hostvars update_host_aged_clocks)

lemma fold_updates:
  assumes "list_all (\<lambda>(h, v, a). v = V h \<and> a = A h) ups"
  shows "fold (\<lambda>(h, vars, age). update_host_aged now h vars age) ups e
       = fold (\<lambda>h. update_host_aged now h (V h) (A h)) (map fst ups) e"
  using assms by (induction ups arbitrary: e) auto

lemma set_host_groups_frame [simp]:
  "hostvars (e_dataset (set_host_groups h names e)) = hostvars (e_dataset e)"
  "host_timestamps (set_host_groups h names e) = host_timestamps e"
  "complete (set_host_groups h names e) = complete e" "fetched_at (set_host_groups h names e) = fetched_at e"
  by (simp_all add: set_host_groups_def invalidate_serialized_def Let_def)

lemma set_host_groups_members:
  "members (set_host_groups h names e) n =
     (if is_meta_group n then members e n
      else members e n - {h} \<union> (if n \<in> set names then {h} else {}))"
  by (auto simp: members_def set_host_groups_lookup drop_host_def push_host_def group_default_def
      split: option.splits)

lemma place_names:
  fixes G xs
  defines "f \<equiv> fold (\<lambda>h. set_host_groups h (G h)) xs"
  shows "hostvars (e_dataset (f e)) = hostvars (e_dataset e)"
    and "host_timestamps (f e) = host_timestamps e"
    and "complete (f e) = complete e" and "fetched_at (f e) = fetched_at e"
    and "members (f e) n =
      (if is_meta_group n then members e n
       else members e n - set xs \<union> {h \<in> set xs. n \<in> set (G h)})"
proof -
  show "members (f e) n = (if is_meta_group n then members e n
       else members e n - set xs \<union> {h \<in> set xs. n \<in> set (G h)})"
    unfolding f_def
  proof (induction xs rule: rev_induct)
    case (snoc x xs)
    then show ?case by (cases "n \<in> set (G x)") (auto simp: set_host_groups_members)
  qed simp
qed (unfold f_def, (induction xs rule: rev_induct, simp_all)+)

lemma fold_places:
  assumes "list_all (\<lambda>(h, gs). gs = G h) ms"
  shows "fold (\<lambda>(h, gs). set_host_groups h gs) ms e = fold (\<lambda>h. set_host_groups h (G h)) (map fst ms) e"
  using assms by (induction ms arbitrary: e) auto

lemma host_updates_set:
  "(h, v, a) \<in> set (host_updates hs out) \<longleftrightarrow>
     h \<in> set hs \<and> fmlookup (hostvars (co_dataset out)) h = Some v \<and> a = reported_age out h"
  by (auto simp: host_updates_def set_map_filter)

lemma host_updates_names:
  "fst ` set (host_updates hs out) = {h \<in> set hs. fmlookup (hostvars (co_dataset out)) h \<noteq> None}"
proof (rule set_eqI)
  fix h
  have "h \<in> fst ` S \<longleftrightarrow> (\<exists>v a. (h, v, a) \<in> S)" for S :: "(string \<times> host_vars \<times> nat) set" by force
  then show "h \<in> fst ` set (host_updates hs out)
      \<longleftrightarrow> h \<in> {h \<in> set hs. fmlookup (hostvars (co_dataset out)) h \<noteq> None}"
    by (simp add: host_updates_set)
qed

lemma memberships_set:
  "(h, gs) \<in> set (memberships d ups) \<longleftrightarrow> h \<in> fst ` set ups \<and> gs = groups_with d h \<and> gs \<noteq> []"
  by (force simp: memberships_def set_map_filter Let_def split: if_splits)

lemma memberships_names:
  "set (map fst (memberships d ups)) = {h \<in> fst ` set ups. groups_with d h \<noteq> []}"
proof (rule set_eqI)
  fix h
  have "h \<in> set (map fst S) \<longleftrightarrow> (\<exists>gs. (h, gs) \<in> set S)" for S :: "(string \<times> string list) list" by force
  then show "h \<in> set (map fst (memberships d ups)) \<longleftrightarrow> h \<in> {h \<in> fst ` set ups. groups_with d h \<noteq> []}"
    by (simp only: memberships_set) blast
qed

lemma groups_with_iff:
  "n \<in> set (groups_with d h) \<longleftrightarrow> (\<exists>g. fmlookup (groups d) n = Some g \<and> h \<in> set (g_hosts g))"
  by (auto simp: groups_with_def fmlookup_dom'_iff)

lemma merge_group_vars_members:
  assumes "\<And>n g. fmlookup (groups p) n = Some g \<Longrightarrow> g_hosts g = []"
  shows "members (merge_group_var_fields p e) n = members e n"
proof (cases "Option.bind (fmlookup (groups p) n) (\<lambda>g. map_option (\<lambda>v. (g, v)) (g_vars g))")
  case (Some gv)
  then obtain g vars where g: "gv = (g, vars)" "fmlookup (groups p) n = Some g"
    by (auto simp: bind_eq_Some_conv)
  with Some assms [OF g(2)] show ?thesis
    by (simp add: members_def merge_group_var_fields_lookup split: option.split)
qed (simp add: members_def merge_group_var_fields_lookup)

lemma host_sync_entry_clocks:
  assumes "mc_get c sid = Some old"
  shows "\<exists>e'. mc_get (apply_to_cache now sid src (Scope_hosts hs) out c) sid = Some e'
    \<and> (\<forall>h v. h \<in> set hs \<and> fmlookup (hostvars (co_dataset out)) h = Some v \<longrightarrow>
          fmlookup (hostvars (e_dataset e')) h = Some v
          \<and> fmlookup (host_timestamps e') h =
              Some (if from_secs (reported_age out h) \<le> now then now - from_secs (reported_age out h) else now)
          \<and> (\<forall>n. \<not> is_meta_group n \<longrightarrow>
               (h \<in> members e' n \<longleftrightarrow>
                 (if groups_with (co_dataset out) h = [] then h \<in> members old n
                  else n \<in> set (groups_with (co_dataset out) h)))))
    \<and> (\<forall>h. h \<notin> set hs \<or> fmlookup (hostvars (co_dataset out)) h = None \<longrightarrow>
          fmlookup (hostvars (e_dataset e')) h = fmlookup (hostvars (e_dataset old)) h
          \<and> fmlookup (host_timestamps e') h = fmlookup (host_timestamps old) h
          \<and> (\<forall>n. h \<in> members e' n \<longleftrightarrow> h \<in> members old n))
    \<and> complete e' = complete old \<and> fetched_at e' = fetched_at old
    \<and> (\<forall>k. k \<noteq> sid \<longrightarrow> mc_get (apply_to_cache now sid src (Scope_hosts hs) out c) k = mc_get c k)"
proof -
  let ?d = "co_dataset out" and ?ups = "host_updates hs out"
  let ?ms = "memberships ?d ?ups" and ?old = "set_ttl (s_ttl_seconds src) old"
  let ?gv = "claimed_group_vars src ?d ?ms"
  let ?u = "fold (\<lambda>(h, vars, age). update_host_aged now h vars age) ?ups ?old"
  let ?p = "fold (\<lambda>(h, gs). set_host_groups h gs) ?ms ?u"
  let ?e = "host_sync_merge now ?ups ?ms ?gv ?old"
  let ?R = "{h \<in> set hs. fmlookup (hostvars ?d) h \<noteq> None}"
  have V: "list_all (\<lambda>(h, v, a). v = the (fmlookup (hostvars ?d) h) \<and> a = reported_age out h) ?ups"
    by (auto simp: list_all_iff host_updates_set)
  have G: "list_all (\<lambda>(h, gs). gs = groups_with ?d h) ?ms"
    by (auto simp: list_all_iff memberships_set)
  have un: "set (map fst ?ups) = ?R" using host_updates_names [of hs out] by simp
  have "?u = fold (\<lambda>h. update_host_aged now h (the (fmlookup (hostvars ?d) h)) (reported_age out h)) (map fst ?ups) ?old"
    using V by (rule fold_updates)
  note u = update_names [where V = "\<lambda>h. the (fmlookup (hostvars ?d) h)" and A = "reported_age out" and xs = "map fst ?ups"
      and now = now and e = ?old, folded this, unfolded un]
  have mn: "set (map fst ?ms) = {h \<in> ?R. groups_with ?d h \<noteq> []}"
    by (simp only: memberships_names host_updates_names)
  have "?p = fold (\<lambda>h. set_host_groups h (groups_with ?d h)) (map fst ?ms) ?u"
    using G by (rule fold_places)
  note p = place_names [where G = "groups_with ?d" and xs = "map fst ?ms" and e = ?u, folded this, unfolded mn]
  have e: "hostvars (e_dataset ?e) = hostvars (e_dataset ?p)" "host_timestamps ?e = host_timestamps ?p"
    "complete ?e = complete ?p" "fetched_at ?e = fetched_at ?p"
    by (simp_all add: host_sync_merge_def Let_def split: option.split)
  have em: "members ?e n = members ?p n" for n
  proof (cases ?gv)
    case (Some q)
    then have "fmlookup (groups q) n = Some g \<Longrightarrow> g_hosts g = []" for n g
      by (auto simp: claimed_group_vars_def split: if_splits)
    then show ?thesis
      using Some by (simp add: host_sync_merge_def Let_def merge_group_vars_members)
  qed (simp add: host_sync_merge_def Let_def)
  have hv: "fmlookup (hostvars (e_dataset ?e)) h =
      (if h \<in> ?R then fmlookup (hostvars ?d) h else fmlookup (hostvars (e_dataset old)) h)" for h
    unfolding e p(1) u(1) by auto
  have ts: "fmlookup (host_timestamps ?e) h =
      (if h \<in> ?R then Some (if from_secs (reported_age out h) \<le> now then now - from_secs (reported_age out h) else now)
       else fmlookup (host_timestamps old) h)" for h
    unfolding e p(2) u(2) set_ttl_frame by (rule refl)
  have mm: "members ?e n = (if is_meta_group n then members old n
      else members old n - {h \<in> ?R. groups_with ?d h \<noteq> []}
           \<union> {h \<in> ?R. groups_with ?d h \<noteq> [] \<and> n \<in> set (groups_with ?d h)})" for n
    unfolding em p(5) u(5) by auto
  have fr: "complete ?e = complete old" "fetched_at ?e = fetched_at old"
    unfolding e p(3,4) u(3,4) by (simp_all add: set_ttl_def)
  have asked: "fmlookup (hostvars (e_dataset ?e)) h = Some v
      \<and> fmlookup (host_timestamps ?e) h =
          Some (if from_secs (reported_age out h) \<le> now then now - from_secs (reported_age out h) else now)
      \<and> (\<forall>n. \<not> is_meta_group n \<longrightarrow> (h \<in> members ?e n \<longleftrightarrow>
            (if groups_with ?d h = [] then h \<in> members old n else n \<in> set (groups_with ?d h))))"
    if "h \<in> set hs \<and> fmlookup (hostvars ?d) h = Some v" for h v
    using that by (auto simp: hv ts mm)
  have other: "fmlookup (hostvars (e_dataset ?e)) h = fmlookup (hostvars (e_dataset old)) h
      \<and> fmlookup (host_timestamps ?e) h = fmlookup (host_timestamps old) h
      \<and> (\<forall>n. h \<in> members ?e n \<longleftrightarrow> h \<in> members old n)"
    if "h \<notin> set hs \<or> fmlookup (hostvars ?d) h = None" for h
  proof -
    from that have nR: "h \<notin> ?R" by auto
    have "h \<in> members ?e n \<longleftrightarrow> h \<in> members old n" for n
      unfolding mm using nR by (cases "is_meta_group n") (simp only: if_True, simp only: if_False, blast)
    then show ?thesis by (simp only: hv ts if_not_P [OF nR] simp_thms)
  qed
  show ?thesis
  proof (cases "?ups = []")
    case True
    then have "?R = {}" using host_updates_names [of hs out] by simp
    with True assms show ?thesis by (auto simp: apply_to_cache_def Let_def)
  next
    case False
    have get: "mc_get (apply_to_cache now sid src (Scope_hosts hs) out c) k = (if k = sid then Some ?e else mc_get c k)" for k
      using assms False by (simp add: apply_to_cache_def Let_def cache_simps)
    show ?thesis
      using asked other by (intro exI [of _ ?e] conjI) (simp add: get, blast, blast, simp_all add: get fr)
  qed
qed

lemma host_sync_on_entry:
  assumes "mc_get c sid = Some old"
  shows "\<exists>e'. mc_get (apply_to_cache now sid src (Scope_hosts hs) out c) sid = Some e'
    \<and> (\<forall>h v. h \<in> set hs \<and> fmlookup (hostvars (co_dataset out)) h = Some v \<longrightarrow>
          fmlookup (hostvars (e_dataset e')) h = Some v
          \<and> host_age_seconds now e' h =
              Some (if from_secs (reported_age out h) \<le> now then reported_age out h else 0)
          \<and> (\<forall>n. \<not> is_meta_group n \<longrightarrow>
               (h \<in> members e' n \<longleftrightarrow>
                 (if groups_with (co_dataset out) h = [] then h \<in> members old n
                  else n \<in> set (groups_with (co_dataset out) h)))))
    \<and> (\<forall>h. h \<notin> set hs \<or> fmlookup (hostvars (co_dataset out)) h = None \<longrightarrow>
          fmlookup (hostvars (e_dataset e')) h = fmlookup (hostvars (e_dataset old)) h
          \<and> fmlookup (host_timestamps e') h = fmlookup (host_timestamps old) h
          \<and> (\<forall>n. h \<in> members e' n \<longleftrightarrow> h \<in> members old n))
    \<and> complete e' = complete old \<and> fetched_at e' = fetched_at old
    \<and> (\<forall>k. k \<noteq> sid \<longrightarrow> mc_get (apply_to_cache now sid src (Scope_hosts hs) out c) k = mc_get c k)"
proof -
  have "host_age_seconds now e h = Some (if from_secs a \<le> now then a else 0)"
    if "fmlookup (host_timestamps e) h = Some (if from_secs a \<le> now then now - from_secs a else now)" for e h a
    using that by (simp add: host_age_seconds_def elapsed_def as_secs_def from_secs_def)
  then show ?thesis using host_sync_entry_clocks [OF assms, of now src hs out] by (elim exE conjE) (rule exI, intro conjI; blast)
qed

text \<open>
  A sync of named hosts on an entry that is there: a host that was asked for and returned
  has the variables returned and the age the connector reports (or zero where the clock
  cannot go back so far), and is in exactly the ordinary groups the connector places it in,
  if it places it in any; every other host, asked for or not, keeps its variables, its clock
  and its groups. The entry's own clock and completeness stay as they were, and no other
  entry changes.
\<close>

theorem host_sync_touches_returned:
  assumes "mc_get c sid = Some old"
  shows "\<exists>e'. mc_get (apply_to_cache now sid src (Scope_hosts hs) out c) sid = Some e'
    \<and> (\<forall>h v. h \<in> set hs \<and> fmlookup (hostvars (co_dataset out)) h = Some v \<longrightarrow>
          fmlookup (hostvars (e_dataset e')) h = Some v
          \<and> host_age_seconds now e' h =
              Some (if from_secs (reported_age out h) \<le> now then reported_age out h else 0)
          \<and> (\<forall>n. \<not> is_meta_group n \<longrightarrow>
               (h \<in> members e' n \<longleftrightarrow>
                 (if groups_with (co_dataset out) h = [] then h \<in> members old n
                  else n \<in> set (groups_with (co_dataset out) h)))))
    \<and> (\<forall>h. h \<notin> set hs \<or> fmlookup (hostvars (co_dataset out)) h = None \<longrightarrow>
          fmlookup (hostvars (e_dataset e')) h = fmlookup (hostvars (e_dataset old)) h
          \<and> fmlookup (host_timestamps e') h = fmlookup (host_timestamps old) h
          \<and> (\<forall>n. h \<in> members e' n \<longleftrightarrow> h \<in> members old n))
    \<and> complete e' = complete old \<and> fetched_at e' = fetched_at old
    \<and> (\<forall>k. k \<noteq> sid \<longrightarrow> mc_get (apply_to_cache now sid src (Scope_hosts hs) out c) k = mc_get c k)"
  using assms by (rule host_sync_on_entry)

theorem host_sync_touches_returned_witness:
  "let out = output_of_dataset (sample_dataset\<lparr>groups := fmempty\<rparr>)
   in \<exists>e'. mc_get (apply_to_cache 5 ''vm'' sample_source (Scope_hosts [''web1'']) out vm_cache) ''vm'' = Some e'
        \<and> fmlookup (hostvars (e_dataset e')) ''web1'' = Some (fmap_of_list [(''ansible_host'', JStr ''10.0.0.1'')])"
proof -
  let ?out = "output_of_dataset (sample_dataset\<lparr>groups := fmempty\<rparr>)"
  let ?v = "fmap_of_list [(''ansible_host'', JStr ''10.0.0.1'')]"
  obtain e' where e: "mc_get (apply_to_cache 5 ''vm'' sample_source (Scope_hosts [''web1'']) ?out vm_cache) ''vm'' = Some e'"
    "\<forall>h v. h \<in> set [''web1''] \<and> fmlookup (hostvars (co_dataset ?out)) h = Some v \<longrightarrow>
          fmlookup (hostvars (e_dataset e')) h = Some v
          \<and> host_age_seconds 5 e' h =
              Some (if from_secs (reported_age ?out h) \<le> 5 then reported_age ?out h else 0)
          \<and> (\<forall>n. \<not> is_meta_group n \<longrightarrow>
               (h \<in> members e' n \<longleftrightarrow>
                 (if groups_with (co_dataset ?out) h = [] then h \<in> members (ce_new 0 sample_dataset 60) n
                  else n \<in> set (groups_with (co_dataset ?out) h))))"
    using host_sync_touches_returned [OF vm_cache_get, of 5 sample_source "[''web1'']" ?out] by (elim exE conjE) (rule that; assumption)
  have "fmlookup (hostvars (co_dataset ?out)) ''web1'' = Some ?v"
    by (simp add: output_of_dataset_def sample_dataset_def fmlookup_of_list)
  with e(2) have "fmlookup (hostvars (e_dataset e')) ''web1'' = Some ?v" by simp
  with e(1) show ?thesis unfolding Let_def by blast
qed

section \<open>A scoped sync of an entry that is not there\<close>

lemma cold_fixup_frame:
  "hostvars (e_dataset (cold_fixup now ups e)) = hostvars (e_dataset e)"
  "groups (e_dataset (cold_fixup now ups e)) = groups (e_dataset e)" "\<not> complete (cold_fixup now ups e)"
proof -
  let ?f = "\<lambda>(h, _, age) e. case fmlookup (hostvars (e_dataset e)) h of
              Some vars \<Rightarrow> update_host_aged now h vars age e | None \<Rightarrow> e"
  have "hostvars (e_dataset (fold ?f ups e)) = hostvars (e_dataset e) \<and> groups (e_dataset (fold ?f ups e)) = groups (e_dataset e)"
  proof (induction ups arbitrary: e)
    case (Cons u ups)
    obtain h v age where u: "u = (h, v, age)" by (cases u)
    show ?case
    proof (cases "fmlookup (hostvars (e_dataset e)) h")
      case (Some vars)
      then have "fmupd h vars (hostvars (e_dataset e)) = hostvars (e_dataset e)" by (intro fmap_ext) auto
      with Some Cons [of "update_host_aged now h vars age e"] u show ?thesis
        by (simp add: update_host_aged_hostvars)
    qed (use u Cons in simp)
  qed simp
  then show "hostvars (e_dataset (cold_fixup now ups e)) = hostvars (e_dataset e)"
    "groups (e_dataset (cold_fixup now ups e)) = groups (e_dataset e)" "\<not> complete (cold_fixup now ups e)"
    by (simp_all add: cold_fixup_def mark_partial_def)
qed

text \<open>
  A scoped sync never passes for a gather of the source: on an entry that is there it
  leaves its completeness and its clock as they were, and one it creates is not complete, so
  no dataset that only a scoped sync has written is ever fresh.
\<close>

theorem scoped_sync_never_gathers:
  assumes "scope \<noteq> Scope_full"
    and "mc_get (apply_to_cache now sid src scope out c) sid = Some e'"
  shows "case mc_get c sid of
      Some old \<Rightarrow> complete e' = complete old \<and> fetched_at e' = fetched_at old
    | None \<Rightarrow> \<not> complete e' \<and> \<not> is_fresh later e'"
proof (cases "mc_get c sid")
  case None
  have "\<not> complete e'"
  proof (cases scope)
    case (Scope_hosts hs)
    with None assms(2) show ?thesis
      by (simp add: apply_to_cache_def Let_def cache_simps split: if_splits) (auto simp: cold_fixup_frame)
  next
    case (Scope_group g)
    with None assms(2) show ?thesis
      by (auto simp: apply_to_cache_def Let_def cache_simps mark_partial_def)
  qed (use assms in simp)
  with None show ?thesis by (simp add: is_fresh_def)
next
  case (Some old)
  show ?thesis
  proof (cases scope)
    case (Scope_hosts hs)
    obtain e where e: "mc_get (apply_to_cache now sid src (Scope_hosts hs) out c) sid = Some e"
      "complete e = complete old" "fetched_at e = fetched_at old"
      using host_sync_on_entry [OF Some, of now src hs out] by (elim exE conjE) (rule that; assumption)
    with Some assms(2) Scope_hosts show ?thesis by simp
  next
    case (Scope_group g)
    with Some assms(2) show ?thesis
      by (auto simp: apply_to_cache_def Let_def cache_simps update_group_def invalidate_serialized_def set_ttl_def)
  qed (use assms in simp)
qed

theorem scoped_sync_never_gathers_witness:
  "\<exists>e'. mc_get (apply_to_cache 5 ''new'' sample_source (Scope_group ''web'') (output_of_dataset sample_dataset) vm_cache) ''new'' = Some e'
     \<and> \<not> is_fresh 5 e'"
proof -
  have n: "mc_get vm_cache ''new'' = None" by (simp add: vm_cache_def mc_defs mc_new_def)
  then obtain e' where e: "mc_get (apply_to_cache 5 ''new'' sample_source (Scope_group ''web'')
      (output_of_dataset sample_dataset) vm_cache) ''new'' = Some e'"
    by (simp add: apply_to_cache_def Let_def cache_simps)
  from scoped_sync_never_gathers [OF _ e, of 5] n e show ?thesis by simp
qed

section \<open>A run that failed\<close>

lemma run_sync_failed:
  assumes "run_sync env now ms sid src req (c, scopes) = ((c', scopes'), outcome)" and "\<not> success outcome"
  shows "c' = c \<and> scopes' = scopes"
  using assms
  by (auto simp: run_sync_def sync_landed_def sync_failed_def success_def Let_def
      split: sum.splits run_result.splits)

text \<open>
  C6. A run that fails, for whatever reason (the hosts to ask could not be resolved, a
  credential, the connector, its timeout), leaves every cached dataset, every advertised
  scope, the enrichers' records and the counter of full syncs as they were; it is recorded
  as a failure with its message, and as a run with that error, a scope and no counts.
\<close>

theorem failed_sync_changes_nothing:
  assumes "sync_source env enrichment now ms unix_now sid src req before (n, st) = ((n', st'), outcome)"
    and "so_error outcome = Some e"
  shows "n' = n \<and> ss_cache st' = ss_cache st \<and> ss_scopes st' = ss_scopes st
    \<and> ss_enrich_health st' = ss_enrich_health st
    \<and> fmlookup (inner (ss_health st')) sid =
        fmlookup (inner (record_failure now sid (sync_error_text e) (ss_health st))) sid
    \<and> (\<exists>run. history (ss_health st') sid = take HISTORY (run # history (ss_health st) sid)
          \<and> run_error run = Some (cut_error (sync_error_text e)) \<and> trigger run = sr_run_trigger req
          \<and> run_scope run = Some (so_scope outcome) \<and> run_hosts run = None \<and> run_groups run = None)"
proof -
  have nc: "\<not> (coalescable req \<and> n \<noteq> before)"
    using assms by (auto simp: sync_source_def coalesced_answer_def split: option.splits if_splits)
  obtain c scopes out' where r: "run_sync env now ms sid src req (ss_cache st, ss_scopes st) = ((c, scopes), out')"
    by (metis prod.collapse)
  with assms(1) nc have o: "out' = outcome"
    and s: "(n', st') = after_run enrichment now ms unix_now sid req outcome
              (n, st\<lparr>ss_cache := c, ss_scopes := scopes\<rparr>)"
    by (auto simp: sync_source_def)
  have f: "\<not> success outcome" using assms(2) by (simp add: success_def)
  from run_sync_failed [OF r] o f have c: "c = ss_cache st" "scopes = ss_scopes st" by auto
  have h: "ss_health st' = record_run sid
       \<lparr>started_at = unix_now, duration_ms = so_duration_ms outcome, trigger = sr_run_trigger req,
        run_by = sr_by req, run_scope = Some (so_scope outcome), run_error = Some (sync_error_text e),
        run_hosts = None, run_groups = None, revision_before = None, revision = None\<rparr>
       (record_failure now sid (sync_error_text e) (ss_health st))"
    using s f assms(2) by (simp add: after_run_def split: option.splits prod.splits)
  have "n' = n" "ss_cache st' = ss_cache st" "ss_scopes st' = ss_scopes st"
    "ss_enrich_health st' = ss_enrich_health st"
    using s f c by (simp_all add: after_run_def split: option.splits prod.splits)
  moreover have "fmlookup (inner (ss_health st')) sid =
      fmlookup (inner (record_failure now sid (sync_error_text e) (ss_health st))) sid"
    by (simp add: h record_run_def Let_def)
  moreover have "history (ss_health st') sid = take HISTORY
      (\<lparr>started_at = unix_now, duration_ms = so_duration_ms outcome, trigger = sr_run_trigger req,
        run_by = sr_by req, run_scope = Some (so_scope outcome), run_error = Some (cut_error (sync_error_text e)),
        run_hosts = None, run_groups = None, revision_before = None, revision = None\<rparr>
       # history (ss_health st) sid)"
    by (simp add: h record_run_def record_failure_def history_def Let_def split: option.split)
  ultimately show ?thesis by force
qed

definition sample_env :: "connector_output run_result \<Rightarrow> sync_env" where
  "sample_env r = \<lparr>se_execute = (\<lambda>_ _ _ _. r), se_secret = (\<lambda>_. Inr fmempty), se_variable_part = (\<lambda>s. s),
     se_delivery_id = (\<lambda>s. s), se_spec_json = (\<lambda>_. Inr [])\<rparr>"

definition sample_state :: sync_state where
  "sample_state = \<lparr>ss_cache = vm_cache, ss_scopes = fmempty, ss_health = hr_new, ss_enrich_health = hr_new\<rparr>"

lemma sample_sync_call:
  "sync_call (sample_env r) ms sample_source req c = Inr r"
  by (simp add: sync_call_def sample_env_def sample_source_def hosts_spec_def resolve_credentials_def
      deliveries_def Let_def)

theorem failed_sync_changes_nothing_witness:
  "ss_cache (snd (fst (sync_source (sample_env (Run_failed ''exit 1'')) None 9 3 100 ''vm'' sample_source
      (plain_request Scope_full) 0 (0, sample_state)))) = vm_cache"
proof -
  obtain n' st' outcome where r: "sync_source (sample_env (Run_failed ''exit 1'')) None 9 3 100 ''vm'' sample_source
      (plain_request Scope_full) 0 (0, sample_state) = ((n', st'), outcome)" by (metis prod.collapse)
  then have "so_error outcome = Some (Connector_failed ''exit 1'')"
    by (auto simp: sync_source_def run_sync_def sample_sync_call sync_landed_def sync_failed_def split: prod.splits)
  from failed_sync_changes_nothing [OF r this] r show ?thesis by (simp add: sample_state_def)
qed

section \<open>What the script is told\<close>

text \<open>The keys a run may set itself.\<close>

definition run_keys :: "string list" where
  "run_keys = [''hosts_spec'', ''scope'', ''target'', ''trigger'', ''refresh_origin'', ''refresh_depth'',
     REFRESH_ON_READ_CONFIG_KEY, SSH_LOCATION_CONFIG_KEY]"

lemmas sync_config_simps = sync_config_def put_opt_def Let_def REFRESH_ON_READ_CONFIG_KEY_def
  SSH_LOCATION_CONFIG_KEY_def

lemma put_opt_lookup [simp]:
  "fmlookup (put_opt k v m) k' = (if k = k' \<and> v \<noteq> None then v else fmlookup m k')"
  by (simp add: put_opt_def split: option.split)

lemma sync_config_layers:
  "sync_config src spec req =
     (let c1 = put_opt ''hosts_spec'' spec (s_config src);
          c2 = (case sr_scope req of Scope_full \<Rightarrow> c1
             | Scope_hosts hs \<Rightarrow> put_opt ''target'' (Some (join '','' hs)) (put_opt ''scope'' (Some ''host'') c1)
             | Scope_group g \<Rightarrow> put_opt ''target'' (Some g) (put_opt ''scope'' (Some ''group'') c1));
          c3 = put_opt ''trigger'' (sr_trigger req) c2;
          c4 = put_opt REFRESH_ON_READ_CONFIG_KEY
                 (if refresh_origin req \<and> sr_run_trigger req = Refresh then Some ''true'' else None)
               (put_opt ''refresh_depth''
                 (if refresh_origin req then Some (show_nat (unat (refresh_depth req))) else None)
               (put_opt ''refresh_origin'' (if refresh_origin req then Some ''true'' else None) c3))
      in if s_connector_type src = CT_ssh then
           (case s_ssh_location src of
              Some l \<Rightarrow> fmupd SSH_LOCATION_CONFIG_KEY (location_name l) c4
            | None \<Rightarrow> fmdrop SSH_LOCATION_CONFIG_KEY c4)
         else c4)"
  by (cases "refresh_origin req"; cases "sr_run_trigger req = Refresh"; cases "sr_scope req")
    (simp_all only: sync_config_def put_opt_def Let_def option.case sync_scope.case if_True if_False simp_thms)

lemma sync_config_other:
  assumes "k \<notin> set run_keys"
  shows "fmlookup (sync_config src spec req) k = fmlookup (s_config src) k"
proof -
  from assms have n: "''hosts_spec'' \<noteq> k" "''scope'' \<noteq> k" "''target'' \<noteq> k" "''trigger'' \<noteq> k"
    "''refresh_origin'' \<noteq> k" "''refresh_depth'' \<noteq> k" "REFRESH_ON_READ_CONFIG_KEY \<noteq> k" "SSH_LOCATION_CONFIG_KEY \<noteq> k"
    unfolding run_keys_def by auto
  show ?thesis
    unfolding sync_config_layers Let_def
    by (cases "sr_scope req"; cases "s_ssh_location src"; cases "s_connector_type src = CT_ssh")
      (simp_all only: n n [symmetric] put_opt_lookup sync_scope.case option.case fmupd_lookup fmlookup_drop if_True if_False simp_thms)
qed

lemma key_neq:
  "''scope'' \<noteq> ''hosts_spec''" "''target'' \<noteq> ''hosts_spec''" "''target'' \<noteq> ''scope''" "''trigger'' \<noteq> ''target''"
  "''trigger'' \<noteq> ''scope''" "''refresh_origin'' \<noteq> ''refresh_depth''" "''refresh_depth'' \<noteq> ''refresh_origin''"
  "REFRESH_ON_READ_CONFIG_KEY \<noteq> ''scope''" "REFRESH_ON_READ_CONFIG_KEY \<noteq> ''target''"
  "REFRESH_ON_READ_CONFIG_KEY \<noteq> ''refresh_origin''" "REFRESH_ON_READ_CONFIG_KEY \<noteq> ''refresh_depth''"
  "''hosts_spec'' \<noteq> REFRESH_ON_READ_CONFIG_KEY" "''scope'' \<noteq> REFRESH_ON_READ_CONFIG_KEY"
  "''target'' \<noteq> REFRESH_ON_READ_CONFIG_KEY" "''trigger'' \<noteq> REFRESH_ON_READ_CONFIG_KEY"
  "''refresh_origin'' \<noteq> REFRESH_ON_READ_CONFIG_KEY" "''refresh_depth'' \<noteq> REFRESH_ON_READ_CONFIG_KEY"
  "''refresh_origin'' \<noteq> ''scope''" "''refresh_origin'' \<noteq> ''target''" "''refresh_depth'' \<noteq> ''scope''"
  "''refresh_depth'' \<noteq> ''target''" "SSH_LOCATION_CONFIG_KEY \<noteq> ''scope''" "SSH_LOCATION_CONFIG_KEY \<noteq> ''target''"
  "SSH_LOCATION_CONFIG_KEY \<noteq> ''refresh_origin''" "SSH_LOCATION_CONFIG_KEY \<noteq> ''refresh_depth''"
  "SSH_LOCATION_CONFIG_KEY \<noteq> REFRESH_ON_READ_CONFIG_KEY"
  by (simp_all add: REFRESH_ON_READ_CONFIG_KEY_def SSH_LOCATION_CONFIG_KEY_def)

lemma sync_config_lookup:
  "sr_scope req = Scope_hosts hs \<Longrightarrow> fmlookup (sync_config src spec req) ''scope'' = Some ''host''"
  "sr_scope req = Scope_hosts hs \<Longrightarrow> fmlookup (sync_config src spec req) ''target'' = Some (join '','' hs)"
  "sr_scope req = Scope_group g \<Longrightarrow> fmlookup (sync_config src spec req) ''scope'' = Some ''group''"
  "sr_scope req = Scope_group g \<Longrightarrow> fmlookup (sync_config src spec req) ''target'' = Some g"
  "refresh_origin req \<Longrightarrow> fmlookup (sync_config src spec req) ''refresh_origin'' = Some ''true''"
  "refresh_origin req \<Longrightarrow>
     fmlookup (sync_config src spec req) ''refresh_depth'' = Some (show_nat (unat (refresh_depth req)))"
  "fmlookup (sync_config src spec req) REFRESH_ON_READ_CONFIG_KEY =
     (if refresh_origin req \<and> sr_run_trigger req = Refresh then Some ''true''
      else fmlookup (s_config src) REFRESH_ON_READ_CONFIG_KEY)"
  "s_connector_type src = CT_ssh \<Longrightarrow>
     fmlookup (sync_config src spec req) SSH_LOCATION_CONFIG_KEY = map_option location_name (s_ssh_location src)"
  unfolding sync_config_layers Let_def
  by (simp_all add: key_neq key_neq [symmetric] split: option.split sync_scope.split)

text \<open>
  The configuration a run hands its script: the source's own keys are as written, except
  those the run sets; the scope and its target are set for a scoped run, the origin's
  refresh and its depth when it is asked for, the mark of a read only on top of that and
  only by what started the run; and for an ssh source the location is its connector's
  whatever its own configuration says.
\<close>

theorem sync_config_exact:
  "(\<forall>k. k \<notin> set run_keys \<longrightarrow> fmlookup (sync_config src spec req) k = fmlookup (s_config src) k)
   \<and> (case sr_scope req of
        Scope_full \<Rightarrow> True
      | Scope_hosts hs \<Rightarrow> fmlookup (sync_config src spec req) ''scope'' = Some ''host''
          \<and> fmlookup (sync_config src spec req) ''target'' = Some (join '','' hs)
      | Scope_group g \<Rightarrow> fmlookup (sync_config src spec req) ''scope'' = Some ''group''
          \<and> fmlookup (sync_config src spec req) ''target'' = Some g)
   \<and> (refresh_origin req \<longrightarrow>
        fmlookup (sync_config src spec req) ''refresh_origin'' = Some ''true''
        \<and> fmlookup (sync_config src spec req) ''refresh_depth'' = Some (show_nat (unat (refresh_depth req))))
   \<and> fmlookup (sync_config src spec req) REFRESH_ON_READ_CONFIG_KEY =
       (if refresh_origin req \<and> sr_run_trigger req = Refresh then Some ''true''
        else fmlookup (s_config src) REFRESH_ON_READ_CONFIG_KEY)
   \<and> (s_connector_type src = CT_ssh \<longrightarrow>
        fmlookup (sync_config src spec req) SSH_LOCATION_CONFIG_KEY = map_option location_name (s_ssh_location src))"
proof (intro conjI allI impI)
  fix k assume "k \<notin> set run_keys"
  then show "fmlookup (sync_config src spec req) k = fmlookup (s_config src) k" by (rule sync_config_other)
next
  show "case sr_scope req of
        Scope_full \<Rightarrow> True
      | Scope_hosts hs \<Rightarrow> fmlookup (sync_config src spec req) ''scope'' = Some ''host''
          \<and> fmlookup (sync_config src spec req) ''target'' = Some (join '','' hs)
      | Scope_group g \<Rightarrow> fmlookup (sync_config src spec req) ''scope'' = Some ''group''
          \<and> fmlookup (sync_config src spec req) ''target'' = Some g"
    by (cases "sr_scope req") (simp_all add: sync_config_lookup)
qed (simp_all add: sync_config_lookup)

theorem sync_config_exact_witness:
  "fmlookup (sync_config sample_source None (refreshing_origin (Scope_hosts [''a'', ''b'']) 2)) ''target'' = Some ''a,b''
   \<and> fmlookup (sync_config sample_source None (refreshing_origin Scope_full 2)) ''refresh_origin'' = Some ''true''"
  using sync_config_exact [of sample_source None "refreshing_origin (Scope_hosts [''a'', ''b'']) 2", THEN conjunct2, THEN conjunct1]
    sync_config_exact [of sample_source None "refreshing_origin Scope_full 2", THEN conjunct2, THEN conjunct2, THEN conjunct1]
  by (simp add: refreshing_origin_def)

end
