(* ===== verification/Coordinator.thy ===== *)
theory Coordinator
  imports Sync
begin

text \<open>
  Concurrent syncs: the \<open>SyncCoordinator\<close> of \<open>src/src/application/sync.rs\<close>, as a step relation
  over any number of tasks that share the cache. A task arrives and reads its source's
  counter of full syncs, waits for the source's lock, and under it answers from a sync that
  landed while it waited or calls the connector; between the call and the write other tasks
  run. The run of syncs is instrumented with the step at which each thing happened, so that
  the properties can speak of before and after. The lemmas show that the gathers of one
  source never overlap, what a coalesced answer rests on, and that no task is ever stuck.
\<close>

section \<open>State\<close>

record job =
  j_sid :: string
  j_source :: source
  j_req :: sync_request

datatype phase =
    Queued u64
  | Gathering nat "connector_output run_result"
  | Finished sync_outcome

record task =
  t_job :: job
  t_since :: nat
  t_phase :: phase

text \<open>A run that landed: its source, the steps it began and ended at, whether it was plain
  and full.\<close>

record gather =
  g_sid :: string
  g_begun :: nat
  g_ended :: nat
  g_plain :: bool

record coord =
  full_syncs :: "(string, u64) fmap"
  locks :: "(string, nat) fmap"
  tasks :: "(nat, task) fmap"
  shared :: sync_state
  steps :: nat
  landed :: "gather list"

definition coord_init :: "sync_state \<Rightarrow> coord" where
  "coord_init st = \<lparr>full_syncs = fmempty, locks = fmempty, tasks = fmempty, shared = st, steps = 0, landed = []\<rparr>"

definition full_syncs_of :: "coord \<Rightarrow> string \<Rightarrow> u64" where
  "full_syncs_of s sid = (case fmlookup (full_syncs s) sid of Some n \<Rightarrow> n | None \<Rightarrow> 0)"

definition set_phase :: "nat \<Rightarrow> job \<Rightarrow> nat \<Rightarrow> phase \<Rightarrow> coord \<Rightarrow> coord" where
  "set_phase t j since p s = s\<lparr>tasks := fmupd t \<lparr>t_job = j, t_since = since, t_phase = p\<rparr> (tasks s)\<rparr>"

section \<open>Steps\<close>

text \<open>A request begins: \<open>entry_for\<close>, and the counter read before queueing.\<close>

definition arrive :: "nat \<Rightarrow> job \<Rightarrow> coord \<Rightarrow> coord" where
  "arrive t j s =
     (set_phase t j (steps s) (Queued (full_syncs_of s (j_sid j))) s)
       \<lparr>full_syncs := fm_ensure 0 [j_sid j] (full_syncs s), steps := Suc (steps s)\<rparr>"

text \<open>The lock is taken: the coalescing check, then the call.\<close>

definition acquire ::
  "sync_env \<Rightarrow> (enricher_env \<times> (string, enricher) fmap) option \<Rightarrow> instant \<Rightarrow> nat \<Rightarrow> nat
     \<Rightarrow> nat \<Rightarrow> job \<Rightarrow> nat \<Rightarrow> u64 \<Rightarrow> coord \<Rightarrow> coord" where
  "acquire env enrichment now ms unix_now t j since before s =
     (let sid = j_sid j; req = j_req j; n = full_syncs_of s sid;
          s' = s\<lparr>steps := Suc (steps s)\<rparr>
      in if coalescable req \<and> n \<noteq> before
         then set_phase t j since (Finished (coalesced_answer sid (ss_cache (shared s)))) s'
         else case sync_call env ms (j_source j) req (ss_cache (shared s)) of
                Inl outcome \<Rightarrow>
                  (let (n', st') = after_run enrichment now ms unix_now sid req outcome (n, shared s)
                   in set_phase t j since (Finished outcome)
                        (s'\<lparr>full_syncs := fmupd sid n' (full_syncs s), shared := st'\<rparr>))
              | Inr result \<Rightarrow>
                  set_phase t j since (Gathering (steps s) result) (s'\<lparr>locks := fmupd sid t (locks s)\<rparr>))"

text \<open>The connector answered: the write, the record, the enrichers, and the lock released.\<close>

definition land ::
  "(enricher_env \<times> (string, enricher) fmap) option \<Rightarrow> instant \<Rightarrow> nat \<Rightarrow> nat
     \<Rightarrow> nat \<Rightarrow> job \<Rightarrow> nat \<Rightarrow> nat \<Rightarrow> connector_output run_result \<Rightarrow> coord \<Rightarrow> coord" where
  "land enrichment now ms unix_now t j since begun result s =
     (let sid = j_sid j; req = j_req j; st = shared s;
          ((c, scopes), outcome) = sync_landed now ms sid (j_source j) req result (ss_cache st, ss_scopes st);
          (n', st') = after_run enrichment now ms unix_now sid req outcome
                        (full_syncs_of s sid, st\<lparr>ss_cache := c, ss_scopes := scopes\<rparr>)
      in set_phase t j since (Finished outcome)
           (s\<lparr>steps := Suc (steps s), full_syncs := fmupd sid n' (full_syncs s), shared := st',
              locks := fmdrop sid (locks s),
              landed := (if success outcome
                         then \<lparr>g_sid = sid, g_begun = begun, g_ended = steps s, g_plain = coalescable req\<rparr> # landed s
                         else landed s)\<rparr>))"

inductive coord_step :: "coord \<Rightarrow> coord \<Rightarrow> bool" where
  Arrive: "fmlookup (tasks s) t = None \<Longrightarrow> coord_step s (arrive t j s)"
| Acquire: "fmlookup (tasks s) t = Some \<lparr>t_job = j, t_since = since, t_phase = Queued before\<rparr> \<Longrightarrow>
    fmlookup (locks s) (j_sid j) = None \<Longrightarrow>
    coord_step s (acquire env enrichment now ms unix_now t j since before s)"
| Land: "fmlookup (tasks s) t = Some \<lparr>t_job = j, t_since = since, t_phase = Gathering begun result\<rparr> \<Longrightarrow>
    coord_step s (land enrichment now ms unix_now t j since begun result s)"

inductive coord_reach :: "sync_state \<Rightarrow> coord \<Rightarrow> bool" for st where
  Start: "coord_reach st (coord_init st)"
| Step: "coord_reach st s \<Longrightarrow> coord_step s s' \<Longrightarrow> coord_reach st s'"

section \<open>One task alone does what \<open>sync_source\<close> does\<close>

lemma set_phase_simps [simp]:
  "full_syncs (set_phase t j i p s) = full_syncs s" "locks (set_phase t j i p s) = locks s"
  "shared (set_phase t j i p s) = shared s" "steps (set_phase t j i p s) = steps s"
  "landed (set_phase t j i p s) = landed s" "full_syncs_of (set_phase t j i p s) sid = full_syncs_of s sid"
  "tasks (set_phase t j i p s) = fmupd t \<lparr>t_job = j, t_since = i, t_phase = p\<rparr> (tasks s)"
  by (simp_all add: set_phase_def full_syncs_of_def)

lemma full_syncs_of_upd [simp]:
  "full_syncs_of (s\<lparr>steps := k, full_syncs := m, shared := st, locks := l, landed := g\<rparr>) sid
     = (case fmlookup m sid of Some n \<Rightarrow> n | None \<Rightarrow> 0)"
  "full_syncs_of (s\<lparr>steps := k, full_syncs := m, shared := st\<rparr>) sid
     = (case fmlookup m sid of Some n \<Rightarrow> n | None \<Rightarrow> 0)"
  "full_syncs_of (s\<lparr>steps := k, locks := l\<rparr>) sid = full_syncs_of s sid"
  "full_syncs_of (s\<lparr>steps := k\<rparr>) sid = full_syncs_of s sid"
  by (simp_all add: full_syncs_of_def)


section \<open>What a step changes\<close>

lemma after_run_count:
  "fst (after_run enrichment now ms unix_now sid req outcome (n, st)) =
     (if coalescable req \<and> success outcome then n + 1 else n)"
  by (simp add: after_run_def split: prod.split)

lemma sync_call_failed: "sync_call env ms src req c = Inl outcome \<Longrightarrow> \<not> success outcome \<and> \<not> so_coalesced outcome"
  by (auto simp: sync_call_def sync_failed_def success_def Let_def split: sum.splits)

lemma sync_landed_outcome: "\<not> so_coalesced (snd (sync_landed now ms sid src req result st))"
  by (cases st) (simp add: sync_landed_def sync_failed_def Let_def split: run_result.split)

lemma arrive_shape:
  "tasks (arrive t j s) =
     fmupd t \<lparr>t_job = j, t_since = steps s, t_phase = Queued (full_syncs_of s (j_sid j))\<rparr> (tasks s)"
  "locks (arrive t j s) = locks s" "steps (arrive t j s) = Suc (steps s)" "landed (arrive t j s) = landed s"
  "full_syncs_of (arrive t j s) sid = full_syncs_of s sid"
  by (simp_all add: arrive_def set_phase_def full_syncs_of_def split: option.split)

lemma acquire_shape:
  fixes env enrichment now ms unix_now t j since before s
  defines "s' \<equiv> acquire env enrichment now ms unix_now t j since before s"
  shows "steps s' = Suc (steps s) \<and> landed s' = landed s \<and> (\<forall>sid. full_syncs_of s' sid = full_syncs_of s sid)
    \<and> ((\<exists>result. tasks s' = fmupd t \<lparr>t_job = j, t_since = since, t_phase = Gathering (steps s) result\<rparr> (tasks s)
            \<and> locks s' = fmupd (j_sid j) t (locks s))
       \<or> (\<exists>outcome. tasks s' = fmupd t \<lparr>t_job = j, t_since = since, t_phase = Finished outcome\<rparr> (tasks s)
            \<and> locks s' = locks s
            \<and> (so_coalesced outcome \<longrightarrow> coalescable (j_req j) \<and> full_syncs_of s (j_sid j) \<noteq> before)))"
proof (cases "coalescable (j_req j) \<and> full_syncs_of s (j_sid j) \<noteq> before")
  case True
  then show ?thesis by (simp add: s'_def acquire_def Let_def) blast
next
  case nc: False
  show ?thesis
  proof (cases "sync_call env ms (j_source j) (j_req j) (ss_cache (shared s))")
    case (Inl o')
    obtain n' st' where r: "after_run enrichment now ms unix_now (j_sid j) (j_req j) o' (full_syncs_of s (j_sid j), shared s) = (n', st')"
      by fastforce
    with after_run_count [of enrichment now ms unix_now "j_sid j" "j_req j" o' "full_syncs_of s (j_sid j)" "shared s"]
      sync_call_failed [OF Inl]
    have n: "n' = full_syncs_of s (j_sid j)" by simp
    have s': "s' = set_phase t j since (Finished o')
        (s\<lparr>steps := Suc (steps s), full_syncs := fmupd (j_sid j) n' (full_syncs s), shared := st'\<rparr>)"
      unfolding s'_def acquire_def Let_def if_not_P [OF nc] Inl using r by simp
    have "full_syncs_of s' sid = full_syncs_of s sid" for sid
      by (simp add: s' n) (simp add: full_syncs_of_def)
    with s' sync_call_failed [OF Inl] show ?thesis by (intro conjI disjI2 exI [of _ o']) simp_all
  next
    case (Inr result)
    have s': "s' = set_phase t j since (Gathering (steps s) result)
        (s\<lparr>steps := Suc (steps s), locks := fmupd (j_sid j) t (locks s)\<rparr>)"
      unfolding s'_def acquire_def Let_def if_not_P [OF nc] Inr by simp
    then show ?thesis by (intro conjI disjI1 exI [of _ result]) simp_all
  qed
qed

lemma land_shape:
  fixes enrichment now ms unix_now t j since begun result s
  defines "s' \<equiv> land enrichment now ms unix_now t j since begun result s"
  shows "\<exists>outcome. steps s' = Suc (steps s) \<and> locks s' = fmdrop (j_sid j) (locks s) \<and> \<not> so_coalesced outcome
    \<and> tasks s' = fmupd t \<lparr>t_job = j, t_since = since, t_phase = Finished outcome\<rparr> (tasks s)
    \<and> landed s' = (if success outcome
         then \<lparr>g_sid = j_sid j, g_begun = begun, g_ended = steps s, g_plain = coalescable (j_req j)\<rparr> # landed s
         else landed s)
    \<and> (\<forall>sid. full_syncs_of s' sid =
         (if sid = j_sid j \<and> coalescable (j_req j) \<and> success outcome then full_syncs_of s sid + 1
          else full_syncs_of s sid))"
proof -
  obtain c scopes outcome where l: "sync_landed now ms (j_sid j) (j_source j) (j_req j) result
      (ss_cache (shared s), ss_scopes (shared s)) = ((c, scopes), outcome)" by (metis prod.collapse)
  obtain n' st' where r: "after_run enrichment now ms unix_now (j_sid j) (j_req j) outcome
      (full_syncs_of s (j_sid j), (shared s)\<lparr>ss_cache := c, ss_scopes := scopes\<rparr>) = (n', st')" by fastforce
  have n: "n' = (if coalescable (j_req j) \<and> success outcome then full_syncs_of s (j_sid j) + 1 else full_syncs_of s (j_sid j))"
    using after_run_count [of enrichment now ms unix_now "j_sid j" "j_req j" outcome "full_syncs_of s (j_sid j)"
        "(shared s)\<lparr>ss_cache := c, ss_scopes := scopes\<rparr>"] r by simp
  have s': "s' = set_phase t j since (Finished outcome)
        (s\<lparr>steps := Suc (steps s), full_syncs := fmupd (j_sid j) n' (full_syncs s), shared := st',
           locks := fmdrop (j_sid j) (locks s),
           landed := (if success outcome
             then \<lparr>g_sid = j_sid j, g_begun = begun, g_ended = steps s, g_plain = coalescable (j_req j)\<rparr> # landed s
             else landed s)\<rparr>)"
    unfolding s'_def land_def Let_def l r by (simp add: l r)
  have f: "full_syncs_of s' sid =
         (if sid = j_sid j \<and> coalescable (j_req j) \<and> success outcome then full_syncs_of s sid + 1
          else full_syncs_of s sid)" for sid
    by (simp add: s' n) (simp add: full_syncs_of_def)
  have "\<not> so_coalesced outcome"
    using sync_landed_outcome [of now ms "j_sid j" "j_source j" "j_req j" result "(ss_cache (shared s), ss_scopes (shared s))"] l by simp
  with f show ?thesis unfolding s' by (intro exI [of _ outcome]) simp
qed

lemma land_ok:
  "landed (land enrichment now ms unix_now t j since begun (Run_ok out) s) =
     \<lparr>g_sid = j_sid j, g_begun = begun, g_ended = steps s, g_plain = coalescable (j_req j)\<rparr> # landed s"
  "full_syncs_of (land enrichment now ms unix_now t j since begun (Run_ok out) s) (j_sid j) =
     (if coalescable (j_req j) then full_syncs_of s (j_sid j) + 1 else full_syncs_of s (j_sid j))"
  by (simp_all add: land_def sync_landed_def after_run_def success_def Let_def split: prod.split)

lemma acquire_coalesced:
  "coalescable (j_req j) \<Longrightarrow> full_syncs_of s (j_sid j) \<noteq> before \<Longrightarrow>
     acquire env enrichment now ms unix_now t j since before s =
       set_phase t j since (Finished (coalesced_answer (j_sid j) (ss_cache (shared s)))) (s\<lparr>steps := Suc (steps s)\<rparr>)"
  by (simp add: acquire_def Let_def)

section \<open>Invariants\<close>

abbreviation plain_landed :: "coord \<Rightarrow> string \<Rightarrow> gather list" where
  "plain_landed s sid \<equiv> filter (\<lambda>g. g_sid g = sid \<and> g_plain g) (landed s)"

text \<open>The lock of a source is held exactly by its gathering task.\<close>

definition locks_ok :: "coord \<Rightarrow> bool" where
  "locks_ok s \<longleftrightarrow> (\<forall>sid t. fmlookup (locks s) sid = Some t \<longleftrightarrow>
     (\<exists>j since b r. fmlookup (tasks s) t = Some \<lparr>t_job = j, t_since = since, t_phase = Gathering b r\<rparr> \<and> j_sid j = sid))"

definition landed_ok :: "coord \<Rightarrow> bool" where
  "landed_ok s \<longleftrightarrow>
     (\<forall>g \<in> set (landed s). g_begun g < g_ended g \<and> g_ended g < steps s)
     \<and> sorted_wrt (\<lambda>new old. g_sid new = g_sid old \<longrightarrow> g_ended old < g_begun new) (landed s)
     \<and> (\<forall>sid. full_syncs_of s sid = of_nat (length (plain_landed s sid)))"

definition phase_ok :: "coord \<Rightarrow> task \<Rightarrow> bool" where
  "phase_ok s k \<longleftrightarrow> t_since k < steps s \<and>
     (let sid = j_sid (t_job k) in case t_phase k of
        Queued before \<Rightarrow>
          before = of_nat (length (filter (\<lambda>g. g_ended g < t_since k) (plain_landed s sid)))
      | Gathering begun r \<Rightarrow> begun < steps s \<and> (\<forall>g \<in> set (landed s). g_sid g = sid \<longrightarrow> g_ended g < begun)
      | Finished outcome \<Rightarrow>
          (so_coalesced outcome \<longrightarrow> (\<exists>g \<in> set (plain_landed s sid). t_since k \<le> g_ended g)))"

definition coord_ok :: "coord \<Rightarrow> bool" where
  "coord_ok s \<longleftrightarrow> locks_ok s \<and> landed_ok s \<and> (\<forall>t k. fmlookup (tasks s) t = Some k \<longrightarrow> phase_ok s k)"

lemma task_ok: "coord_ok s \<Longrightarrow> fmlookup (tasks s) t = Some k \<Longrightarrow> phase_ok s k"
  by (simp add: coord_ok_def)

lemma locks_iff:
  "coord_ok s \<Longrightarrow> fmlookup (locks s) sid = Some t \<longleftrightarrow>
     (\<exists>j since b r. fmlookup (tasks s) t = Some \<lparr>t_job = j, t_since = since, t_phase = Gathering b r\<rparr> \<and> j_sid j = sid)"
  by (simp add: coord_ok_def locks_ok_def)

lemma phase_ok_later:
  assumes "phase_ok s k" and "steps s' = Suc (steps s)" and "landed s' = landed s"
  shows "phase_ok s' k"
  using assms by (auto simp: phase_ok_def Let_def split: phase.splits)

lemma phase_ok_landed:
  assumes "phase_ok s k" and "steps s' = Suc (steps s)" and "landed s' = g # landed s" and "g_ended g = steps s"
    and "\<And>b r. t_phase k = Gathering b r \<Longrightarrow> j_sid (t_job k) \<noteq> g_sid g"
  shows "phase_ok s' k"
  using assms by (auto simp: phase_ok_def Let_def split: phase.splits)

lemma coord_ok_arrive:
  assumes "coord_ok s" and "fmlookup (tasks s) t = None"
  shows "coord_ok (arrive t j s)"
proof -
  let ?s = "arrive t j s"
  have lk: "locks_ok ?s"
    using assms by (auto simp: coord_ok_def locks_ok_def arrive_shape)
  have la: "landed_ok ?s"
    using assms by (auto simp: coord_ok_def landed_ok_def arrive_shape)
  have "phase_ok ?s k" if "fmlookup (tasks ?s) t' = Some k" for t' k
  proof (cases "t' = t")
    case True
    have "filter (\<lambda>g. g_ended g < steps s) (plain_landed s sid) = plain_landed s sid" for sid
      using assms(1) by (intro filter_True) (auto simp: coord_ok_def landed_ok_def)
    with that True assms(1) show ?thesis
      by (auto simp: phase_ok_def arrive_shape coord_ok_def landed_ok_def Let_def)
  next
    case False
    with that assms(1) have "phase_ok s k" by (simp add: arrive_shape coord_ok_def)
    then show ?thesis by (rule phase_ok_later) (simp_all add: arrive_shape)
  qed
  with lk la show ?thesis by (simp add: coord_ok_def)
qed

lemma moved_on:
  assumes "of_nat (length xs) \<noteq> (of_nat (length (filter P xs)) :: u64)"
  shows "\<exists>x \<in> set xs. \<not> P x"
proof (rule ccontr)
  assume "\<not> ?thesis"
  then have "filter P xs = xs" by (simp add: filter_id_conv)
  with assms show False by simp
qed

lemma coord_ok_acquire:
  assumes ok: "coord_ok s"
    and task: "fmlookup (tasks s) t = Some \<lparr>t_job = j, t_since = since, t_phase = Queued before\<rparr>"
    and free: "fmlookup (locks s) (j_sid j) = None"
  shows "coord_ok (acquire env enrichment now ms unix_now t j since before s)"
proof -
  let ?s = "acquire env enrichment now ms unix_now t j since before s"
  have st: "steps ?s = Suc (steps s)" "landed ?s = landed s" "\<And>sid. full_syncs_of ?s sid = full_syncs_of s sid"
    using acquire_shape by blast+
  have since: "since < steps s" "before = of_nat (length (filter (\<lambda>g. g_ended g < since) (plain_landed s (j_sid j))))"
    using ok task_ok [OF ok task] by (simp_all add: phase_ok_def)
  have la: "landed_ok ?s" using ok st by (auto simp: coord_ok_def landed_ok_def)
  have others: "phase_ok ?s k" if "fmlookup (tasks s) t' = Some k" for t' k
    using task_ok [OF ok that] st(1,2) by (rule phase_ok_later)
  consider (call) r where "tasks ?s = fmupd t \<lparr>t_job = j, t_since = since, t_phase = Gathering (steps s) r\<rparr> (tasks s)"
      "locks ?s = fmupd (j_sid j) t (locks s)"
    | (answer) outcome where "tasks ?s = fmupd t \<lparr>t_job = j, t_since = since, t_phase = Finished outcome\<rparr> (tasks s)"
      "locks ?s = locks s" "so_coalesced outcome \<longrightarrow> coalescable (j_req j) \<and> full_syncs_of s (j_sid j) \<noteq> before"
    using acquire_shape by blast
  then show ?thesis
  proof cases
    case call
    have "locks_ok ?s"
      unfolding locks_ok_def
    proof (intro allI)
      fix sid t'
      show "fmlookup (locks ?s) sid = Some t' \<longleftrightarrow> (\<exists>j since b r. fmlookup (tasks ?s) t' =
          Some \<lparr>t_job = j, t_since = since, t_phase = Gathering b r\<rparr> \<and> j_sid j = sid)"
      proof (cases "t' = t")
        case True
        have "fmlookup (locks s) sid \<noteq> Some t" using locks_iff [OF ok, of sid t] task by simp
        with True show ?thesis by (simp add: call)
      next
        case False
        have "sid = j_sid j \<Longrightarrow> fmlookup (locks s) sid \<noteq> Some t'" using free by simp
        with False locks_iff [OF ok, of sid t'] show ?thesis by (auto simp: call)
      qed
    qed
    moreover have "phase_ok ?s k" if "fmlookup (tasks ?s) t' = Some k" for t' k
    proof (cases "t' = t")
      case True
      with that ok show ?thesis
        using since(1) by (auto simp: call(1) phase_ok_def st coord_ok_def landed_ok_def Let_def)
    qed (use that others call in auto)
    ultimately show ?thesis using la by (simp add: coord_ok_def)
  next
    case answer
    have "locks_ok ?s"
      using ok task unfolding coord_ok_def locks_ok_def answer by (auto split: if_splits)
    moreover have "phase_ok ?s k" if "fmlookup (tasks ?s) t' = Some k" for t' k
    proof (cases "t' = t")
      case True
      have "\<exists>g \<in> set (plain_landed s (j_sid j)). since \<le> g_ended g" if "so_coalesced outcome"
      proof -
        have "full_syncs_of s (j_sid j) = of_nat (length (plain_landed s (j_sid j)))"
          using ok by (simp add: coord_ok_def landed_ok_def)
        with that answer(3) since(2) have "\<exists>g \<in> set (plain_landed s (j_sid j)). \<not> g_ended g < since"
          by (intro moved_on) simp
        then show ?thesis by (auto simp: not_less)
      qed
      with that True answer(1) since(1) st show ?thesis by (auto simp: phase_ok_def Let_def)
    qed (use that others answer in auto)
    ultimately show ?thesis using la by (simp add: coord_ok_def)
  qed
qed

lemma coord_ok_land:
  assumes ok: "coord_ok s"
    and task: "fmlookup (tasks s) t = Some \<lparr>t_job = j, t_since = since, t_phase = Gathering begun result\<rparr>"
  shows "coord_ok (land enrichment now ms unix_now t j since begun result s)"
proof -
  let ?s = "land enrichment now ms unix_now t j since begun result s"
  let ?g = "\<lparr>g_sid = j_sid j, g_begun = begun, g_ended = steps s, g_plain = coalescable (j_req j)\<rparr>"
  obtain outcome where sh: "steps ?s = Suc (steps s)" "locks ?s = fmdrop (j_sid j) (locks s)" "\<not> so_coalesced outcome"
    "tasks ?s = fmupd t \<lparr>t_job = j, t_since = since, t_phase = Finished outcome\<rparr> (tasks s)"
    "landed ?s = (if success outcome then ?g # landed s else landed s)"
    "\<And>sid. full_syncs_of ?s sid = (if sid = j_sid j \<and> coalescable (j_req j) \<and> success outcome
        then full_syncs_of s sid + 1 else full_syncs_of s sid)"
    using land_shape [of enrichment now ms unix_now t j since begun result s] by blast
  have ph: "since < steps s" "begun < steps s" "\<forall>g \<in> set (landed s). g_sid g = j_sid j \<longrightarrow> g_ended g < begun"
    using task_ok [OF ok task] by (simp_all add: phase_ok_def)
  have held: "fmlookup (locks s) (j_sid j) = Some t" using ok task by (auto simp: coord_ok_def locks_ok_def)
  have lk: "locks_ok ?s"
    unfolding locks_ok_def
  proof (intro allI)
    fix sid t'
    show "fmlookup (locks ?s) sid = Some t' \<longleftrightarrow> (\<exists>j since b r. fmlookup (tasks ?s) t' =
        Some \<lparr>t_job = j, t_since = since, t_phase = Gathering b r\<rparr> \<and> j_sid j = sid)"
    proof (cases "t' = t")
      case True
      have "fmlookup (locks s) sid = Some t \<Longrightarrow> sid = j_sid j"
        using ok task by (auto simp: coord_ok_def locks_ok_def)
      with True show ?thesis by (auto simp: sh(2,4))
    next
      case False
      have "fmlookup (locks s) sid = Some t' \<longleftrightarrow> (\<exists>j since b r. fmlookup (tasks s) t' =
        Some \<lparr>t_job = j, t_since = since, t_phase = Gathering b r\<rparr> \<and> j_sid j = sid)"
        using ok by (simp add: coord_ok_def locks_ok_def)
      moreover have "sid = j_sid j \<Longrightarrow> fmlookup (locks s) sid \<noteq> Some t'" using held False by simp
      ultimately show ?thesis using False by (auto simp: sh(2,4))
    qed
  qed
  have la: "landed_ok ?s"
    using ok ph by (auto simp: coord_ok_def landed_ok_def sh(1,5,6) less_Suc_eq)
  have "phase_ok ?s k" if k: "fmlookup (tasks ?s) t' = Some k" for t' k
  proof (cases "t' = t")
    case True
    with k ph(1) show ?thesis by (auto simp: sh phase_ok_def Let_def)
  next
    case False
    with k have k': "fmlookup (tasks s) t' = Some k" by (simp add: sh(4))
    with ok have p: "phase_ok s k" by (simp add: coord_ok_def)
    have ne: "j_sid (t_job k) \<noteq> j_sid j" if "t_phase k = Gathering b r" for b r
    proof
      assume "j_sid (t_job k) = j_sid j"
      moreover have "fmlookup (tasks s) t' = Some \<lparr>t_job = t_job k, t_since = t_since k, t_phase = Gathering b r\<rparr>"
        using that k' by simp
      ultimately have "fmlookup (locks s) (j_sid j) = Some t'"
        using ok unfolding coord_ok_def locks_ok_def by blast
      with held False show False by simp
    qed
    show ?thesis
    proof (cases "success outcome")
      case True
      then have "landed ?s = ?g # landed s" using sh(5) by simp
      with p sh(1) show ?thesis by (rule phase_ok_landed) (use ne in simp_all)
    next
      case False
      then have "landed ?s = landed s" using sh(5) by simp
      with p sh(1) show ?thesis by (rule phase_ok_later)
    qed
  qed
  with lk la show ?thesis by (simp add: coord_ok_def)
qed

lemma coord_reach_ok: "coord_reach st s \<Longrightarrow> coord_ok s"
proof (induction rule: coord_reach.induct)
  case Start
  show ?case by (simp add: coord_init_def coord_ok_def locks_ok_def landed_ok_def full_syncs_of_def)
next
  case (Step s s')
  from Step(2,3) show ?case
    by (cases rule: coord_step.cases) (simp_all add: coord_ok_arrive coord_ok_acquire coord_ok_land)
qed

section \<open>What the lock and the counter give\<close>

text \<open>
  C2. The gathers of one source never overlap: of two runs of a source that landed, the later
  one had begun only after the earlier one had ended, whatever the tasks and the order of
  their steps, so a gather that was slow can never be written over a newer one.
\<close>

theorem gathers_never_overlap:
  assumes "coord_reach st s"
  shows "sorted_wrt (\<lambda>new old. g_sid new = g_sid old \<longrightarrow> g_ended old < g_begun new) (landed s)
    \<and> (\<forall>t t' j j' b b' i i' r r'.
         fmlookup (tasks s) t = Some \<lparr>t_job = j, t_since = i, t_phase = Gathering b r\<rparr> \<and>
         fmlookup (tasks s) t' = Some \<lparr>t_job = j', t_since = i', t_phase = Gathering b' r'\<rparr> \<and> j_sid j = j_sid j'
           \<longrightarrow> t = t')"
proof -
  from assms have ok: "coord_ok s" by (rule coord_reach_ok)
  have "t = t'" if "fmlookup (tasks s) t = Some \<lparr>t_job = j, t_since = i, t_phase = Gathering b r\<rparr>"
    "fmlookup (tasks s) t' = Some \<lparr>t_job = j', t_since = i', t_phase = Gathering b' r'\<rparr>" "j_sid j = j_sid j'"
    for t t' j j' b b' i i' r r'
  proof -
    from that(1) have "fmlookup (locks s) (j_sid j) = Some t" using locks_iff [OF ok] by blast
    moreover from that(2,3) have "fmlookup (locks s) (j_sid j) = Some t'" using locks_iff [OF ok] by metis
    ultimately show ?thesis by simp
  qed
  with ok show ?thesis by (auto simp: coord_ok_def landed_ok_def)
qed


definition vm_job :: job where
  "vm_job = \<lparr>j_sid = ''vm'', j_source = sample_source, j_req = plain_request Scope_full\<rparr>"

text \<open>Two requests: the second begins while the first one gathers.\<close>

definition overtaken :: coord where
  "overtaken =
     (let env = sample_env (Run_ok (output_of_dataset sample_dataset));
          s1 = acquire env None 5 1 100 0 vm_job 0 0 (arrive 0 vm_job (coord_init sample_state));
          s2 = arrive 1 vm_job s1;
          s3 = land None 9 4 100 0 vm_job 0 1 (Run_ok (output_of_dataset sample_dataset)) s2
      in acquire env None 9 1 100 1 vm_job 2 0 s3)"

lemma vm_job_simps [simp]:
  "j_sid vm_job = ''vm''" "j_source vm_job = sample_source" "coalescable (j_req vm_job)"
  by (simp_all add: vm_job_def coalescable_def plain_request_def)


lemma overtaken_reached:
  "coord_reach sample_state overtaken \<and>
   (\<exists>outcome. so_coalesced outcome \<and>
      fmlookup (tasks overtaken) 1 = Some \<lparr>t_job = vm_job, t_since = 2, t_phase = Finished outcome\<rparr>)
   \<and> landed overtaken = [\<lparr>g_sid = ''vm'', g_begun = 1, g_ended = 3, g_plain = True\<rparr>]"
proof -
  let ?out = "Run_ok (output_of_dataset sample_dataset)"
  let ?env = "sample_env ?out"
  let ?s0 = "arrive 0 vm_job (coord_init sample_state)"
  let ?s1 = "acquire ?env None 5 1 100 0 vm_job 0 0 ?s0"
  let ?s2 = "arrive 1 vm_job ?s1"
  let ?s3 = "land None 9 4 100 0 vm_job 0 1 ?out ?s2"
  have c0: "full_syncs_of ?s0 ''vm'' = 0" by (simp add: arrive_shape coord_init_def) (simp add: full_syncs_of_def)
  have s1: "?s1 = set_phase 0 vm_job 0 (Gathering (steps ?s0) ?out)
      (?s0\<lparr>steps := Suc (steps ?s0), locks := fmupd ''vm'' 0 (locks ?s0)\<rparr>)"
    by (simp add: acquire_def c0 sample_sync_call)
  have t0: "fmlookup (tasks ?s0) 0 = Some \<lparr>t_job = vm_job, t_since = 0, t_phase = Queued 0\<rparr>"
    by (simp add: arrive_shape coord_init_def) (simp add: full_syncs_of_def)
  have l0: "fmlookup (locks ?s0) ''vm'' = None" by (simp add: arrive_shape coord_init_def)
  have st: "steps ?s0 = 1" "landed ?s0 = []" by (simp_all add: arrive_shape coord_init_def)
  have c1: "full_syncs_of ?s1 ''vm'' = 0" unfolding s1 by (simp add: c0)
  have t1: "fmlookup (tasks ?s1) 1 = None" unfolding s1 by (simp add: arrive_shape coord_init_def)
  have t2: "fmlookup (tasks ?s2) 0 = Some \<lparr>t_job = vm_job, t_since = 0, t_phase = Gathering 1 ?out\<rparr>"
    "fmlookup (tasks ?s2) 1 = Some \<lparr>t_job = vm_job, t_since = 2, t_phase = Queued 0\<rparr>"
    unfolding arrive_shape s1 by (simp_all add: st c0) (simp_all add: coord_init_def)
  have st2: "steps ?s2 = 3" "landed ?s2 = []" "full_syncs_of ?s2 ''vm'' = 0"
    unfolding arrive_shape by (simp only: s1 set_phase_simps, simp add: st,
      simp only: s1 set_phase_simps, simp add: st, rule c1)
  obtain outcome where sh: "locks ?s3 = fmdrop ''vm'' (locks ?s2)"
    "tasks ?s3 = fmupd 0 \<lparr>t_job = vm_job, t_since = 0, t_phase = Finished outcome\<rparr> (tasks ?s2)"
    using land_shape [of None 9 4 100 0 vm_job 0 1 ?out ?s2] by auto
  have t3: "fmlookup (tasks ?s3) 1 = Some \<lparr>t_job = vm_job, t_since = 2, t_phase = Queued 0\<rparr>"
    unfolding sh using t2(2) by simp
  have l3: "fmlookup (locks ?s3) (j_sid vm_job) = None" unfolding sh by simp
  have s3: "landed ?s3 = [\<lparr>g_sid = ''vm'', g_begun = 1, g_ended = 3, g_plain = True\<rparr>]"
    "full_syncs_of ?s3 ''vm'' = 1"
    using land_ok [where j = vm_job and s = ?s2 and out = "output_of_dataset sample_dataset"]
    by (simp_all only: st2 vm_job_simps simp_thms if_True) simp
  have o: "overtaken = set_phase 1 vm_job 2 (Finished (coalesced_answer ''vm'' (ss_cache (shared ?s3)))) (?s3\<lparr>steps := Suc (steps ?s3)\<rparr>)"
    unfolding overtaken_def Let_def
    using acquire_coalesced [of vm_job ?s3 0 ?env None 9 1 100 1 2] s3(2) by (simp only: vm_job_simps) simp
  have "coord_reach sample_state ?s0"
    by (intro coord_reach.Step [OF coord_reach.Start] coord_step.Arrive) (simp add: coord_init_def)
  then have "coord_reach sample_state ?s1"
    by (rule coord_reach.Step) (rule coord_step.Acquire [OF t0], simp add: l0)
  then have "coord_reach sample_state ?s2"
    by (rule coord_reach.Step) (rule coord_step.Arrive [OF t1])
  then have "coord_reach sample_state ?s3"
    by (rule coord_reach.Step) (rule coord_step.Land [OF t2(1)])
  moreover have "coord_step ?s3 overtaken"
    unfolding overtaken_def Let_def
    by (rule coord_step.Acquire [OF t3 l3])
  ultimately have "coord_reach sample_state overtaken" by (rule coord_reach.Step)
  moreover have "so_coalesced (coalesced_answer sid c)" for sid c
    by (simp add: coalesced_answer_def split: prod.split)
  moreover have "landed overtaken = [\<lparr>g_sid = ''vm'', g_begun = 1, g_ended = 3, g_plain = True\<rparr>]"
    unfolding o set_phase_simps using s3(1) by simp
  moreover have "fmlookup (tasks overtaken) 1 = Some \<lparr>t_job = vm_job, t_since = 2,
      t_phase = Finished (coalesced_answer ''vm'' (ss_cache (shared ?s3)))\<rparr>"
    unfolding o set_phase_simps by simp
  ultimately show ?thesis by blast
qed


theorem gathers_never_overlap_witness:
  "sorted_wrt (\<lambda>new old. g_sid new = g_sid old \<longrightarrow> g_ended old < g_begun new) (landed overtaken)"
  using gathers_never_overlap [of sample_state overtaken] overtaken_reached by blast

text \<open>
  Counter-example: the sync a coalesced request is answered from need not have started
  after the request began. Of two plain full requests the second begins while the first one
  gathers; it is answered from that gather, which had begun before it.
\<close>

theorem coalesced_from_earlier_gather:
  "\<exists>s t k outcome. coord_reach sample_state s \<and> fmlookup (tasks s) t = Some k
     \<and> t_phase k = Finished outcome \<and> so_coalesced outcome
     \<and> (\<exists>g. landed s = [g] \<and> g_sid g = j_sid (t_job k) \<and> g_begun g < t_since k)"
proof -
  obtain outcome where o: "so_coalesced outcome"
    "fmlookup (tasks overtaken) 1 = Some \<lparr>t_job = vm_job, t_since = 2, t_phase = Finished outcome\<rparr>"
    using overtaken_reached by blast
  show ?thesis
    by (intro exI [of _ overtaken] exI [of _ 1] exI [of _ "\<lparr>t_job = vm_job, t_since = 2, t_phase = Finished outcome\<rparr>"]
        exI [of _ outcome]) (use o overtaken_reached in \<open>simp del: One_nat_def\<close>)
qed

section \<open>Progress\<close>

fun rank :: "phase \<Rightarrow> nat" where
  "rank (Queued n) = 2"
| "rank (Gathering b r) = 1"
| "rank (Finished out) = 0"

text \<open>
  No request waits for ever on the others: while a task has not finished, some task of the
  same source (itself, or the one that holds the lock) has a step that brings it closer to
  its end and touches no other task.
\<close>

theorem coordinator_not_stuck:
  assumes "coord_reach st s" and "fmlookup (tasks s) t = Some k" and "rank (t_phase k) > 0"
  shows "\<exists>s' t' k1 k2. coord_step s s' \<and> fmlookup (tasks s) t' = Some k1 \<and> fmlookup (tasks s') t' = Some k2
    \<and> j_sid (t_job k1) = j_sid (t_job k) \<and> t_job k2 = t_job k1 \<and> rank (t_phase k2) < rank (t_phase k1)
    \<and> (\<forall>u. u \<noteq> t' \<longrightarrow> fmlookup (tasks s') u = fmlookup (tasks s) u)"
proof -
  from assms(1) have ok: "coord_ok s" by (rule coord_reach_ok)
  obtain j since p where k: "k = \<lparr>t_job = j, t_since = since, t_phase = p\<rparr>" by (cases k)
  have landing: ?thesis
    if g: "fmlookup (tasks s) t' = Some \<lparr>t_job = j', t_since = i, t_phase = Gathering b r\<rparr>" and "j_sid j' = j_sid j"
    for t' j' i b r
  proof -
    let ?s' = "land None 0 0 0 t' j' i b r s"
    obtain outcome where "tasks ?s' = fmupd t' \<lparr>t_job = j', t_since = i, t_phase = Finished outcome\<rparr> (tasks s)"
      using land_shape [of None 0 0 0 t' j' i b r s] by blast
    with g that(2) coord_step.Land [OF g, of None 0 0 0] k show ?thesis
      by (intro exI [of _ ?s'] exI [of _ t']) auto
  qed
  show ?thesis
  proof (cases p)
    case (Queued before)
    with assms(2) k have q: "fmlookup (tasks s) t = Some \<lparr>t_job = j, t_since = since, t_phase = Queued before\<rparr>" by simp
    show ?thesis
    proof (cases "fmlookup (locks s) (j_sid j)")
      case None
      let ?s' = "acquire (sample_env Run_timed_out) None 0 0 0 t j since before s"
      obtain p' where "tasks ?s' = fmupd t \<lparr>t_job = j, t_since = since, t_phase = p'\<rparr> (tasks s)" "rank p' < 2"
        using acquire_shape [of "sample_env Run_timed_out" None 0 0 0 t j since before s]
        by (metis rank.simps(2,3) one_less_numeral_iff semiring_norm(76) zero_less_numeral)
      with q coord_step.Acquire [OF q None, of "sample_env Run_timed_out" None 0 0 0] k Queued show ?thesis
        by (intro exI [of _ ?s'] exI [of _ t]) auto
    next
      case (Some t')
      then show ?thesis using locks_iff [OF ok, of "j_sid j" t'] landing by blast
    qed
  next
    case (Gathering b r)
    with assms(2) k show ?thesis by (intro landing) auto
  next
    case (Finished out)
    with assms(3) k show ?thesis by simp
  qed
qed

theorem coordinator_not_stuck_witness:
  "\<exists>s'. coord_step (arrive 0 vm_job (coord_init sample_state)) s'"
proof -
  have r: "coord_reach sample_state (arrive 0 vm_job (coord_init sample_state))"
    by (intro coord_reach.Step [OF coord_reach.Start] coord_step.Arrive) (simp add: coord_init_def)
  have t: "fmlookup (tasks (arrive 0 vm_job (coord_init sample_state))) 0 =
      Some \<lparr>t_job = vm_job, t_since = 0, t_phase = Queued 0\<rparr>"
    by (simp add: arrive_shape coord_init_def) (simp add: full_syncs_of_def)
  from coordinator_not_stuck [OF r t] show ?thesis by auto
qed

end
