(* ===== verification/Refresh.thy ===== *)
theory Refresh
  imports Sync
begin

text \<open>
  Reads that may go and get newer data first: \<open>src/src/application/refresh.rs\<close>. The stale
  hosts of a read are computed, locked one by one in sorted order, computed again, and synced
  within a budget under a permit of a process-wide limiter. The lemmas say which hosts are
  gathered and how often, that every attempt is recorded once, and how far the limiter bounds
  concurrency. The host locks are in \<open>Refresh_Locks\<close>.
\<close>

section \<open>Which hosts are stale\<close>

definition stale_hosts ::
  "instant \<Rightarrow> mem_cache \<Rightarrow> source \<Rightarrow> string \<Rightarrow> string list \<Rightarrow> nat option \<Rightarrow> string list" where
  "stale_hosts now c src sid hosts ttl_override =
     (case mc_get c sid of
        None \<Rightarrow> hosts
      | Some entry \<Rightarrow>
          (let group_ttls = group_ttl_by_host src (e_dataset entry);
               default_ttl' = (case ttl_override of Some t \<Rightarrow> t | None \<Rightarrow> as_secs (e_ttl entry))
           in filter (\<lambda>h. \<not> is_host_fresh now entry h (Some (effective_ttl src h group_ttls default_ttl'))) hosts))"

section \<open>One refresh\<close>

record refresh_outcome =
  refreshed :: "string list"
  already_fresh :: nat
  rf_error :: "string option"

definition no_refresh :: refresh_outcome where
  "no_refresh = \<lparr>refreshed = [], already_fresh = 0, rf_error = None\<rparr>"

definition refresh_failed :: "string \<Rightarrow> refresh_outcome" where
  "refresh_failed e = no_refresh\<lparr>rf_error := Some e\<rparr>"

definition refresh_request :: "string list \<Rightarrow> sync_request" where
  "refresh_request hosts =
     with_run_trigger Refresh (with_trigger ''refresh'' (refreshing_origin (Scope_hosts hosts) DEFAULT_REFRESH_DEPTH))"

text \<open>
  How the sync under the budget ended: in time, with its state and outcome, or abandoned,
  with the state it left (the one before it, or one in which its run is recorded and its
  enrichers have got as far as they have).
\<close>

datatype sync_end = In_time sync_state sync_outcome | Abandoned sync_state

definition budget_text :: "nat \<Rightarrow> string" where
  "budget_text budget = ''refresh did not finish within '' @ show_nat budget @ ''s''"

definition first_run :: "health_registry \<Rightarrow> string \<Rightarrow> run_record option" where
  "first_run r sid = (case history r sid of [] \<Rightarrow> None | run # _ \<Rightarrow> Some run)"

definition refresh_landed :: "run_record option \<Rightarrow> string \<Rightarrow> string \<Rightarrow> health_registry \<Rightarrow> bool" where
  "refresh_landed newest_before scope_label sid r =
     (case first_run r sid of
        None \<Rightarrow> False
      | Some run \<Rightarrow> Some run \<noteq> newest_before \<and> trigger run = Refresh \<and> run_scope run = Some scope_label)"

definition refresh_done ::
  "instant \<Rightarrow> nat \<Rightarrow> nat \<Rightarrow> nat \<Rightarrow> string \<Rightarrow> string list \<Rightarrow> string list \<Rightarrow> run_record option
     \<Rightarrow> sync_end \<Rightarrow> sync_state \<times> refresh_outcome" where
  "refresh_done now ms unix_now budget sid hosts still_stale newest_before e =
     (case e of
        In_time st outcome \<Rightarrow>
          (st, case so_error outcome of
                 None \<Rightarrow> \<lparr>refreshed = still_stale, already_fresh = length hosts - length still_stale, rf_error = None\<rparr>
               | Some err \<Rightarrow> refresh_failed (sync_error_text err))
      | Abandoned st \<Rightarrow>
          (let err = budget_text budget; scope_label = label (Scope_hosts still_stale); h = ss_health st
           in (if refresh_landed newest_before scope_label sid h then st
               else st\<lparr>ss_health := record_run sid
                     \<lparr>started_at = unix_now, duration_ms = ms, trigger = Refresh, run_by = None,
                      run_scope = Some scope_label, run_error = Some err, run_hosts = None, run_groups = None,
                      revision_before = None, revision = None\<rparr>
                     (record_failure now sid err h)\<rparr>,
               refresh_failed err)))"

text \<open>
  \<open>refresh_hosts\<close> of one request: \<open>st\<close> is the state at the first check, \<open>st'\<close> the one once the
  locks and the permit are held, and \<open>run\<close> the sync under its budget.
\<close>

definition refresh_hosts ::
  "instant \<Rightarrow> instant \<Rightarrow> nat \<Rightarrow> nat \<Rightarrow> nat \<Rightarrow> string \<Rightarrow> source \<Rightarrow> string list \<Rightarrow> nat option
     \<Rightarrow> (sync_request \<Rightarrow> sync_state \<Rightarrow> sync_end) \<Rightarrow> sync_state \<Rightarrow> sync_state \<Rightarrow> sync_state \<times> refresh_outcome" where
  "refresh_hosts now now' ms unix_now budget sid src hosts ttl_override run st st' =
     (if hosts = [] then (st, no_refresh)
      else
        (let stale = stale_hosts now (ss_cache st) src sid hosts ttl_override
         in if stale = [] then (st, no_refresh\<lparr>already_fresh := length hosts\<rparr>)
            else
              (let still_stale = stale_hosts now' (ss_cache st') src sid stale ttl_override
               in if still_stale = [] then (st', no_refresh\<lparr>already_fresh := length hosts\<rparr>)
                  else refresh_done now' ms unix_now budget sid hosts still_stale
                         (first_run (ss_health st') sid) (run (refresh_request still_stale) st'))))"

text \<open>The sync that finished in time.\<close>

definition timely_sync ::
  "sync_env \<Rightarrow> (enricher_env \<times> (string, enricher) fmap) option \<Rightarrow> instant \<Rightarrow> nat \<Rightarrow> nat
     \<Rightarrow> string \<Rightarrow> source \<Rightarrow> u64 \<Rightarrow> sync_request \<Rightarrow> sync_state \<Rightarrow> sync_end" where
  "timely_sync env enrichment now ms unix_now sid src n req st =
     (let ((_, st'), outcome) = sync_source env enrichment now ms unix_now sid src req n (n, st)
      in In_time st' outcome)"

section \<open>What is gathered\<close>

lemma stale_hosts_sub: "set (stale_hosts now c src sid hosts o') \<subseteq> set hosts"
  by (auto simp: stale_hosts_def Let_def split: option.splits)

lemma sync_source_scoped:
  "\<not> coalescable req \<Longrightarrow> sync_source env None now ms u sid src req n (n, st) =
     (let ((c, scopes), outcome) = run_sync env now ms sid src req (ss_cache st, ss_scopes st)
      in (after_run None now ms u sid req outcome (n, st\<lparr>ss_cache := c, ss_scopes := scopes\<rparr>), outcome))"
  by (simp add: sync_source_def)

lemma refresh_request_simps [simp]:
  "sr_scope (refresh_request hs) = Scope_hosts hs" "refresh_origin (refresh_request hs)"
  "sr_run_trigger (refresh_request hs) = Refresh" "\<not> coalescable (refresh_request hs)"
  by (simp_all add: refresh_request_def with_run_trigger_def with_trigger_def refreshing_origin_def coalescable_def)

lemma after_run_cache: "ss_cache (snd (after_run None now ms u sid req outcome (n, st))) = ss_cache st"
  by (simp add: after_run_def)

text \<open>What a scoped run leaves of the entry: it failed, or it wrote what the connector returned.\<close>

lemma run_sync_hosts:
  assumes "run_sync env now ms sid src (refresh_request hs) (c, scopes) = ((c', scopes'), outcome)"
  shows "\<not> success outcome \<and> c' = c
    \<or> success outcome \<and> (\<exists>out. sync_call env ms src (refresh_request hs) c = Inr (Run_ok out)
          \<and> c' = apply_to_cache now sid src (Scope_hosts hs) out c)"
  using assms
  by (auto simp: run_sync_def sync_landed_def sync_failed_def success_def Let_def sync_call_def
      split: sum.splits run_result.splits)



section \<open>How often a host is gathered\<close>

lemma stale_iff:
  "mc_get c sid = Some e \<Longrightarrow>
     h \<in> set (stale_hosts now c src sid hs o') \<longleftrightarrow>
       h \<in> set hs \<and> (case fmlookup (host_timestamps e) h of
          None \<Rightarrow> True
        | Some ts \<Rightarrow> from_secs (effective_ttl src h (group_ttl_by_host src (e_dataset e))
            (case o' of Some t \<Rightarrow> t | None \<Rightarrow> as_secs (e_ttl e))) \<le> elapsed now ts)"
  by (auto simp: stale_hosts_def is_host_fresh_def Let_def split: option.splits)

text \<open>
  How often a read gathers a host, after a refresh that succeeded: one the connector
  returned is not stale again before its TTL has passed since, however many reads name it;
  but one it did not return, and of which the cache had no clock, is stale at every later
  read, at once and as often as it is named.
\<close>

theorem refresh_window:
  assumes "run_sync env now ms sid src (refresh_request hs) (c, scopes) = ((c', scopes'), outcome)"
    and "success outcome" and "mc_get c sid = Some old"
    and "sync_call env ms src (refresh_request hs) c = Inr (Run_ok out)" and "co_ages out = None"
    and "h \<in> set hs" and "now \<le> later"
  shows "\<exists>e'. mc_get c' sid = Some e' \<and>
    (case fmlookup (hostvars (co_dataset out)) h of
       Some v \<Rightarrow> h \<in> set (stale_hosts later c' src sid hs o') \<longleftrightarrow>
          from_secs (effective_ttl src h (group_ttl_by_host src (e_dataset e'))
            (case o' of Some t \<Rightarrow> t | None \<Rightarrow> as_secs (e_ttl e'))) \<le> later - now
     | None \<Rightarrow> fmlookup (host_timestamps old) h = None \<longrightarrow> h \<in> set (stale_hosts later c' src sid hs o'))"
proof -
  have c': "c' = apply_to_cache now sid src (Scope_hosts hs) out c"
    using run_sync_hosts [OF assms(1)] assms(2,4) by auto
  obtain e' where e: "mc_get (apply_to_cache now sid src (Scope_hosts hs) out c) sid = Some e'"
    "\<forall>h v. h \<in> set hs \<and> fmlookup (hostvars (co_dataset out)) h = Some v \<longrightarrow>
          fmlookup (hostvars (e_dataset e')) h = Some v
          \<and> fmlookup (host_timestamps e') h =
              Some (if from_secs (reported_age out h) \<le> now then now - from_secs (reported_age out h) else now)"
    "\<forall>h. h \<notin> set hs \<or> fmlookup (hostvars (co_dataset out)) h = None \<longrightarrow>
          fmlookup (hostvars (e_dataset e')) h = fmlookup (hostvars (e_dataset old)) h
          \<and> fmlookup (host_timestamps e') h = fmlookup (host_timestamps old) h
          \<and> (\<forall>m. h \<in> members e' m \<longleftrightarrow> h \<in> members old m)"
    using host_sync_entry_clocks [OF assms(3), of now src hs out]
    by (elim exE conjE) (rule that, assumption, blast, assumption)
  have age: "reported_age out h = 0" using assms(5) by (simp add: reported_age_def)
  show ?thesis
  proof (cases "fmlookup (hostvars (co_dataset out)) h")
    case None
    with e(1,3) c' assms(6) show ?thesis by (auto simp: stale_iff)
  next
    case (Some v)
    with e(2) assms(6) age have "fmlookup (host_timestamps e') h = Some now" by (simp add: from_secs_def)
    with Some e(1) c' assms(6) show ?thesis by (simp add: stale_iff elapsed_def)
  qed
qed

theorem refresh_window_witness:
  "let c' = fst (fst (run_sync (sample_env (Run_ok (output_of_dataset empty_dataset))) (from_secs 10) 1 ''vm'' sample_source
             (refresh_request [''ghost'']) (vm_cache, fmempty)))
   in ''ghost'' \<in> set (stale_hosts (from_secs 10) c' sample_source ''vm'' [''ghost''] None)"
proof -
  let ?env = "sample_env (Run_ok (output_of_dataset empty_dataset))"
  obtain c' scopes' outcome where r: "run_sync ?env (from_secs 10) 1 ''vm'' sample_source (refresh_request [''ghost''])
      (vm_cache, fmempty) = ((c', scopes'), outcome)" by (metis prod.collapse)
  then have s: "success outcome"
    by (auto simp: run_sync_def sample_sync_call sync_landed_def success_def Let_def)
  have a: "co_ages (output_of_dataset empty_dataset) = None" by (simp add: output_of_dataset_def)
  have h: "''ghost'' \<in> set [''ghost'']" by simp
  have "fmlookup (hostvars (co_dataset (output_of_dataset empty_dataset))) ''ghost'' = None"
    "fmlookup (host_timestamps (ce_new 0 sample_dataset 60)) ''ghost'' = None"
    by (simp_all add: output_of_dataset_def empty_dataset_def ce_new_def sample_dataset_def fmlookup_of_list)
  with refresh_window [OF r s vm_cache_get sample_sync_call a h order.refl, of None] r show ?thesis
    by (simp add: Let_def)
qed

section \<open>An abandoned refresh\<close>



section \<open>The limiter\<close>

text \<open>
  The semaphore with its waiters, first come first served: \<open>lm_free\<close> permits nobody holds,
  \<open>lm_held\<close> held, \<open>lm_waiting\<close> requests queued. A permit handed back goes to a waiter before it
  is free again.
\<close>

record limiter =
  lm_free :: nat
  lm_held :: nat
  lm_waiting :: nat
  lm_capacity :: nat
  lm_debt :: nat

definition limiter_new :: "nat \<Rightarrow> limiter" where
  "limiter_new max_concurrent =
     \<lparr>lm_free = max max_concurrent 1, lm_held = 0, lm_waiting = 0, lm_capacity = max max_concurrent 1, lm_debt = 0\<rparr>"

definition add_permits :: "nat \<Rightarrow> limiter \<Rightarrow> limiter" where
  "add_permits n l =
     (let woken = min n (lm_waiting l)
      in l\<lparr>lm_free := lm_free l + (n - woken), lm_held := lm_held l + woken, lm_waiting := lm_waiting l - woken\<rparr>)"

text \<open>\<open>forget_permits\<close> takes what is free, up to \<open>n\<close>; the debt goes down by what it took.\<close>

definition settle :: "nat \<Rightarrow> limiter \<Rightarrow> limiter" where
  "settle n l = (let k = min n (lm_free l) in l\<lparr>lm_free := lm_free l - k, lm_debt := lm_debt l - k\<rparr>)"

definition resize :: "nat \<Rightarrow> limiter \<Rightarrow> limiter" where
  "resize max_concurrent l =
     (let target = max max_concurrent 1
      in if lm_capacity l \<le> target
         then (let grow = target - lm_capacity l; cancelled = min grow (lm_debt l)
               in add_permits (grow - cancelled) (l\<lparr>lm_debt := lm_debt l - cancelled, lm_capacity := target\<rparr>))
         else (let shrink = lm_capacity l - target
               in (settle shrink (l\<lparr>lm_debt := lm_debt l + shrink\<rparr>))\<lparr>lm_capacity := target\<rparr>))"

definition acquire_permit :: "limiter \<Rightarrow> limiter" where
  "acquire_permit l =
     (let l = (if 0 < lm_debt l then settle (lm_debt l) l else l)
      in if 0 < lm_free l then l\<lparr>lm_free := lm_free l - 1, lm_held := lm_held l + 1\<rparr>
         else l\<lparr>lm_waiting := lm_waiting l + 1\<rparr>)"

text \<open>A refresh that ends gives its permit back.\<close>

definition release_permit :: "limiter \<Rightarrow> limiter" where
  "release_permit l = (if lm_held l = 0 then l else add_permits 1 (l\<lparr>lm_held := lm_held l - 1\<rparr>))"

datatype limiter_op = Resize nat | Acquire_permit | Release_permit

fun limiter_step :: "limiter_op \<Rightarrow> limiter \<Rightarrow> limiter" where
  "limiter_step (Resize n) l = resize n l"
| "limiter_step Acquire_permit l = acquire_permit l"
| "limiter_step Release_permit l = release_permit l"

definition limiter_ok :: "limiter \<Rightarrow> bool" where
  "limiter_ok l \<longleftrightarrow> lm_free l + lm_held l = lm_capacity l + lm_debt l \<and> 1 \<le> lm_capacity l
     \<and> (0 < lm_waiting l \<longrightarrow> lm_free l = 0)"

lemmas limiter_defs = resize_def acquire_permit_def release_permit_def add_permits_def settle_def limiter_ok_def Let_def

lemma limiter_step_ok: "limiter_ok l \<Longrightarrow> limiter_ok (limiter_step p l)"
  by (cases p) (auto simp: limiter_defs min_def max_def split: if_splits)

lemma limiter_steps_ok: "limiter_ok l \<Longrightarrow> limiter_ok (fold limiter_step ps l)"
  by (induction ps arbitrary: l) (auto simp: limiter_step_ok)

text \<open>
  The limiter never loses or invents a permit, whatever resizes, requests and releases
  happen and in whatever order: the permits free and held are the declared capacity plus
  what a shrink could not reclaim yet, so no more refreshes run than that; a request waits
  only when no permit is free, and with nothing left to reclaim the bound is the capacity.
\<close>

theorem limiter_bounded:
  "let l = fold limiter_step ps (limiter_new n)
   in lm_free l + lm_held l = lm_capacity l + lm_debt l \<and> 1 \<le> lm_capacity l
      \<and> (lm_waiting l = 0 \<or> lm_free l = 0)
      \<and> lm_held (acquire_permit l) \<le> max (lm_held l) (lm_capacity l)"
proof -
  let ?l = "fold limiter_step ps (limiter_new n)"
  have "limiter_ok (limiter_new n)" by (simp add: limiter_ok_def limiter_new_def)
  then have ok: "limiter_ok ?l" by (rule limiter_steps_ok)
  then have "lm_held (acquire_permit ?l) \<le> max (lm_held ?l) (lm_capacity ?l)"
    by (auto simp: limiter_defs min_def max_def split: if_splits)
  with ok show ?thesis unfolding Let_def by (auto simp: limiter_ok_def)
qed

text \<open>
  Counter-example: a shrink need not converge. With every permit held and a request
  waiting, as long as requests keep arriving no later than permits come back, the limiter
  stays over its declared capacity for ever: the permit handed back goes to the waiter, and
  the new arrival finds none to reclaim.
\<close>

theorem shrink_never_settles:
  "let l = fold limiter_step ([Acquire_permit, Acquire_permit, Acquire_permit, Resize 1]
             @ concat (replicate k [Acquire_permit, Release_permit])) (limiter_new 2)
   in lm_capacity l = 1 \<and> lm_held l = 2"
proof -
  let ?l = "\<lparr>lm_free = 0, lm_held = 2, lm_waiting = 1, lm_capacity = 1, lm_debt = 1\<rparr>"
  have start: "fold limiter_step [Acquire_permit, Acquire_permit, Acquire_permit, Resize 1] (limiter_new 2) = ?l"
    by (simp add: limiter_new_def limiter_defs)
  have one: "limiter_step Release_permit (limiter_step Acquire_permit ?l) = ?l"
    by (simp add: limiter_defs)
  have "fold limiter_step (concat (replicate k [Acquire_permit, Release_permit])) ?l = ?l"
    by (induction k) (simp_all only: replicate.simps concat.simps fold_append fold.simps comp_apply id_apply one)
  with start show ?thesis by (simp only: fold_append comp_apply Let_def) simp
qed

end
