(* ===== verification/Refresh_Locks.thy ===== *)
theory Refresh_Locks
  imports Refresh "HOL-Library.Product_Lexorder"
begin

text \<open>
  The host locks of \<open>src/src/application/refresh.rs\<close>: one mutex per source and host, taken by a
  refresh one after the other in sorted order and held until it ends. The refreshes in flight
  are a map from their number to the locks they hold and still want; a lock is held by at most
  one of them, and a mutex is not reentrant.
\<close>

section \<open>Refreshes and their locks\<close>

type_synonym lock_key = "string \<times> string"

record refresh_task =
  rt_held :: "lock_key list"
  rt_wanted :: "lock_key list"

type_synonym lock_state = "(nat, refresh_task) fmap"

definition lock_order :: "string \<Rightarrow> string list \<Rightarrow> lock_key list" where
  "lock_order sid stale = map (Pair sid) (sort stale)"

definition lock_begin :: "nat \<Rightarrow> string \<Rightarrow> string list \<Rightarrow> lock_state \<Rightarrow> lock_state" where
  "lock_begin t sid stale s = fmupd t \<lparr>rt_held = [], rt_wanted = lock_order sid stale\<rparr> s"

definition lock_free :: "lock_key \<Rightarrow> lock_state \<Rightarrow> bool" where
  "lock_free k s \<longleftrightarrow> (\<forall>task \<in> fmran' s. k \<notin> set (rt_held task))"

text \<open>
  What refresh \<open>t\<close> can do next: take the lock it waits for, when nobody holds it (it holding the
  lock itself included), and with every lock taken, do its work and give them all back.
\<close>

definition lock_move :: "nat \<Rightarrow> lock_state \<Rightarrow> lock_state option" where
  "lock_move t s =
     (case fmlookup s t of
        None \<Rightarrow> None
      | Some task \<Rightarrow>
          (case rt_wanted task of
             [] \<Rightarrow> Some (fmdrop t s)
           | k # ks \<Rightarrow>
               if lock_free k s then Some (fmupd t \<lparr>rt_held = rt_held task @ [k], rt_wanted = ks\<rparr> s) else None))"

inductive lock_step :: "lock_state \<Rightarrow> lock_state \<Rightarrow> bool" where
  begins: "fmlookup s t = None \<Longrightarrow> lock_step s (lock_begin t sid stale s)"
| moves: "lock_move t s = Some s' \<Longrightarrow> lock_step s s'"

inductive lock_reach :: "lock_state \<Rightarrow> lock_state \<Rightarrow> bool" where
  here: "lock_reach s s"
| step: "lock_reach s s' \<Longrightarrow> lock_step s' s'' \<Longrightarrow> lock_reach s s''"

inductive_cases lock_stepE: "lock_step s s'"

definition task_ok :: "refresh_task \<Rightarrow> bool" where
  "task_ok task \<longleftrightarrow> sorted (rt_held task @ rt_wanted task) \<and> distinct (rt_held task)"

definition locks_ok :: "lock_state \<Rightarrow> bool" where
  "locks_ok s \<longleftrightarrow> (\<forall>t task. fmlookup s t = Some task \<longrightarrow> task_ok task)
     \<and> (\<forall>t t' a b. fmlookup s t = Some a \<and> fmlookup s t' = Some b \<and> t \<noteq> t'
          \<longrightarrow> set (rt_held a) \<inter> set (rt_held b) = {})"

definition distinct_locks :: "lock_state \<Rightarrow> bool" where
  "distinct_locks s \<longleftrightarrow> (\<forall>task \<in> fmran' s. distinct (rt_held task @ rt_wanted task))"

section \<open>The invariant\<close>

lemma distinct_locks_iff:
  "distinct_locks s \<longleftrightarrow> (\<forall>t task. fmlookup s t = Some task \<longrightarrow> distinct (rt_held task @ rt_wanted task))"
  unfolding distinct_locks_def by (auto simp only: fmlookup_ran'_iff Ball_def)

lemma lock_free_iff: "lock_free k s \<longleftrightarrow> (\<forall>t task. fmlookup s t = Some task \<longrightarrow> k \<notin> set (rt_held task))"
  by (auto simp: lock_free_def fmran'_def fmlookup_ran'_iff)

lemma lock_order_sorted: "sorted (lock_order sid stale)"
  by (simp add: lock_order_def sorted_map less_eq_prod_def)

lemma lock_move_cases:
  assumes "lock_move t s = Some s'"
  obtains task where "fmlookup s t = Some task" "rt_wanted task = []" "s' = fmdrop t s"
  | task k ks where "fmlookup s t = Some task" "rt_wanted task = k # ks" "lock_free k s"
      "s' = fmupd t \<lparr>rt_held = rt_held task @ [k], rt_wanted = ks\<rparr> s"
  using assms by (auto simp: lock_move_def split: option.splits list.splits if_splits)

lemma lock_step_ok: "lock_step s s' \<Longrightarrow> locks_ok s \<Longrightarrow> locks_ok s'"
proof (erule lock_stepE)
  fix t sid stale assume "locks_ok s" "s' = lock_begin t sid stale s"
  then show "locks_ok s'"
    by (auto simp: locks_ok_def lock_begin_def task_ok_def lock_order_sorted split: if_splits)
next
  fix t assume ok: "locks_ok s" and "lock_move t s = Some s'"
  from this(2) show "locks_ok s'"
  proof (cases rule: lock_move_cases)
    case (1 task)
    with ok show ?thesis by (auto simp: locks_ok_def split: if_splits)
  next
    case (2 task k ks)
    from ok 2(1) have "task_ok task" by (auto simp: locks_ok_def)
    with 2 have "task_ok \<lparr>rt_held = rt_held task @ [k], rt_wanted = ks\<rparr>"
      by (auto simp: task_ok_def lock_free_iff)
    moreover have "set (rt_held task @ [k]) \<inter> set (rt_held b) = {}" if "fmlookup s t' = Some b" "t' \<noteq> t" for t' b
      using ok 2 that by (auto simp: locks_ok_def lock_free_iff) blast
    ultimately show ?thesis using ok 2(4)
      by (auto simp: locks_ok_def split: if_splits)
  qed
qed

lemma lock_reach_ok: "lock_reach s s' \<Longrightarrow> locks_ok s \<Longrightarrow> locks_ok s'"
  by (induction rule: lock_reach.induct) (auto simp: lock_step_ok)

lemma locks_ok_empty: "locks_ok fmempty"
  by (simp add: locks_ok_def)

section \<open>Overlapping refreshes do not deadlock\<close>

definition lock_work :: "lock_state \<Rightarrow> nat" where
  "lock_work s = (\<Sum>t \<in> fmdom' s. case fmlookup s t of None \<Rightarrow> 0 | Some task \<Rightarrow> Suc (length (rt_wanted task)))"

lemma lock_work_pos: "fmlookup s t = Some task \<Longrightarrow>
    lock_work s = Suc (length (rt_wanted task)) + lock_work (fmdrop t s)"
proof -
  assume a: "fmlookup s t = Some task"
  then have "t \<in> fmdom' s" by (simp add: fmdom'I)
  moreover have "(\<Sum>t' \<in> fmdom' s - {t}. case fmlookup s t' of None \<Rightarrow> 0 | Some task \<Rightarrow> Suc (length (rt_wanted task)))
      = lock_work (fmdrop t s)"
    unfolding lock_work_def by (rule sum.cong) auto
  ultimately show ?thesis
    using a by (simp add: lock_work_def sum.remove [of "fmdom' s" t])
qed

lemma lock_move_less: "lock_move t s = Some s' \<Longrightarrow> lock_work s' < lock_work s"
proof (erule lock_move_cases)
  fix task assume "fmlookup s t = Some task" "s' = fmdrop t s"
  then show ?thesis by (simp add: lock_work_pos)
next
  fix task k ks
  assume a: "fmlookup s t = Some task" "rt_wanted task = k # ks"
    and s': "s' = fmupd t \<lparr>rt_held = rt_held task @ [k], rt_wanted = ks\<rparr> s"
  have "fmdrop t s' = fmdrop t s" by (rule fmap_ext) (simp add: s')
  with a lock_work_pos [of s' t] show ?thesis by (simp add: s' lock_work_pos [OF a(1)])
qed

text \<open>A refresh whose next lock is the greatest anybody waits for can go on.\<close>

lemma lock_can_move:
  assumes ok: "locks_ok s" and ne: "s \<noteq> fmempty"
    and dist: "distinct_locks s"
  shows "\<exists>t. lock_move t s \<noteq> None"
proof (cases "\<exists>t task. fmlookup s t = Some task \<and> rt_wanted task = []")
  case True
  then obtain t task where "fmlookup s t = Some task" "rt_wanted task = []" by blast
  then have "lock_move t s \<noteq> None" by (simp add: lock_move_def)
  then show ?thesis ..
next
  case False
  let ?heads = "(\<lambda>t. hd (rt_wanted (the (fmlookup s t)))) ` fmdom' s"
  from ne have "fmdom' s \<noteq> {}" by (metis fmdom'_notD fmap_ext fmempty_lookup empty_iff)
  then have heads: "finite ?heads" "?heads \<noteq> {}" by auto
  then obtain t where t: "t \<in> fmdom' s" "hd (rt_wanted (the (fmlookup s t))) = Max ?heads"
    using Max_in by (metis (no_types, lifting) imageE)
  then obtain task where task: "fmlookup s t = Some task" by (auto simp: fmlookup_dom'_iff)
  with False obtain k ks where k: "rt_wanted task = k # ks" by (cases "rt_wanted task") auto
  have "lock_free k s"
    unfolding lock_free_iff
  proof (intro allI impI notI)
    fix t' other assume o': "fmlookup s t' = Some other" and "k \<in> set (rt_held other)"
    from False o' obtain k' ks' where k': "rt_wanted other = k' # ks'" by (cases "rt_wanted other") auto
    have "sorted (rt_held other @ rt_wanted other)" using ok o' by (auto simp: locks_ok_def task_ok_def)
    moreover have "distinct (rt_held other @ rt_wanted other)" using dist o' unfolding distinct_locks_iff by blast
    ultimately have "k \<le> k'" "k \<noteq> k'" using \<open>k \<in> set (rt_held other)\<close> k' by (auto simp: sorted_append)
    moreover have "k' \<le> Max ?heads"
      using heads(1) o' k' by (intro Max_ge) (auto intro!: image_eqI [of _ _ t'] simp: fmlookup_dom'_iff)
    moreover have "Max ?heads = k" using t(2) task k by simp
    ultimately show False by simp
  qed
  with task k show ?thesis by (intro exI [of _ t]) (simp add: lock_move_def)
qed

lemma lock_move_distinct:
  assumes "lock_move t s = Some s'" and dist: "distinct_locks s"
  shows "distinct_locks s'"
  using assms(1)
proof (cases rule: lock_move_cases)
  case 1
  with dist show ?thesis by (auto simp: distinct_locks_iff split: if_splits)
next
  case (2 old k ks)
  with dist have "distinct (rt_held old @ rt_wanted old)" unfolding distinct_locks_iff by blast
  with 2 dist show ?thesis by (auto simp: distinct_locks_iff split: if_splits)
qed

fun lock_moves :: "nat list \<Rightarrow> lock_state \<Rightarrow> lock_state option" where
  "lock_moves [] s = Some s"
| "lock_moves (t # ts) s = (case lock_move t s of None \<Rightarrow> None | Some s' \<Rightarrow> lock_moves ts s')"

lemma all_locks_finish:
  "locks_ok s \<Longrightarrow> distinct_locks s \<Longrightarrow> \<exists>ts. lock_moves ts s = Some fmempty"
proof (induction "lock_work s" arbitrary: s rule: less_induct)
  case less
  show ?case
  proof (cases "s = fmempty")
    case True
    then have "lock_moves [] s = Some fmempty" by simp
    then show ?thesis by blast
  next
    case False
    from lock_can_move [OF less(2) False less(3)] obtain t s' where m: "lock_move t s = Some s'" by auto
    moreover have "locks_ok s'" using lock_step_ok [OF moves [OF m] less(2)] .
    ultimately obtain ts where "lock_moves ts s' = Some fmempty"
      using less(1) [OF lock_move_less [OF m]] lock_move_distinct [OF m less(3)] by blast
    with m have "lock_moves (t # ts) s = Some fmempty" by simp
    then show ?thesis by blast
  qed
qed

text \<open>
  C17. Refreshes whose host lists overlap never deadlock, as long as no list names a host
  twice: in every state that any arrivals and moves lead to, each move brings the requests
  nearer to their end, while any is left one of them can move, and so there is an order in which
  all of them get their locks and finish.
\<close>

theorem host_locks_deadlock_free:
  assumes "lock_reach fmempty s" and "distinct_locks s"
  shows "(\<exists>ts. lock_moves ts s = Some fmempty) \<and> (s \<noteq> fmempty \<longrightarrow> (\<exists>t. lock_move t s \<noteq> None))
    \<and> (\<forall>t s'. lock_move t s = Some s' \<longrightarrow> lock_work s' < lock_work s)"
proof -
  have "locks_ok s" by (rule lock_reach_ok [OF assms(1) locks_ok_empty])
  with assms(2) lock_can_move [of s] show ?thesis by (auto simp: lock_move_less all_locks_finish)
qed

theorem host_locks_deadlock_free_witness:
  "\<exists>ts. lock_moves ts (lock_begin 1 ''vm'' [''b'', ''c''] (lock_begin 0 ''vm'' [''b'', ''a''] fmempty)) = Some fmempty"
proof -
  let ?s = "lock_begin 1 ''vm'' [''b'', ''c''] (lock_begin 0 ''vm'' [''b'', ''a''] fmempty)"
  have "lock_step fmempty (lock_begin 0 ''vm'' [''b'', ''a''] fmempty)" by (rule begins) simp
  moreover have "lock_step (lock_begin 0 ''vm'' [''b'', ''a''] fmempty) ?s"
    by (rule begins) (simp add: lock_begin_def)
  ultimately have "lock_reach fmempty ?s" by (blast intro: lock_reach.intros)
  moreover have "distinct_locks ?s"
    by (auto simp: distinct_locks_iff lock_begin_def lock_order_def distinct_map inj_on_def)
  ultimately show ?thesis using host_locks_deadlock_free by blast
qed

section \<open>A host named twice\<close>

lemma lock_move_keeps_duplicate:
  assumes "lock_move t' s = Some s'" and ok: "locks_ok s"
    and t: "fmlookup s t = Some task" "\<not> distinct (rt_held task @ rt_wanted task)"
  shows "\<exists>task'. fmlookup s' t = Some task' \<and> rt_held task' @ rt_wanted task' = rt_held task @ rt_wanted task"
  using assms(1)
proof (cases rule: lock_move_cases)
  case (1 other)
  from ok t(1) have "distinct (rt_held task)" by (auto simp: locks_ok_def task_ok_def)
  with 1 t have "t \<noteq> t'" by auto
  with 1 t show ?thesis by simp
next
  case (2 other k ks)
  with t show ?thesis by (cases "t = t'") auto
qed

lemma lock_reach_keeps_duplicate:
  "lock_reach s s' \<Longrightarrow> locks_ok s \<Longrightarrow> fmlookup s t = Some task \<Longrightarrow> \<not> distinct (rt_held task @ rt_wanted task) \<Longrightarrow>
     \<exists>task'. fmlookup s' t = Some task' \<and> rt_held task' @ rt_wanted task' = rt_held task @ rt_wanted task"
proof (induction rule: lock_reach.induct)
  case (here s)
  then show ?case by blast
next
  case (step s s' s'')
  then obtain task' where t': "fmlookup s' t = Some task'" "rt_held task' @ rt_wanted task' = rt_held task @ rt_wanted task"
    by blast
  have ok: "locks_ok s'" by (rule lock_reach_ok [OF step.hyps(1) step.prems(1)])
  from step.hyps(2) show ?case
  proof (cases rule: lock_step.cases)
    case (begins u sid stale)
    with t' show ?thesis by (auto simp: lock_begin_def)
  next
    case (moves u)
    with lock_move_keeps_duplicate [OF _ ok t'(1)] t'(2) step.prems(3) show ?thesis by (metis distinct_append)
  qed
qed

lemma stale_twice:
  "h \<in> set (stale_hosts now c src sid [h] o') \<Longrightarrow> stale_hosts now c src sid [h, h] o' = [h, h]"
  by (auto simp: stale_hosts_def Let_def split: option.splits if_splits)

text \<open>
  A read that names the same stale host twice never answers: nothing removes the second
  name before the locks are taken, so its refresh waits for a lock it holds itself. Whatever else
  happens it does not finish; and once it has the lock, every other read of that host waits with it.
\<close>

theorem duplicate_host_waits_for_ever:
  assumes "lock_reach fmempty s" and "fmlookup s t = None"
    and "h \<in> set (stale_hosts now c src sid [h] o')"
    and "lock_reach (lock_begin t sid (stale_hosts now c src sid [h, h] o') s) s'"
  shows "\<exists>task. fmlookup s' t = Some task \<and> rt_wanted task \<noteq> []
    \<and> (rt_held task = [] \<or> lock_move t s' = None \<and> \<not> lock_free (sid, h) s')"
proof -
  let ?s = "lock_begin t sid (stale_hosts now c src sid [h, h] o') s"
  let ?k = "(sid, h)"
  have "lock_step s ?s" by (rule begins [OF assms(2)])
  then have ok: "locks_ok ?s" using lock_step_ok lock_reach_ok [OF assms(1) locks_ok_empty] by blast
  have "fmlookup ?s t = Some \<lparr>rt_held = [], rt_wanted = [?k, ?k]\<rparr>"
    by (simp add: lock_begin_def stale_twice [OF assms(3)] lock_order_def)
  from lock_reach_keeps_duplicate [OF assms(4) ok this]
  obtain task where task: "fmlookup s' t = Some task" "rt_held task @ rt_wanted task = [?k, ?k]" by auto
  have "locks_ok s'" by (rule lock_reach_ok [OF assms(4) ok])
  with task(1) have "distinct (rt_held task)" by (auto simp: locks_ok_def task_ok_def)
  with task(2) consider "rt_held task = []" "rt_wanted task = [?k, ?k]" | "rt_held task = [?k]" "rt_wanted task = [?k]"
    by (auto simp: append_eq_Cons_conv)
  then show ?thesis
  proof cases
    case 1
    with task(1) show ?thesis by simp
  next
    case 2
    with task(1) have "\<not> lock_free ?k s'" unfolding lock_free_iff by (metis list.set_intros(1))
    with 2 task(1) show ?thesis by (simp add: lock_move_def)
  qed
qed

theorem duplicate_host_waits_for_ever_witness:
  "let s = lock_begin 0 ''vm'' (stale_hosts 10 mc_new sample_source ''vm'' [''web1'', ''web1''] None) fmempty
   in \<exists>task. fmlookup s 0 = Some task \<and> rt_wanted task \<noteq> []"
proof -
  have "lock_reach fmempty fmempty" by (rule here)
  moreover have "fmlookup (fmempty :: lock_state) 0 = None" by simp
  moreover have "''web1'' \<in> set (stale_hosts 10 mc_new sample_source ''vm'' [''web1''] None)"
    by (simp add: stale_hosts_def mc_get_def mc_new_def)
  ultimately show ?thesis
    unfolding Let_def using duplicate_host_waits_for_ever [OF _ _ _ here] by blast
qed

end
