(* ===== verification/Host_Filter.thy ===== *)
theory Host_Filter
  imports Var_Path
begin

text \<open>
  The host filter a reader gives: name patterns and conditions on the variables
  (\<open>src/src/domain/host_filter.rs\<close>). Reading a number (\<open>f64\<close> from text, finite only) and
  printing a structured value as JSON are parameters. The lemmas compare the two-pointer
  pattern match with the usual recursive one, read back a written condition, and pair each
  operator with its complement.
\<close>

section \<open>Filters\<close>

datatype op = Eq | Ne | Contains | Not_contains | Gt | Ge | Lt | Le

record condition =
  cd_key :: string
  cd_op :: op
  cd_value :: string

record host_filter =
  hf_patterns :: "string list"
  hf_conditions :: "condition list"

definition OPERATORS :: "(string \<times> op) list" where
  "OPERATORS =
     [(''!='', Ne), (''!~'', Not_contains), (''>='', Ge), (''<='', Le), (''='', Eq),
      (''~'', Contains), (''>'', Gt), (''<'', Lt)]"

datatype filter_error =
    No_operator string
  | No_key string
  | Unknown_operator string
  | No_value string string

definition op_char :: "char \<Rightarrow> bool" where
  "op_char c \<longleftrightarrow> c \<in> set ''=!~<>''"

definition parse_condition :: "string \<Rightarrow> filter_error + condition" where
  "parse_condition raw =
     (if \<not> list_ex op_char raw then Inl (No_operator raw)
      else
        (let key = trim (takeWhile (\<lambda>c. \<not> op_char c) raw);
             rest = dropWhile (\<lambda>c. \<not> op_char c) raw
         in if key = [] then Inl (No_key raw)
            else (case List.find (\<lambda>(token, _). starts_with rest token) OPERATORS of
                None \<Rightarrow> Inl (Unknown_operator raw)
              | Some (token, op) \<Rightarrow>
                  (let value = trim (drop (length token) rest)
                   in if value = [] \<and> op \<noteq> Eq \<and> op \<noteq> Ne then Inl (No_value raw token)
                      else Inr \<lparr>cd_key = key, cd_op = op, cd_value = value\<rparr>))))"

definition from_conditions :: "string \<Rightarrow> string list \<Rightarrow> filter_error + host_filter" where
  "from_conditions host conditions =
     (let patterns = map to_lowercase (csv_items host) in
      case traverse parse_condition (filter (\<lambda>c. c \<noteq> []) (map trim conditions)) of
        Inl e \<Rightarrow> Inl e
      | Inr cs \<Rightarrow> Inr \<lparr>hf_patterns = patterns, hf_conditions = cs\<rparr>)"

definition parse_filter :: "string \<Rightarrow> string \<Rightarrow> filter_error + host_filter" where
  "parse_filter host filter' = from_conditions host (split_on (CHR '';'') filter')"

definition hf_is_empty :: "host_filter \<Rightarrow> bool" where
  "hf_is_empty f \<longleftrightarrow> hf_patterns f = [] \<and> hf_conditions f = []"

section \<open>Pattern match\<close>

abbreviation star_char :: string where
  "star_char \<equiv> ''*''"

abbreviation any_char :: string where
  "any_char \<equiv> ''?''"

text \<open>
  The two-pointer walk, on characters. The loop may run forever as far as its definition
  goes: \<open>None\<close> is not returning.
\<close>

partial_function (option) glob_loop ::
  "string list \<Rightarrow> string list \<Rightarrow> nat \<Rightarrow> nat \<Rightarrow> (nat \<times> nat) option \<Rightarrow> bool option" where
  "glob_loop p t pi ti star =
     (if ti < length t then
        (if pi < length p \<and> (p ! pi = any_char \<or> p ! pi = t ! ti)
         then glob_loop p t (pi + 1) (ti + 1) star
         else if pi < length p \<and> p ! pi = star_char
         then glob_loop p t (pi + 1) ti (Some (pi, ti))
         else (case star of
             Some (sp, st) \<Rightarrow> glob_loop p t (sp + 1) (st + 1) (Some (sp, st + 1))
           | None \<Rightarrow> Some False))
      else Some (list_all (\<lambda>c. c = star_char) (drop pi p)))"

definition glob :: "string \<Rightarrow> string \<Rightarrow> bool" where
  "glob pattern text' = the (glob_loop (utf8_chars pattern) (utf8_chars text') 0 0 None)"

text \<open>What a pattern means: a star is any run of characters, a question mark any one.\<close>

fun glob_spec :: "string list \<Rightarrow> string list \<Rightarrow> bool" where
  "glob_spec [] t = (t = [])"
| "glob_spec (p # ps) [] = (p = star_char \<and> glob_spec ps [])"
| "glob_spec (p # ps) (c # cs) =
     (if p = star_char then glob_spec ps (c # cs) \<or> glob_spec (p # ps) cs
      else (p = any_char \<or> p = c) \<and> glob_spec ps cs)"

section \<open>Conditions\<close>

definition json_text_of :: "(json \<Rightarrow> string) \<Rightarrow> json option \<Rightarrow> string" where
  "json_text_of show_json v =
     (case v of
        None \<Rightarrow> []
      | Some JNull \<Rightarrow> []
      | Some (JStr s) \<Rightarrow> s
      | Some other \<Rightarrow> show_json other)"

definition json_is_empty :: "json option \<Rightarrow> bool" where
  "json_is_empty v =
     (case v of
        None \<Rightarrow> True
      | Some JNull \<Rightarrow> True
      | Some (JStr s) \<Rightarrow> s = []
      | Some (JArr a) \<Rightarrow> a = []
      | Some (JObj m) \<Rightarrow> m = fmempty
      | Some _ \<Rightarrow> False)"

datatype ordering = Less | Equal | Greater

definition cmp :: "'a::linorder \<Rightarrow> 'a \<Rightarrow> ordering" where
  "cmp a b = (if a < b then Less else if a = b then Equal else Greater)"

definition compare :: "(string \<Rightarrow> 'f::linorder option) \<Rightarrow> string \<Rightarrow> string \<Rightarrow> ordering" where
  "compare number actual wanted =
     (case (number actual, number wanted) of
        (Some a, Some b) \<Rightarrow> cmp a b
      | _ \<Rightarrow> cmp actual wanted)"

definition holds ::
  "(string \<Rightarrow> 'f::linorder option) \<Rightarrow> (json \<Rightarrow> string) \<Rightarrow> condition \<Rightarrow> host_vars \<Rightarrow> bool" where
  "holds number show_json c vars =
     (let var = lookup vars (cd_key c) in
      if cd_value c = [] then (cd_op c = Eq) = json_is_empty var
      else
        (let actual = json_text_of show_json var in
         case cd_op c of
           Eq \<Rightarrow> actual = cd_value c
         | Ne \<Rightarrow> actual \<noteq> cd_value c
         | Contains \<Rightarrow> str_contains (to_lowercase actual) (to_lowercase (cd_value c))
         | Not_contains \<Rightarrow> \<not> str_contains (to_lowercase actual) (to_lowercase (cd_value c))
         | Gt \<Rightarrow> actual \<noteq> [] \<and> compare number actual (cd_value c) = Greater
         | Ge \<Rightarrow> actual \<noteq> [] \<and> compare number actual (cd_value c) \<noteq> Less
         | Lt \<Rightarrow> actual \<noteq> [] \<and> compare number actual (cd_value c) = Less
         | Le \<Rightarrow> actual \<noteq> [] \<and> compare number actual (cd_value c) \<noteq> Greater))"

definition filter_matches ::
  "(string \<Rightarrow> 'f::linorder option) \<Rightarrow> (json \<Rightarrow> string) \<Rightarrow> host_filter \<Rightarrow> string \<Rightarrow> host_vars \<Rightarrow> bool" where
  "filter_matches number show_json f host vars =
     (if hf_patterns f \<noteq> [] \<and> \<not> list_ex (\<lambda>p. glob p (to_lowercase host)) (hf_patterns f)
      then False
      else list_all (\<lambda>c. holds number show_json c vars) (hf_conditions f))"

section \<open>The walk is the pattern's meaning\<close>

lemma glob_spec_plain:
  assumes "\<forall>c \<in> set seg. c \<noteq> star_char" and "glob_spec (seg @ r) u"
  shows "length seg \<le> length u \<and> glob_spec r (drop (length seg) u)"
  using assms
proof (induction seg arbitrary: u)
  case (Cons c seg)
  then show ?case by (cases u) auto
qed simp

lemma glob_spec_star: "glob_spec (star_char # r) (drop j u) \<Longrightarrow> i \<le> j \<Longrightarrow> glob_spec (star_char # r) (drop i u)"
proof (induction "j - i" arbitrary: i)
  case (Suc n)
  show ?case
  proof (cases "i < length u")
    case True
    have "glob_spec (star_char # r) (drop (Suc i) u)"
      by (rule Suc.hyps(1)) (use Suc.hyps(2) Suc.prems in simp_all)
    moreover have "drop i u = u ! i # drop (Suc i) u" using True by (simp add: Cons_nth_drop_Suc)
    ultimately show ?thesis by simp
  next
    case False
    with Suc.prems show ?thesis by simp
  qed
qed simp

lemma glob_spec_stars: "glob_spec p [] \<longleftrightarrow> list_all (\<lambda>c. c = star_char) p"
  by (induction p) auto

lemma glob_spec_star_step:
  "glob_spec (star_char # r) (drop i u) \<longleftrightarrow> (\<exists>k. i \<le> k \<and> k \<le> length u \<and> glob_spec r (drop k u))"
  if "i \<le> length u"
  using that
proof (induction "length u - i" arbitrary: i)
  case 0
  then show ?case by (auto simp: le_antisym)
next
  case (Suc n)
  then have i: "i < length u" by simp
  have "glob_spec (star_char # r) (drop i u) \<longleftrightarrow> glob_spec r (drop i u) \<or> glob_spec (star_char # r) (drop (Suc i) u)"
  proof -
    have "drop i u = u ! i # drop (Suc i) u" using i by (simp add: Cons_nth_drop_Suc)
    then show ?thesis by simp
  qed
  also have "glob_spec (star_char # r) (drop (Suc i) u) \<longleftrightarrow> (\<exists>k. Suc i \<le> k \<and> k \<le> length u \<and> glob_spec r (drop k u))"
    by (rule Suc.hyps(1)) (use Suc.hyps(2) Suc.prems in simp_all)
  finally show ?case
    using i by (metis Suc_leD Suc_leI le_neq_implies_less less_imp_le_nat order_refl)
qed

text \<open>The state of the walk: since the last star, plain characters only, one of the text for
  each of the pattern.\<close>

definition walk_ok :: "string list \<Rightarrow> string list \<Rightarrow> nat \<Rightarrow> nat \<Rightarrow> (nat \<times> nat) option \<Rightarrow> bool" where
  "walk_ok p t pi ti star \<longleftrightarrow> pi \<le> length p \<and> ti \<le> length t
     \<and> (case star of None \<Rightarrow> True
        | Some (sp, st) \<Rightarrow> sp < pi \<and> st \<le> ti \<and> ti - st = pi - Suc sp
            \<and> (\<forall>c \<in> set (take (pi - Suc sp) (drop (Suc sp) p)). c \<noteq> star_char))"

text \<open>What is still to be decided there: the rest matches, or a longer run for the last star
  makes the rest after it match.\<close>

definition walk_value :: "string list \<Rightarrow> string list \<Rightarrow> nat \<Rightarrow> nat \<Rightarrow> (nat \<times> nat) option \<Rightarrow> bool" where
  "walk_value p t pi ti star \<longleftrightarrow> glob_spec (drop pi p) (drop ti t)
     \<or> (case star of None \<Rightarrow> False
        | Some (sp, st) \<Rightarrow> \<exists>k. st < k \<and> k \<le> length t \<and> glob_spec (drop (Suc sp) p) (drop k t))"

lemma later_run:
  assumes "walk_ok p t pi ti (Some (sp, st))" and "st < k" and "k \<le> length t"
    and "glob_spec (drop (Suc sp) p) (drop k t)"
  shows "\<exists>j > ti. j \<le> length t \<and> glob_spec (drop pi p) (drop j t)"
proof -
  let ?seg = "take (pi - Suc sp) (drop (Suc sp) p)"
  have l: "length ?seg = pi - Suc sp" "sp < pi" "st \<le> ti" "ti - st = pi - Suc sp" "pi \<le> length p"
    using assms(1) by (auto simp: walk_ok_def)
  have plain: "\<forall>c \<in> set ?seg. c \<noteq> star_char" using assms(1) by (simp add: walk_ok_def)
  have "drop (Suc sp) p = ?seg @ drop pi p"
    using l(2) by (metis Suc_leI add.commute append_take_drop_id drop_drop le_add_diff_inverse2)
  with assms(4) have "glob_spec (?seg @ drop pi p) (drop k t)" by simp
  from glob_spec_plain [OF plain this] l(1)
  have "pi - Suc sp \<le> length (drop k t)" "glob_spec (drop pi p) (drop (pi - Suc sp) (drop k t))"
    by simp_all
  with assms(2,3) l show ?thesis
    by (intro exI [of _ "pi - Suc sp + k"]) auto
qed

lemma ex_later:
  "st < n \<Longrightarrow> (\<exists>k. st < k \<and> k \<le> n \<and> P k) \<longleftrightarrow> P (Suc st) \<or> (\<exists>k. Suc st < k \<and> k \<le> n \<and> P k)"
  by (metis Suc_leI Suc_lessD Suc_lessI lessI)

lemma glob_loop_value:
  assumes "star_char \<notin> set t"
  shows "walk_ok p t pi ti star \<Longrightarrow> glob_loop p t pi ti star = Some (walk_value p t pi ti star)"
proof (induction "(length p + 1 - (case star of None \<Rightarrow> 0 | Some (sp, st) \<Rightarrow> Suc sp),
    case star of None \<Rightarrow> 0 | Some (sp, st) \<Rightarrow> length t - st, length t - ti)"
    arbitrary: pi ti star rule: wf_induct_rule [OF wf_lex_prod [OF wf_less_than wf_lex_prod [OF wf_less_than wf_less_than]]])
  case (1 ti star pi)
  have bounds: "pi \<le> length p" "ti \<le> length t" using "1.prems" by (simp_all add: walk_ok_def)
  show ?case
  proof (cases "ti < length t")
    case False
    then have ti: "ti = length t" using bounds by simp
    have "\<not> (\<exists>k. st < k \<and> k \<le> length t \<and> glob_spec (drop (Suc sp) p) (drop k t))"
      if "star = Some (sp, st)" for sp st
      using later_run "1.prems" that ti by fastforce
    then have "walk_value p t pi ti star = glob_spec (drop pi p) []"
      using ti by (auto simp: walk_value_def split: option.split)
    then show ?thesis
      using ti by (subst glob_loop.simps) (simp add: glob_spec_stars)
  next
    case True
    have dt: "drop ti t = t ! ti # drop (Suc ti) t" using True by (simp add: Cons_nth_drop_Suc)
    have tc: "t ! ti \<noteq> star_char" using True assms by (metis nth_mem)
    consider (plain) "pi < length p" "p ! pi = any_char \<or> p ! pi = t ! ti"
      | (star) "pi < length p" "p ! pi = star_char"
      | (fail) "\<not> (pi < length p \<and> (p ! pi = any_char \<or> p ! pi = t ! ti))" "\<not> (pi < length p \<and> p ! pi = star_char)"
      by blast
    then show ?thesis
    proof cases
      case plain
      have ns: "p ! pi \<noteq> star_char" using plain(2) tc by auto
      have dp: "drop pi p = p ! pi # drop (Suc pi) p" using plain(1) by (simp add: Cons_nth_drop_Suc)
      have "walk_ok p t (pi + 1) (ti + 1) star"
      proof (cases star)
        case (Some s)
        obtain sp st where s: "s = (sp, st)" by fastforce
        have w: "sp < pi" "st \<le> ti" "ti - st = pi - Suc sp"
          "\<forall>c \<in> set (take (pi - Suc sp) (drop (Suc sp) p)). c \<noteq> star_char"
          using "1.prems" Some s by (auto simp: walk_ok_def)
        have "take (pi + 1 - Suc sp) (drop (Suc sp) p) = take (pi - Suc sp) (drop (Suc sp) p) @ [p ! pi]"
          using w(1) plain(1) take_Suc_conv_app_nth [of "pi - Suc sp" "drop (Suc sp) p"]
          by (simp add: Suc_diff_Suc)
        with w ns plain(1) True Some s show ?thesis by (auto simp: walk_ok_def)
      qed (use plain(1) True in \<open>simp add: walk_ok_def\<close>)
      then have "glob_loop p t (pi + 1) (ti + 1) star = Some (walk_value p t (pi + 1) (ti + 1) star)"
        by (intro "1.hyps") (use True in auto)
      moreover have "walk_value p t (pi + 1) (ti + 1) star = walk_value p t pi ti star"
        using plain(2) ns by (simp add: walk_value_def dp dt)
      ultimately show ?thesis using True plain by (subst glob_loop.simps) simp
    next
      case star
      have dp: "drop pi p = star_char # drop (Suc pi) p"
        using star by (metis Cons_nth_drop_Suc)
      have "walk_ok p t (pi + 1) ti (Some (pi, ti))" using star True by (simp add: walk_ok_def)
      then have l: "glob_loop p t (pi + 1) ti (Some (pi, ti)) = Some (walk_value p t (pi + 1) ti (Some (pi, ti)))"
        by (intro "1.hyps") (use star "1.prems" in \<open>auto simp: walk_ok_def split: option.splits\<close>)
      have "walk_value p t (pi + 1) ti (Some (pi, ti))
          \<longleftrightarrow> (\<exists>k. ti \<le> k \<and> k \<le> length t \<and> glob_spec (drop (Suc pi) p) (drop k t))"
        unfolding walk_value_def using bounds(2) by (auto simp: le_less)
      also have "\<dots> \<longleftrightarrow> glob_spec (drop pi p) (drop ti t)"
        unfolding dp using glob_spec_star_step [OF bounds(2)] by simp
      also have "\<dots> \<longleftrightarrow> walk_value p t pi ti star"
      proof -
        have "glob_spec (drop pi p) (drop ti t)"
          if older: "star = Some (sp, st)" "st < k" "k \<le> length t" "glob_spec (drop (Suc sp) p) (drop k t)" for sp st k
        proof -
          obtain j where "j > ti" "glob_spec (drop pi p) (drop j t)"
            using later_run [of p t pi ti sp st k] "1.prems" older by auto
          then show ?thesis unfolding dp using glob_spec_star [of _ j t ti] by simp
        qed
        then show ?thesis unfolding walk_value_def by (auto split: option.split)
      qed
      finally show ?thesis
        using True star tc l by (subst glob_loop.simps) auto
    next
      case fail
      have no: "\<not> glob_spec (drop pi p) (drop ti t)"
      proof (cases "pi < length p")
        case True
        then have dp: "drop pi p = p ! pi # drop (Suc pi) p" by (simp add: Cons_nth_drop_Suc)
        show ?thesis unfolding dp dt using True fail by simp
      next
        case False
        then show ?thesis using dt by simp
      qed
      show ?thesis
      proof (cases star)
        case None
        with no fail True show ?thesis by (subst glob_loop.simps) (auto simp: walk_value_def)
      next
        case (Some s)
        obtain sp st where s: "s = (sp, st)" by fastforce
        have w: "sp < pi" "st \<le> ti" using "1.prems" Some s by (auto simp: walk_ok_def)
        have "walk_ok p t (sp + 1) (st + 1) (Some (sp, st + 1))"
          using w bounds True by (simp add: walk_ok_def)
        then have l: "glob_loop p t (sp + 1) (st + 1) (Some (sp, st + 1))
            = Some (walk_value p t (sp + 1) (st + 1) (Some (sp, st + 1)))"
          by (intro "1.hyps") (use Some s w True in auto)
        have "walk_value p t (sp + 1) (st + 1) (Some (sp, st + 1))
            \<longleftrightarrow> (\<exists>k. st < k \<and> k \<le> length t \<and> glob_spec (drop (Suc sp) p) (drop k t))"
          using ex_later [of st "length t"] w True by (simp add: walk_value_def)
        with no Some s have "walk_value p t (sp + 1) (st + 1) (Some (sp, st + 1)) = walk_value p t pi ti star"
          by (simp add: walk_value_def)
        with l True fail Some s show ?thesis by (subst glob_loop.simps) auto
      qed
    qed
  qed
qed

lemma glob_returns:
  "\<exists>b. glob_loop p t 0 0 None = Some b" if "star_char \<notin> set t"
  using glob_loop_value [OF that, of p 0 0 None] by (simp add: walk_ok_def)

text \<open>
  On a host name with no \<open>*\<close> in it, the walk ends and answers whether the pattern
  matches: a star for any run of characters, a question mark for any one.
\<close>

theorem glob_correct:
  assumes "star_char \<notin> set (utf8_chars text')"
  shows "glob_loop (utf8_chars pattern) (utf8_chars text') 0 0 None \<noteq> None
    \<and> (glob pattern text' \<longleftrightarrow> glob_spec (utf8_chars pattern) (utf8_chars text'))"
  using glob_loop_value [OF assms, of "utf8_chars pattern" 0 0 None]
  by (simp add: walk_ok_def walk_value_def glob_def)

lemma utf8_ascii: "\<forall>c \<in> set s. \<not> continuation_byte c \<Longrightarrow> utf8_chars s = map (\<lambda>c. [c]) s"
proof (induction s)
  case (Cons c s)
  then have "takeWhile continuation_byte s = []" "dropWhile continuation_byte s = s"
    by (cases s; simp)+
  with Cons show ?case by simp
qed simp

theorem glob_correct_witness: "glob ''web*1'' ''web-a1'' \<and> \<not> glob ''web?'' ''web''"
proof -
  have u: "utf8_chars ''web*1'' = map (\<lambda>c. [c]) ''web*1''" "utf8_chars ''web-a1'' = map (\<lambda>c. [c]) ''web-a1''"
    "utf8_chars ''web?'' = map (\<lambda>c. [c]) ''web?''" "utf8_chars ''web'' = map (\<lambda>c. [c]) ''web''"
    by (rule utf8_ascii; simp add: continuation_byte_def)+
  from glob_correct [of "''web-a1''" "''web*1''"] glob_correct [of "''web''" "''web?''"]
  show ?thesis unfolding u by simp
qed

text \<open>
  On a name that does hold a \<open>*\<close> the walk can refuse what the pattern matches: it takes
  the pattern's star for the name's, and has no star to come back to. The pattern \<open>*\<close> does
  not match the name \<open>*a\<close>.
\<close>

theorem glob_star_in_name:
  "\<not> glob ''*'' ''*a'' \<and> glob_spec (utf8_chars ''*'') (utf8_chars ''*a'')"
proof -
  have u: "utf8_chars ''*'' = [''*'']" "utf8_chars ''*a'' = [''*'', ''a'']"
    using utf8_ascii [of "''*''"] utf8_ascii [of "''*a''"] by (simp_all add: continuation_byte_def)
  have "glob_loop [''*''] [''*'', ''a''] 1 1 None = Some False"
    by (subst glob_loop.simps) simp
  moreover have "glob_loop [''*''] [''*'', ''a''] 0 0 None = glob_loop [''*''] [''*'', ''a''] 1 1 None"
    by (subst glob_loop.simps) simp
  ultimately show ?thesis unfolding glob_def u by simp
qed

section \<open>Conditions read back\<close>

fun op_token :: "op \<Rightarrow> string" where
  "op_token Eq = ''=''"
| "op_token Ne = ''!=''"
| "op_token Contains = ''~''"
| "op_token Not_contains = ''!~''"
| "op_token Gt = ''>''"
| "op_token Ge = ''>=''"
| "op_token Lt = ''<''"
| "op_token Le = ''<=''"

definition show_condition :: "condition \<Rightarrow> string" where
  "show_condition c = cd_key c @ op_token (cd_op c) @ cd_value c"

text \<open>A condition that can be written: a key with no operator character and no white space
  around it, a value with none around it, something to compare with, and after \<open>>\<close> or \<open><\<close>
  no value that starts with \<open>=\<close>.\<close>

definition writable :: "condition \<Rightarrow> bool" where
  "writable c \<longleftrightarrow> cd_key c \<noteq> [] \<and> trimmed (cd_key c) \<and> \<not> list_ex op_char (cd_key c)
     \<and> trimmed (cd_value c) \<and> (cd_value c = [] \<longrightarrow> cd_op c = Eq \<or> cd_op c = Ne)
     \<and> (cd_op c = Gt \<or> cd_op c = Lt \<longrightarrow> \<not> starts_with (cd_value c) ''='')"

lemma op_token_props: "op_token op \<noteq> [] \<and> op_char (hd (op_token op))"
  by (cases op) (simp_all add: op_char_def)

lemma find_token:
  assumes "op = Gt \<or> op = Lt \<longrightarrow> \<not> starts_with v ''=''"
  shows "List.find (\<lambda>(token, _). starts_with (op_token op @ v) token) OPERATORS = Some (op_token op, op)"
  using assms by (cases op; cases v) (auto simp: OPERATORS_def)

text \<open>
  Every condition that can be written is read back as itself, whatever operator and
  value it has: the two-character operators are not read as a shorter one.
\<close>

theorem condition_roundtrip:
  assumes "writable c"
  shows "parse_condition (show_condition c) = Inr c"
proof -
  obtain x xs where tok: "op_token (cd_op c) = x # xs" "op_char x"
    using op_token_props [of "cd_op c"] by (cases "op_token (cd_op c)") auto
  have key: "\<forall>k \<in> set (cd_key c). \<not> op_char k" using assms by (simp add: writable_def list_ex_iff)
  have "takeWhile (\<lambda>c. \<not> op_char c) (show_condition c) = cd_key c"
    "dropWhile (\<lambda>c. \<not> op_char c) (show_condition c) = op_token (cd_op c) @ cd_value c"
    "list_ex op_char (show_condition c)"
    using key tok by (simp_all add: show_condition_def takeWhile_append2 dropWhile_append2 list_ex_iff)
  with assms find_token [of "cd_op c" "cd_value c"] show ?thesis
    by (auto simp: parse_condition_def writable_def trimmed_def)
qed

theorem condition_roundtrip_witness:
  "parse_condition ''cpu.count>=8'' = Inr \<lparr>cd_key = ''cpu.count'', cd_op = Ge, cd_value = ''8''\<rparr>"
proof -
  let ?c = "\<lparr>cd_key = ''cpu.count'', cd_op = Ge, cd_value = ''8''\<rparr>"
  have "writable ?c" by code_simp
  from condition_roundtrip [OF this] show ?thesis by (simp add: show_condition_def)
qed

text \<open>
  Each operator has its complement: for any host, whatever the variable holds or if it is
  missing, \<open>!=\<close> holds exactly when \<open>=\<close> does not and \<open>!~\<close> exactly when \<open>~\<close> does not; with a
  value to compare, \<open>>=\<close> is the complement of \<open><\<close> and \<open><=\<close> of \<open>>\<close> on hosts that have the
  variable, and all four are false on hosts that do not.
\<close>

theorem operators_complement:
  assumes "v \<noteq> []"
  shows "let h = (\<lambda>op. holds number show_json \<lparr>cd_key = k, cd_op = op, cd_value = v\<rparr> vars) in
    (h Ne \<longleftrightarrow> \<not> h Eq) \<and> (h Not_contains \<longleftrightarrow> \<not> h Contains)
    \<and> (holds number show_json \<lparr>cd_key = k, cd_op = Ne, cd_value = []\<rparr> vars
        \<longleftrightarrow> \<not> holds number show_json \<lparr>cd_key = k, cd_op = Eq, cd_value = []\<rparr> vars)
    \<and> (if json_text_of show_json (lookup vars k) = []
       then \<not> h Gt \<and> \<not> h Ge \<and> \<not> h Lt \<and> \<not> h Le
       else (h Ge \<longleftrightarrow> \<not> h Lt) \<and> (h Le \<longleftrightarrow> \<not> h Gt) \<and> \<not> (h Gt \<and> h Lt))"
  using assms by (auto simp: holds_def Let_def)

theorem operators_complement_witness:
  "holds (\<lambda>_. None :: nat option) (\<lambda>_. []) \<lparr>cd_key = ''os'', cd_op = Ne, cd_value = ''linux''\<rparr> fmempty
    \<longleftrightarrow> \<not> holds (\<lambda>_. None :: nat option) (\<lambda>_. []) \<lparr>cd_key = ''os'', cd_op = Eq, cd_value = ''linux''\<rparr> fmempty"
  using operators_complement [of "''linux''" "\<lambda>_. None :: nat option" "\<lambda>_. []" "''os''" fmempty] by (simp add: Let_def)

end
