(* ===== verification/Views.thy ===== *)
theory Views
  imports Sources Memory_Cache
begin

text \<open>
  Views: a read-only composite over several sources, which routes each host to the member
  that owns it. The declaration is \<open>src/src/domain/view.rs\<close>, the reading of one
  \<open>src/src/application/views.rs\<close>. A snapshot carries its routing table in a cell that is
  filled at most once; the lemmas say that the table, whenever it is built, answers what
  asking the members in their declared order answers, and that what a view serves is each
  host from its owner and from no other member.
\<close>

section \<open>Declarations\<close>

record ownership =
  ow_source :: string
  ow_groups :: "string list"
  ow_hosts :: "string list"
  ow_advertised :: bool

record view_member =
  vm_source :: string
  vm_owns :: ownership

record view =
  v_name :: string
  v_members :: "view_member list"
  v_ttl_seconds :: "nat option"

definition is_catch_all :: "ownership \<Rightarrow> bool" where
  "is_catch_all o' \<longleftrightarrow> ow_groups o' = [] \<and> ow_hosts o' = []"

definition group_members :: "dataset \<Rightarrow> string \<Rightarrow> string list" where
  "group_members d g = (case fmlookup (groups d) g of Some grp \<Rightarrow> g_hosts grp | None \<Rightarrow> [])"

definition claims :: "ownership \<Rightarrow> dataset \<Rightarrow> string \<Rightarrow> bool" where
  "claims o' d h \<longleftrightarrow>
     (if is_catch_all o' then fmlookup (hostvars d) h \<noteq> None \<or> in_some_group d h
      else if h \<in> set (ow_hosts o') then True
      else list_ex (\<lambda>g. h \<in> set (group_members d g)) (ow_groups o'))"

text \<open>A \<open>HashSet\<close> of names is the sorted list of its elements.\<close>

definition claimed_hosts :: "ownership \<Rightarrow> dataset \<Rightarrow> string list" where
  "claimed_hosts o' d =
     sort_dedup
       (if is_catch_all o'
        then fm_keys (hostvars d) @ concat (map (group_members d) (fm_keys (groups d)))
        else ow_hosts o' @ concat (map (group_members d) (ow_groups o')))"

definition add_new :: "string list \<Rightarrow> string list \<Rightarrow> string list" where
  "add_new acc xs = fold (\<lambda>x acc. if x \<in> set acc then acc else acc @ [x]) xs acc"

definition view_advertised_scope :: "view \<Rightarrow> scope_claim" where
  "view_advertised_scope v =
     fold (\<lambda>m c.
         \<lparr>sc_groups = add_new (sc_groups c) (ow_groups (vm_owns m)),
          sc_hosts = add_new (sc_hosts c) (ow_hosts (vm_owns m)),
          sc_catch_all = sc_catch_all c \<or> is_catch_all (vm_owns m) \<and> \<not> ow_advertised (vm_owns m)\<rparr>)
       (v_members v) \<lparr>sc_groups = [], sc_hosts = [], sc_catch_all = False\<rparr>"

definition member_ids :: "view \<Rightarrow> string list" where
  "member_ids v = map vm_source (v_members v)"

section \<open>Members of a snapshot\<close>

datatype ownership_mode = Declared | Advertised | Fallback | Unknown

record member_snapshot =
  ms_source_id :: string
  ms_source :: "source option"
  ms_entry :: "cache_entry option"
  ms_ownership :: "cache_entry option"
  ms_owns :: "ownership option"
  ms_mode :: ownership_mode

definition ms_claims :: "member_snapshot \<Rightarrow> string \<Rightarrow> bool" where
  "ms_claims m h \<longleftrightarrow>
     (case ms_owns m of
        None \<Rightarrow> False
      | Some o' \<Rightarrow> (case ms_ownership m of
            Some e \<Rightarrow> claims o' (e_dataset e) h
          | None \<Rightarrow> h \<in> set (ow_hosts o')))"

definition ms_claimed_hosts :: "member_snapshot \<Rightarrow> string list" where
  "ms_claimed_hosts m =
     (case ms_owns m of
        None \<Rightarrow> []
      | Some o' \<Rightarrow> (case ms_ownership m of
            Some e \<Rightarrow> claimed_hosts o' (e_dataset e)
          | None \<Rightarrow> sort_dedup (ow_hosts o')))"

definition ownership_cached :: "member_snapshot \<Rightarrow> bool" where
  "ownership_cached m \<longleftrightarrow> ms_ownership m \<noteq> None"

definition default_ttl :: "member_snapshot \<Rightarrow> view \<Rightarrow> nat" where
  "default_ttl m v =
     (case v_ttl_seconds v of
        Some t \<Rightarrow> t
      | None \<Rightarrow> (case ms_entry m of
            Some e \<Rightarrow> as_secs (e_ttl e)
          | None \<Rightarrow> (case ms_source m of Some s \<Rightarrow> s_ttl_seconds s | None \<Rightarrow> 0)))"

definition ms_group_ttls :: "member_snapshot \<Rightarrow> (string, nat) fmap" where
  "ms_group_ttls m =
     (case (ms_source m, ms_entry m) of
        (Some s, Some e) \<Rightarrow> group_ttl_by_host s (e_dataset e)
      | _ \<Rightarrow> fmempty)"

definition ms_effective_ttl :: "member_snapshot \<Rightarrow> view \<Rightarrow> string \<Rightarrow> (string, nat) fmap \<Rightarrow> nat" where
  "ms_effective_ttl m v h group_ttls =
     (let fallback = default_ttl m v in
      case ms_source m of Some s \<Rightarrow> effective_ttl s h group_ttls fallback | None \<Rightarrow> fallback)"

definition ms_has :: "member_snapshot \<Rightarrow> string \<Rightarrow> bool" where
  "ms_has m h \<longleftrightarrow>
     (case ms_entry m of Some e \<Rightarrow> fmlookup (hostvars (e_dataset e)) h \<noteq> None | None \<Rightarrow> False)"

section \<open>The ownership a member routes by\<close>

definition effective_ownership ::
  "view_member \<Rightarrow> source option \<Rightarrow> scope_registry \<Rightarrow> ownership option \<times> ownership_mode" where
  "effective_ownership m src scopes =
     (if \<not> ow_advertised (vm_owns m) then (Some (vm_owns m), Declared)
      else
        (case (case Option.bind src source_advertised_scope of
                 Some c \<Rightarrow> Some c | None \<Rightarrow> scope_get scopes (vm_source m)) of
           Some c \<Rightarrow>
             (Some \<lparr>ow_source = ow_source (vm_owns m), ow_groups = sc_groups c,
                    ow_hosts = sc_hosts c, ow_advertised = True\<rparr>, Advertised)
         | None \<Rightarrow>
             (if ow_groups (vm_owns m) \<noteq> [] \<or> ow_hosts (vm_owns m) \<noteq> []
              then (Some (vm_owns m\<lparr>ow_advertised := False\<rparr>), Fallback)
              else (None, Unknown))))"

record view_snapshot =
  vs_view_id :: string
  vs_view :: view
  vs_members :: "member_snapshot list"
  vs_routing :: "(string, nat) fmap option"

definition snapshot ::
  "mem_cache \<Rightarrow> (string, source) fmap \<Rightarrow> scope_registry \<Rightarrow> string \<Rightarrow> view \<Rightarrow> view_snapshot" where
  "snapshot cache sources scopes view_id v =
     \<lparr>vs_view_id = view_id, vs_view = v,
      vs_members = map
        (\<lambda>m. let (owns, mode) = effective_ownership m (fmlookup sources (vm_source m)) scopes in
           \<lparr>ms_source_id = vm_source m, ms_source = fmlookup sources (vm_source m),
            ms_entry = mc_get cache (vm_source m),
            ms_ownership = mc_get cache (ow_source (vm_owns m)),
            ms_owns = owns, ms_mode = mode\<rparr>)
        (v_members v),
      vs_routing = None\<rparr>"

section \<open>Routing\<close>

definition routing_table :: "('m \<Rightarrow> string list) \<Rightarrow> 'm list \<Rightarrow> (string, nat) fmap" where
  "routing_table claimed ms =
     fold (\<lambda>(i, m). fm_ensure i (claimed m)) (List.enumerate 0 ms) fmempty"

definition ROUTING_TABLE_WORTH_IT :: nat where
  "ROUTING_TABLE_WORTH_IT = 16"

definition routing :: "view_snapshot \<Rightarrow> view_snapshot \<times> (string, nat) fmap" where
  "routing vs =
     (case vs_routing vs of
        Some t \<Rightarrow> (vs, t)
      | None \<Rightarrow> (let t = routing_table ms_claimed_hosts (vs_members vs)
                 in (vs\<lparr>vs_routing := Some t\<rparr>, t)))"

definition prepare_routing :: "nat \<Rightarrow> view_snapshot \<Rightarrow> view_snapshot" where
  "prepare_routing n vs = (if n > ROUTING_TABLE_WORTH_IT then fst (routing vs) else vs)"

definition owner_index :: "view_snapshot \<Rightarrow> string \<Rightarrow> nat option" where
  "owner_index vs h =
     (case vs_routing vs of
        Some t \<Rightarrow> fmlookup t h
      | None \<Rightarrow> position (\<lambda>m. ms_claims m h) (vs_members vs))"

definition owner_of :: "view_snapshot \<Rightarrow> string \<Rightarrow> member_snapshot option" where
  "owner_of vs h = map_option (\<lambda>i. vs_members vs ! i) (owner_index vs h)"

definition serves :: "view_snapshot \<Rightarrow> string \<Rightarrow> bool" where
  "serves vs h \<longleftrightarrow>
     (case owner_index vs h of Some i \<Rightarrow> ms_has (vs_members vs ! i) h | None \<Rightarrow> False)"

definition view_hosts :: "view_snapshot \<Rightarrow> view_snapshot \<times> string list" where
  "view_hosts vs =
     (let (vs, t) = routing vs
      in (vs, filter (\<lambda>h. ms_has (vs_members vs ! the (fmlookup t h)) h) (fm_keys t)))"

fun select_named :: "view_snapshot \<Rightarrow> string list \<Rightarrow> string list \<times> string list" where
  "select_named vs [] = ([], [])"
| "select_named vs (name # names) =
     (let (selected, unclaimed) = select_named vs names in
      case owner_of vs name of
        Some m \<Rightarrow> (if ms_has m name then name # selected else selected, unclaimed)
      | None \<Rightarrow> (selected, name # unclaimed))"

text \<open>The error is the list of the named hosts no member claims.\<close>

definition select ::
  "string option \<Rightarrow> string option \<Rightarrow> view_snapshot \<Rightarrow> view_snapshot \<times> (string list + string list)" where
  "select host group' vs =
     (case (host, group') of
        (Some names, _) \<Rightarrow>
          (let (selected, unclaimed) = select_named vs (csv_items names)
           in (vs, if unclaimed \<noteq> [] then Inl unclaimed else Inr (sort_dedup selected)))
      | (None, Some g) \<Rightarrow>
          (vs, Inr (sort_dedup (concat (map
             (\<lambda>m. case ms_entry m of Some e \<Rightarrow> group_members (e_dataset e) g | None \<Rightarrow> [])
             (vs_members vs)))))
      | (None, None) \<Rightarrow> (let (vs, hs) = view_hosts vs in (vs, Inr (sort_dedup hs))))"

text \<open>The members in declared order, each with the hosts it owns in the order asked.\<close>

definition route ::
  "string list \<Rightarrow> view_snapshot \<Rightarrow> view_snapshot \<times> (string list + (member_snapshot \<times> string list) list)" where
  "route hosts vs =
     (let vs = prepare_routing (length hosts) vs;
          unclaimed = filter (\<lambda>h. owner_index vs h = None) hosts;
          owned = (\<lambda>i. filter (\<lambda>h. owner_index vs h = Some i) hosts)
      in (vs,
          if unclaimed \<noteq> [] then Inl unclaimed
          else Inr (map (\<lambda>i. (vs_members vs ! i, owned i))
                 (filter (\<lambda>i. owned i \<noteq> []) [0..<length (vs_members vs)]))))"

definition view_hostvars :: "string list \<Rightarrow> view_snapshot \<Rightarrow> view_snapshot \<times> (string, host_vars) fmap" where
  "view_hostvars selection vs =
     (let vs = prepare_routing (length selection) vs in
      (vs, fold (\<lambda>h acc.
          case Option.bind (owner_of vs h) (\<lambda>m. Option.bind (ms_entry m) (\<lambda>e. fmlookup (hostvars (e_dataset e)) h)) of
            Some vars \<Rightarrow> fmupd h vars acc | None \<Rightarrow> acc) selection fmempty))"

section \<open>Groups, age and freshness\<close>

definition merge_group :: "group \<Rightarrow> group \<Rightarrow> group" where
  "merge_group target g =
     \<lparr>g_hosts = g_hosts target @ g_hosts g, g_children = g_children target @ g_children g,
      g_vars = (case g_vars target of None \<Rightarrow> g_vars g | Some v \<Rightarrow> Some v)\<rparr>"

definition merge_member_groups :: "member_snapshot \<Rightarrow> (string, group) fmap \<Rightarrow> (string, group) fmap" where
  "merge_member_groups m merged =
     (case ms_entry m of
        None \<Rightarrow> merged
      | Some e \<Rightarrow>
          fm_fold (\<lambda>name g. fm_or_default group_default (\<lambda>t. merge_group t g) name)
            (groups (e_dataset e)) merged)"

definition view_groups :: "view_snapshot \<Rightarrow> (string, group) fmap" where
  "view_groups vs =
     fmmap (\<lambda>g. g\<lparr>g_hosts := sort_dedup (g_hosts g), g_children := sort_dedup (g_children g)\<rparr>)
       (fold merge_member_groups (vs_members vs) fmempty)"

definition view_dataset :: "string list \<Rightarrow> view_snapshot \<Rightarrow> view_snapshot \<times> dataset" where
  "view_dataset selection vs =
     (let (vs, hv) = view_hostvars selection vs
      in (vs, \<lparr>hostvars = hv, groups = view_groups vs, remove_hosts = []\<rparr>))"

definition max_or_0 :: "nat list \<Rightarrow> nat" where
  "max_or_0 xs = fold max xs 0"

definition view_age_seconds :: "instant \<Rightarrow> view_snapshot \<Rightarrow> nat" where
  "view_age_seconds now vs = max_or_0 (map (age_seconds now) (List.map_filter ms_entry (vs_members vs)))"

definition view_is_fresh :: "instant \<Rightarrow> view_snapshot \<Rightarrow> bool" where
  "view_is_fresh now vs \<longleftrightarrow>
     vs_members vs \<noteq> []
     \<and> list_all (\<lambda>m. case ms_entry m of Some e \<Rightarrow> is_fresh now e | None \<Rightarrow> False) (vs_members vs)"

definition view_ttl_seconds :: "view_snapshot \<Rightarrow> nat" where
  "view_ttl_seconds vs =
     (case v_ttl_seconds (vs_view vs) of
        Some t \<Rightarrow> t
      | None \<Rightarrow> max_or_0 (map (\<lambda>m. default_ttl m (vs_view vs)) (vs_members vs)))"

section \<open>The memo of host counts\<close>

type_synonym hosts_memo = "(string, u64 \<times> nat) fmap"

definition hosts_count :: "string \<Rightarrow> u64 \<Rightarrow> (unit \<Rightarrow> nat) \<Rightarrow> hosts_memo \<Rightarrow> hosts_memo \<times> nat" where
  "hosts_count view_id gen compute memo =
     (case fmlookup memo view_id of
        Some (seen, n) \<Rightarrow>
          (if seen = gen then (memo, n)
           else (fmupd view_id (gen, compute ()) memo, compute ()))
      | None \<Rightarrow> (fmupd view_id (gen, compute ()) memo, compute ()))"

section \<open>A table and a predicate that agree\<close>

locale claimant =
  fixes claims_host :: "'m \<Rightarrow> string \<Rightarrow> bool"
    and claimed :: "'m \<Rightarrow> string list"
  assumes claimed_iff: "h \<in> set (claimed m) \<longleftrightarrow> claims_host m h"
begin

lemma ensure_all:
  "fmlookup (fold (\<lambda>(i, m). fm_ensure i (claimed m)) (List.enumerate k ms) acc) h =
     (case fmlookup acc h of
        Some i \<Rightarrow> Some i
      | None \<Rightarrow> map_option ((+) k) (position (\<lambda>m. claims_host m h) ms))"
proof (induction ms arbitrary: k acc)
  case (Cons m ms)
  then show ?case
    by (cases "position (\<lambda>m. claims_host m h) ms") (auto simp: claimed_iff split: option.splits)
qed (simp split: option.split)

lemma table_is_scan: "fmlookup (routing_table claimed ms) h = position (\<lambda>m. claims_host m h) ms"
  by (cases "position (\<lambda>m. claims_host m h) ms") (simp_all add: routing_table_def ensure_all)

lemma table_index:
  "fmlookup (routing_table claimed ms) h = Some i \<Longrightarrow> i < length ms \<and> claims_host (ms ! i) h"
  by (simp add: table_is_scan position_Some)

end

lemma catch_all_claims:
  "h \<in> set (concat (map (group_members d) (fm_keys (groups d)))) \<longleftrightarrow> in_some_group d h"
proof
  assume "in_some_group d h"
  then obtain k g where "fmlookup (groups d) k = Some g" "h \<in> set (g_hosts g)"
    by (auto simp: in_some_group_def fm_any_iff)
  then have "k \<in> set (fm_keys (groups d))" "h \<in> set (group_members d k)"
    by (auto simp: group_members_def fmlookup_fmdom')
  then show "h \<in> set (concat (map (group_members d) (fm_keys (groups d))))" by auto
next
  assume "h \<in> set (concat (map (group_members d) (fm_keys (groups d))))"
  then obtain k where "h \<in> set (group_members d k)" by auto
  then show "in_some_group d h"
    by (cases "fmlookup (groups d) k") (auto simp: in_some_group_def fm_any_iff group_members_def)
qed

lemma claims_claimed: "h \<in> set (claimed_hosts o' d) \<longleftrightarrow> claims o' d h"
  using catch_all_claims [of h d]
  by (auto simp: claimed_hosts_def claims_def fmlookup_fmdom' list_ex_iff)

interpretation view_members: claimant ms_claims ms_claimed_hosts
  by unfold_locales (simp add: ms_claims_def ms_claimed_hosts_def claims_claimed split: option.split)

section \<open>Routing does not depend on the table\<close>

definition wf_routing :: "view_snapshot \<Rightarrow> bool" where
  "wf_routing vs \<longleftrightarrow>
     vs_routing vs = None \<or> vs_routing vs = Some (routing_table ms_claimed_hosts (vs_members vs))"

text \<open>The member whose claim comes first in declared order.\<close>

definition first_claim :: "view_snapshot \<Rightarrow> string \<Rightarrow> nat option" where
  "first_claim vs h = position (\<lambda>m. ms_claims m h) (vs_members vs)"

lemma snapshot_wf: "wf_routing (snapshot cache sources scopes view_id v)"
  by (simp add: wf_routing_def snapshot_def)

lemma owner_index_first: "wf_routing vs \<Longrightarrow> owner_index vs h = first_claim vs h"
  by (auto simp: wf_routing_def owner_index_def first_claim_def view_members.table_is_scan)

lemma first_claim_bound: "first_claim vs h = Some i \<Longrightarrow> i < length (vs_members vs) \<and> ms_claims (vs_members vs ! i) h"
  by (simp add: first_claim_def position_Some)

lemma routing_props:
  assumes "wf_routing vs"
  shows "wf_routing (fst (routing vs))" "vs_members (fst (routing vs)) = vs_members vs"
    "vs_view (fst (routing vs)) = vs_view vs"
    "snd (routing vs) = routing_table ms_claimed_hosts (vs_members vs)"
  using assms by (auto simp: routing_def wf_routing_def Let_def split: option.splits)

lemma prepare_routing_props:
  assumes "wf_routing vs"
  shows "wf_routing (prepare_routing n vs)" "vs_members (prepare_routing n vs) = vs_members vs"
    "first_claim (prepare_routing n vs) h = first_claim vs h"
  using routing_props [OF assms] assms by (simp_all add: prepare_routing_def first_claim_def)

datatype view_read =
    Read_hosts
  | Read_select "string option" "string option"
  | Read_route "string list"
  | Read_hostvars "string list"

fun run_read :: "view_read \<Rightarrow> view_snapshot \<Rightarrow> view_snapshot" where
  "run_read Read_hosts vs = fst (view_hosts vs)"
| "run_read (Read_select h g) vs = fst (select h g vs)"
| "run_read (Read_route hs) vs = fst (route hs vs)"
| "run_read (Read_hostvars hs) vs = fst (view_hostvars hs vs)"

lemma run_read_props:
  assumes "wf_routing vs"
  shows "wf_routing (run_read r vs) \<and> vs_members (run_read r vs) = vs_members vs"
  using assms routing_props [OF assms] prepare_routing_props [OF assms]
  by (cases r) (auto simp: view_hosts_def select_def route_def view_hostvars_def Let_def split_def
      split: option.split)

lemma run_reads_props:
  "wf_routing vs \<Longrightarrow> wf_routing (fold run_read rs vs) \<and> vs_members (fold run_read rs vs) = vs_members vs"
  using run_read_props by (induction rs arbitrary: vs) simp_all


section \<open>What a view serves\<close>

lemma serves_iff:
  "wf_routing vs \<Longrightarrow> serves vs h \<longleftrightarrow> (\<exists>i. first_claim vs h = Some i \<and> ms_has (vs_members vs ! i) h)"
  by (simp add: serves_def owner_index_first split: option.split)

lemma view_hosts_eq:
  assumes "wf_routing vs"
  shows "snd (view_hosts vs) = sorted_list_of_set {h. serves vs h}"
proof -
  let ?t = "routing_table ms_claimed_hosts (vs_members vs)"
  let ?P = "\<lambda>h. ms_has (vs_members vs ! the (fmlookup ?t h)) h"
  have e: "snd (view_hosts vs) = filter ?P (fm_keys ?t)"
    using routing_props [OF assms] by (simp add: view_hosts_def split_def)
  have "set (filter ?P (fm_keys ?t)) = {h. serves vs h}"
    unfolding serves_iff [OF assms]
    by (auto simp: first_claim_def fmlookup_fmdom' view_members.table_is_scan)
  moreover have "sorted (filter ?P (fm_keys ?t))" "distinct (filter ?P (fm_keys ?t))"
    by (simp_all add: sorted_wrt_filter)
  ultimately show ?thesis
    unfolding e by (metis sorted_list_of_set.idem_if_sorted_distinct)
qed

lemma view_hosts_set:
  assumes "wf_routing vs"
  shows "set (snd (view_hosts vs)) = {h. serves vs h}"
proof -
  have "{h. serves vs h} \<subseteq> set (fm_keys (routing_table ms_claimed_hosts (vs_members vs)))"
    unfolding serves_iff [OF assms]
    by (auto simp: first_claim_def fmlookup_fmdom' view_members.table_is_scan)
  then have "finite {h. serves vs h}" by (rule finite_subset) simp
  then show ?thesis by (simp add: view_hosts_eq [OF assms])
qed

lemma select_named_props:
  "snd (select_named vs names) = filter (\<lambda>n. owner_index vs n = None) names
   \<and> fst (select_named vs names) = filter (serves vs) names"
  by (induction names) (auto simp: Let_def split_def owner_of_def serves_def split: option.splits)

text \<open>
  A read that names hosts is refused exactly when some named host has no owner, naming
  every such host; otherwise it selects the named hosts their owner holds. A read that
  names none selects every host that its owner holds. Both are sorted, each host once.
\<close>

theorem select_exact:
  assumes "wf_routing vs"
  shows "snd (select (Some names) g vs) =
      (if \<exists>n \<in> set (csv_items names). first_claim vs n = None
       then Inl (filter (\<lambda>n. first_claim vs n = None) (csv_items names))
       else Inr (sorted_list_of_set {n \<in> set (csv_items names). serves vs n}))
    \<and> snd (select None None vs) = Inr (sorted_list_of_set {h. serves vs h})"
proof
  show "snd (select (Some names) g vs) =
      (if \<exists>n \<in> set (csv_items names). first_claim vs n = None
       then Inl (filter (\<lambda>n. first_claim vs n = None) (csv_items names))
       else Inr (sorted_list_of_set {n \<in> set (csv_items names). serves vs n}))"
    using select_named_props [of vs "csv_items names"] owner_index_first [OF assms]
    by (auto simp: select_def Let_def split_def filter_empty_conv sort_dedup_eq Collect_conj_eq
        intro!: arg_cong [where f = sorted_list_of_set])
  have "set (snd (view_hosts vs)) = {h. serves vs h}" by (rule view_hosts_set [OF assms])
  then show "snd (select None None vs) = Inr (sorted_list_of_set {h. serves vs h})"
    by (simp add: select_def split_def Let_def sort_dedup_eq)
qed

text \<open>
  A refresh of a view is split without loss: when every host has an owner, each asked
  host goes to exactly one member, its owner, as many times as it was asked, members come
  in declared order and none is called for nothing. Otherwise nothing is routed and every
  host without an owner is named.
\<close>

theorem route_partitions:
  assumes "wf_routing vs"
  shows "case snd (route hosts vs) of
      Inl unclaimed \<Rightarrow> unclaimed \<noteq> [] \<and> unclaimed = filter (\<lambda>h. first_claim vs h = None) hosts
    | Inr parts \<Rightarrow>
        (\<forall>h \<in> set hosts. first_claim vs h \<noteq> None)
        \<and> mset (concat (map snd parts)) = mset hosts
        \<and> (\<forall>(m, hs) \<in> set parts. hs \<noteq> [] \<and> (\<forall>h \<in> set hs. ms_claims m h))
        \<and> (\<exists>idx. sorted idx \<and> distinct idx \<and> map fst parts = map ((!) (vs_members vs)) idx)"
proof -
  let ?vs = "prepare_routing (length hosts) vs"
  note p = prepare_routing_props [OF assms, where n = "length hosts"]
  have o': "owner_index ?vs h = first_claim vs h" for h
    using owner_index_first [OF p(1)] p(3) by simp
  let ?owned = "\<lambda>i. filter (\<lambda>h. first_claim vs h = Some i) hosts"
  show ?thesis
  proof (cases "filter (\<lambda>h. first_claim vs h = None) hosts = []")
    case False
    then show ?thesis by (simp add: route_def Let_def o')
  next
    case True
    then have all: "\<forall>h \<in> set hosts. first_claim vs h \<noteq> None" by (simp add: filter_empty_conv)
    let ?idx = "filter (\<lambda>i. ?owned i \<noteq> []) [0..<length (vs_members vs)]"
    have r: "snd (route hosts vs) = Inr (map (\<lambda>i. (vs_members vs ! i, ?owned i)) ?idx)"
      using True p(2) by (simp add: route_def Let_def o')
    have "mset (concat (map ?owned ?idx)) = mset (filter (\<lambda>h. \<exists>i < length (vs_members vs). first_claim vs h = Some i) hosts)"
      unfolding concat_map_nonempty by (rule mset_split)
    also have "filter (\<lambda>h. \<exists>i < length (vs_members vs). first_claim vs h = Some i) hosts = hosts"
      using all first_claim_bound by (fastforce intro: filter_True)
    finally have split_ok: "mset (concat (map ?owned ?idx)) = mset hosts" .
    have "\<exists>idx. sorted idx \<and> distinct idx
        \<and> map fst (map (\<lambda>i. (vs_members vs ! i, ?owned i)) ?idx) = map ((!) (vs_members vs)) idx"
      by (rule exI [of _ ?idx]) (simp add: sorted_wrt_filter)
    moreover have "\<forall>(m, hs) \<in> set (map (\<lambda>i. (vs_members vs ! i, ?owned i)) ?idx). hs \<noteq> [] \<and> (\<forall>h \<in> set hs. ms_claims m h)"
      using first_claim_bound by fastforce
    moreover have "map snd (map (\<lambda>i. (vs_members vs ! i, ?owned i)) ?idx) = map ?owned ?idx" by simp
    ultimately show ?thesis
      unfolding r sum.case using all split_ok by (simp add: comp_def)
  qed
qed

text \<open>A small view: the first member owns the group \<open>prod\<close> of the inventory, the second
  whatever is left.\<close>

definition sample_view :: view where
  "sample_view =
     \<lparr>v_name = ''facts'',
      v_members =
        [\<lparr>vm_source = ''edge'', vm_owns = \<lparr>ow_source = ''vm'', ow_groups = [''prod''], ow_hosts = [], ow_advertised = False\<rparr>\<rparr>,
         \<lparr>vm_source = ''vm'', vm_owns = \<lparr>ow_source = ''vm'', ow_groups = [], ow_hosts = [], ow_advertised = False\<rparr>\<rparr>],
      v_ttl_seconds = None\<rparr>"

definition sample_cache :: mem_cache where
  "sample_cache = mc_set ''vm'' (ce_new 0 sample_dataset 900) mc_new"

lemma sample_first_claim:
  "first_claim (snapshot sample_cache fmempty fmempty ''facts'' sample_view) ''web1'' = Some 0"
  "first_claim (snapshot sample_cache fmempty fmempty ''facts'' sample_view) ''nowhere'' = None"
  "\<not> serves (snapshot sample_cache fmempty fmempty ''facts'' sample_view) ''web1''"
proof -
  have g: "mc_get sample_cache ''vm'' = Some (ce_new 0 sample_dataset 900)" "mc_get sample_cache ''edge'' = None"
    by (simp_all add: sample_cache_def mc_new_def mc_defs)
  have c: "claims \<lparr>ow_source = ''vm'', ow_groups = [''prod''], ow_hosts = [], ow_advertised = False\<rparr> sample_dataset h
      \<longleftrightarrow> h = ''web1'' \<or> h = ''db1''" for h
    by (simp add: claims_def is_catch_all_def group_members_def sample_dataset_def fmlookup_of_list)
  have n: "\<not> claims \<lparr>ow_source = ''vm'', ow_groups = [], ow_hosts = [], ow_advertised = False\<rparr> sample_dataset ''nowhere''"
    by (auto simp: claims_def is_catch_all_def in_some_group_def fm_any_iff sample_dataset_def fmlookup_of_list
        split: if_splits)
  show f: "first_claim (snapshot sample_cache fmempty fmempty ''facts'' sample_view) ''web1'' = Some 0"
    by (simp add: first_claim_def snapshot_def sample_view_def effective_ownership_def ms_claims_def g c ce_new_def)
  show "first_claim (snapshot sample_cache fmempty fmempty ''facts'' sample_view) ''nowhere'' = None"
    by (simp add: first_claim_def snapshot_def sample_view_def effective_ownership_def ms_claims_def g c n ce_new_def)
  show "\<not> serves (snapshot sample_cache fmempty fmempty ''facts'' sample_view) ''web1''"
    unfolding serves_iff [OF snapshot_wf] f
    by (simp add: snapshot_def sample_view_def effective_ownership_def ms_has_def g)
qed

theorem select_exact_witness:
  "snd (select (Some ''web1'') None (snapshot sample_cache fmempty fmempty ''facts'' sample_view)) = Inr []"
proof -
  have "csv_items ''web1'' = [''web1'']" by code_simp
  with select_exact [of "snapshot sample_cache fmempty fmempty ''facts'' sample_view" "''web1''" None, OF snapshot_wf]
  show ?thesis by (simp add: sample_first_claim)
qed

theorem route_partitions_witness:
  "snd (route [''web1'', ''nowhere''] (snapshot sample_cache fmempty fmempty ''facts'' sample_view)) = Inl [''nowhere'']"
  using route_partitions [of "snapshot sample_cache fmempty fmempty ''facts'' sample_view" "[''web1'', ''nowhere'']", OF snapshot_wf]
  by (auto simp: sample_first_claim split: sum.splits)

text \<open>
  The variables a view serves for a host are those its owner holds, for every selected
  host and for no other; the rest of the members are never asked.
\<close>

theorem view_hostvars_from_owner:
  assumes "wf_routing vs"
  shows "fmlookup (snd (view_hostvars selection vs)) h =
    (if h \<in> set selection
     then Option.bind (first_claim vs h) (\<lambda>i. Option.bind (ms_entry (vs_members vs ! i))
            (\<lambda>e. fmlookup (hostvars (e_dataset e)) h))
     else None)"
proof -
  let ?vs = "prepare_routing (length selection) vs"
  note p = prepare_routing_props [OF assms, where n = "length selection"]
  define f where "f h = Option.bind (owner_of ?vs h) (\<lambda>m. Option.bind (ms_entry m)
    (\<lambda>e. fmlookup (hostvars (e_dataset e)) h))" for h
  have f: "f h = Option.bind (first_claim vs h) (\<lambda>i. Option.bind (ms_entry (vs_members vs ! i))
            (\<lambda>e. fmlookup (hostvars (e_dataset e)) h))" for h
    unfolding f_def owner_of_def owner_index_first [OF p(1)] p(2,3) by (cases "first_claim vs h") auto
  have "fmlookup (fold (\<lambda>h acc. case f h of Some vars \<Rightarrow> fmupd h vars acc | None \<Rightarrow> acc) xs acc) h
      = (if h \<in> set xs \<and> f h \<noteq> None then f h else fmlookup acc h)" for xs acc
    by (induction xs arbitrary: acc) (auto split: option.splits)
  from this [of selection fmempty] show ?thesis
    unfolding f [symmetric] by (simp add: view_hostvars_def Let_def f_def)
qed

theorem view_hostvars_from_owner_witness:
  "fmlookup (snd (view_hostvars [''web1''] (snapshot sample_cache fmempty fmempty ''facts'' sample_view))) ''web1'' = None"
proof -
  have "ms_entry (vs_members (snapshot sample_cache fmempty fmempty ''facts'' sample_view) ! 0) = None"
    by (simp add: snapshot_def sample_view_def effective_ownership_def sample_cache_def mc_new_def mc_defs)
  with view_hostvars_from_owner [of "snapshot sample_cache fmempty fmempty ''facts'' sample_view" "[''web1'']" "''web1''", OF snapshot_wf]
  show ?thesis by (simp add: sample_first_claim)
qed

section \<open>Groups\<close>

lemma member_groups_fold:
  "fmlookup (merge_member_groups m merged) n =
     (case Option.bind (ms_entry m) (\<lambda>e. fmlookup (groups (e_dataset e)) n) of
        None \<Rightarrow> fmlookup merged n
      | Some g \<Rightarrow> Some (merge_group (case fmlookup merged n of None \<Rightarrow> group_default | Some t \<Rightarrow> t) g))"
  by (auto simp: merge_member_groups_def fm_fold_or_default [where f = "\<lambda>g t. merge_group t g"] split: option.split)

text \<open>The groups of one name among the members that hold data, in declared order.\<close>

definition groups_named :: "member_snapshot list \<Rightarrow> string \<Rightarrow> group list" where
  "groups_named ms n =
     List.map_filter (\<lambda>m. Option.bind (ms_entry m) (\<lambda>e. fmlookup (groups (e_dataset e)) n)) ms"

lemma fold_member_groups:
  "fmlookup (fold merge_member_groups ms acc) n =
     (if groups_named ms n = [] then fmlookup acc n
      else Some (fold (\<lambda>g t. merge_group t g) (groups_named ms n)
             (case fmlookup acc n of None \<Rightarrow> group_default | Some t \<Rightarrow> t)))"
  by (induction ms arbitrary: acc)
    (auto simp: groups_named_def List.map_filter_simps member_groups_fold split: option.splits)

lemma fold_merge_group:
  "set (g_hosts (fold (\<lambda>g t. merge_group t g) gs t)) = set (g_hosts t) \<union> (\<Union>g\<in>set gs. set (g_hosts g))
   \<and> set (g_children (fold (\<lambda>g t. merge_group t g) gs t)) = set (g_children t) \<union> (\<Union>g\<in>set gs. set (g_children g))
   \<and> g_vars (fold (\<lambda>g t. merge_group t g) gs t)
       = (case g_vars t of Some v \<Rightarrow> Some v | None \<Rightarrow> Option.bind (List.find (\<lambda>g. g_vars g \<noteq> None) gs) g_vars)"
  by (induction gs arbitrary: t) (auto simp: merge_group_def split: option.splits)

text \<open>
  A view's groups are the members' groups, one namespace: a group is there exactly when
  some member that holds data has it, with the union of the hosts and of the children
  (sorted, each once) and the variables of the first member that gives it any.
\<close>

theorem view_groups_union:
  "fmlookup (view_groups vs) n =
     (let gs = groups_named (vs_members vs) n in
      if gs = [] then None
      else Some \<lparr>g_hosts = sorted_list_of_set (\<Union>g\<in>set gs. set (g_hosts g)),
                 g_children = sorted_list_of_set (\<Union>g\<in>set gs. set (g_children g)),
                 g_vars = Option.bind (List.find (\<lambda>g. g_vars g \<noteq> None) gs) g_vars\<rparr>)"
  using fold_merge_group [of "groups_named (vs_members vs) n" group_default]
  by (simp add: view_groups_def Let_def fold_member_groups sort_dedup_eq group_default_def)

section \<open>Advertised ownership never widens\<close>

text \<open>
  A member that routes by what its source advertises claims nothing while nothing is
  known and nothing is declared, and claims the whole inventory only when its source said
  so; a declared member routes by exactly what is declared.
\<close>

theorem advertised_never_widens:
  "case effective_ownership m src scopes of
     (None, mode) \<Rightarrow> mode = Unknown \<and> ow_advertised (vm_owns m)
       \<and> Option.bind src source_advertised_scope = None \<and> scope_get scopes (vm_source m) = None
       \<and> is_catch_all (vm_owns m)
   | (Some o', mode) \<Rightarrow>
       ow_source o' = ow_source (vm_owns m)
       \<and> (is_catch_all o' \<longrightarrow>
            (\<not> ow_advertised (vm_owns m) \<and> is_catch_all (vm_owns m))
            \<or> (\<exists>c. (Option.bind src source_advertised_scope = Some c \<or> scope_get scopes (vm_source m) = Some c)
                 \<and> sc_groups c = [] \<and> sc_hosts c = []))"
  by (auto simp: effective_ownership_def is_catch_all_def split: option.splits)

theorem advertised_never_widens_witness:
  "effective_ownership
     \<lparr>vm_source = ''edge'', vm_owns = \<lparr>ow_source = ''vm'', ow_groups = [], ow_hosts = [], ow_advertised = True\<rparr>\<rparr>
     None fmempty = (None, Unknown)"
proof -
  let ?m = "\<lparr>vm_source = ''edge'', vm_owns = \<lparr>ow_source = ''vm'', ow_groups = [], ow_hosts = [], ow_advertised = True\<rparr>\<rparr>"
  obtain o' mode where e: "effective_ownership ?m None fmempty = (o', mode)" by fastforce
  with advertised_never_widens [of ?m None fmempty] show ?thesis
    by (cases o') (auto simp: scope_get_def effective_ownership_def)
qed

section \<open>The memo answers the current count only when read atomically\<close>

text \<open>
  One scrape of \<open>/metrics\<close> (\<open>src/src/adapters/in/http/metrics.rs\<close>): the snapshot is taken
  from the cache \<open>c\<close>, then the counter is read, from the cache \<open>c\<close> has become after the
  calls \<open>during\<close> of other tasks.
\<close>

definition served_count :: "mem_cache \<Rightarrow> (string, source) fmap \<Rightarrow> scope_registry \<Rightarrow> string \<Rightarrow> view \<Rightarrow> nat" where
  "served_count c sources scopes view_id v = length (snd (view_hosts (snapshot c sources scopes view_id v)))"

definition scrape_hosts ::
  "mem_cache \<Rightarrow> port_call list \<Rightarrow> (string, source) fmap \<Rightarrow> scope_registry \<Rightarrow> string \<Rightarrow> view
     \<Rightarrow> hosts_memo \<Rightarrow> hosts_memo \<times> nat" where
  "scrape_hosts c during sources scopes view_id v memo =
     hosts_count view_id (generation (fold mc_call during c))
       (\<lambda>_. served_count c sources scopes view_id v) memo"

lemma served_count_cong:
  "(\<And>key. mc_get c key = mc_get c' key)
     \<Longrightarrow> served_count c sources scopes view_id v = served_count c' sources scopes view_id v"
  by (simp add: served_count_def snapshot_def)

text \<open>With no call between the snapshot and the counter, and the view as it was, a later
  scrape answers the current count.\<close>

lemma hosts_memo_current:
  assumes "fmlookup memo view_id = None" and "length calls < 2 ^ 64"
  shows "snd (scrape_hosts (fold mc_call calls c) [] sources scopes view_id v
      (fst (scrape_hosts c [] sources scopes view_id v memo)))
    = served_count (fold mc_call calls c) sources scopes view_id v"
proof -
  have m: "fst (scrape_hosts c [] sources scopes view_id v memo)
      = fmupd view_id (generation c, served_count c sources scopes view_id v) memo"
    using assms(1) by (simp add: scrape_hosts_def hosts_count_def)
  show ?thesis
  proof (cases "generation (fold mc_call calls c) = generation c")
    case True
    then have "mc_get (fold mc_call calls c) key = mc_get c key" for key
      using mem.generation_detects [OF assms(2)] unfolding mc_call_def by blast
    then have "served_count (fold mc_call calls c) sources scopes view_id v
        = served_count c sources scopes view_id v"
      by (rule served_count_cong)
    with True show ?thesis unfolding m by (simp add: scrape_hosts_def hosts_count_def)
  next
    case False
    then show ?thesis unfolding m by (simp add: scrape_hosts_def hosts_count_def)
  qed
qed

definition catch_all_view :: view where
  "catch_all_view =
     \<lparr>v_name = ''all'',
      v_members = [\<lparr>vm_source = ''vm'', vm_owns = \<lparr>ow_source = ''vm'', ow_groups = [], ow_hosts = [], ow_advertised = False\<rparr>\<rparr>],
      v_ttl_seconds = None\<rparr>"

text \<open>
  The memo can hold a stale count: when a sync writes between the snapshot and the
  reading of the counter, the count of the data before the write is remembered under the
  counter after it, and every later scrape answers it until something else is written.
\<close>

theorem hosts_memo_stale:
  "let wr = Call_set ''vm'' (ce_new 0 sample_dataset 900);
       memo = fst (scrape_hosts mc_new [wr] fmempty fmempty ''all'' catch_all_view fmempty);
       c = mc_call wr mc_new
   in snd (scrape_hosts c [] fmempty fmempty ''all'' catch_all_view memo) = 0
      \<and> served_count c fmempty fmempty ''all'' catch_all_view > 0"
proof -
  let ?wr = "Call_set ''vm'' (ce_new 0 sample_dataset 900)"
  let ?c = "mc_call ?wr mc_new"
  let ?vs = "\<lambda>c. snapshot c fmempty fmempty ''all'' catch_all_view"
  have g: "mc_get mc_new key = None" "mc_get ?c ''vm'' = Some (ce_new 0 sample_dataset 900)" for key
    by (simp_all add: mc_call_def mc_new_def mc_defs)
  have none: "\<not> serves (?vs mc_new) h" for h
    unfolding serves_iff [OF snapshot_wf]
    using first_claim_bound [of "?vs mc_new" h]
    by (auto simp: snapshot_def catch_all_view_def effective_ownership_def ms_has_def g)
  then have zero: "served_count mc_new fmempty fmempty ''all'' catch_all_view = 0"
    by (simp add: served_count_def view_hosts_eq [OF snapshot_wf])
  have "serves (?vs ?c) ''web1''"
  proof -
    have "\<exists>vars. fmlookup (hostvars sample_dataset) ''web1'' = Some vars"
      by (simp add: sample_dataset_def fmlookup_of_list)
    then obtain vars where h: "fmlookup (hostvars sample_dataset) ''web1'' = Some vars" ..
    have d: "e_dataset (ce_new 0 sample_dataset 900) = sample_dataset" by (simp add: ce_new_def)
    show ?thesis
      unfolding serves_iff [OF snapshot_wf]
      by (simp add: first_claim_def snapshot_def catch_all_view_def effective_ownership_def ms_claims_def
          ms_has_def g claims_def is_catch_all_def d h)
  qed
  moreover have "set (snd (view_hosts (?vs ?c))) = {h. serves (?vs ?c) h}"
    using view_hosts_set [OF snapshot_wf] .
  ultimately have pos: "served_count ?c fmempty fmempty ''all'' catch_all_view > 0"
    by (auto simp: served_count_def)
  have "scrape_hosts mc_new [?wr] fmempty fmempty ''all'' catch_all_view fmempty
      = (fmupd ''all'' (generation ?c, 0) fmempty, 0)"
    by (simp add: scrape_hosts_def hosts_count_def zero)
  then show ?thesis
    using pos by (simp add: scrape_hosts_def hosts_count_def Let_def)
qed

end
