(* ===== verification/Output.thy ===== *)
theory Output
  imports Datasets Host_Filter Views
begin

text \<open>
  Output endpoints: \<open>src/src/application/output.rs\<close> and the settings of
  \<open>src/src/domain/endpoint.rs\<close>. The datasets of an endpoint's sources are limited, merged,
  filtered and shaped, and rendered as Ansible inventory, as JSON or as CSV. The JSON texts are
  values here: \<open>serde_json\<close> writes them. The lemmas say which hosts and variables come out,
  that no parameter widens an endpoint, and that the Ansible and CSV output reads back.
\<close>

section \<open>Settings\<close>

type_synonym datasets = "(string, dataset) fmap"
type_synonym settings = "(string, string) fmap"

datatype output_format = Ansible | Json | Csv

fun format_name :: "output_format \<Rightarrow> string" where
  "format_name Ansible = ''ansible''"
| "format_name Json = ''json''"
| "format_name Csv = ''csv''"

record endpoint_limit =
  by_hosts_from_inventory :: "string option"

definition limit_is_empty :: "endpoint_limit \<Rightarrow> bool" where
  "limit_is_empty l \<longleftrightarrow> by_hosts_from_inventory l = None"

definition BUILTIN_SETTINGS :: "string list" where
  "BUILTIN_SETTINGS = [''host'', ''group'', ''filter'', ''fields'', ''exclude_fields'']"

definition renamed_setting :: "string \<Rightarrow> string option" where
  "renamed_setting old =
     (if old = ''filter_os'' then Some (''filter: '' @ quoted ''os=<value>'')
      else if old = ''filter_datacenter'' then Some (''filter: '' @ quoted ''datacenter=<value>'')
      else if old = ''filter_group'' then Some ''group''
      else if old = ''columns'' then Some ''fields''
      else if old = ''exclude_vars'' then Some ''exclude_fields''
      else None)"

text \<open>\<open>Value::get\<close> with a key.\<close>

definition param :: "json \<Rightarrow> string \<Rightarrow> json option" where
  "param params key = Option.bind (as_object params) (\<lambda>m. fmlookup m key)"

definition setting :: "json \<Rightarrow> settings \<Rightarrow> string \<Rightarrow> string" where
  "setting params config key =
     (case Option.bind (param params key) as_str of
        Some value \<Rightarrow> value
      | None \<Rightarrow> (case fmlookup config key of None \<Rightarrow> [] | Some v \<Rightarrow> v))"

datatype param_error =
    Renamed string string
  | Not_a_string string json
  | Filter_entry json
  | Bad_filter filter_error

definition request_filter :: "settings \<Rightarrow> json \<Rightarrow> param_error + host_filter" where
  "request_filter config params =
     (let host = setting params config ''host''
      in case param params ''filter'' of
           Some (JArr items) \<Rightarrow>
             (case traverse (\<lambda>i. case as_str i of Some s \<Rightarrow> Inr s | None \<Rightarrow> Inl (Filter_entry i)) items of
                Inl e \<Rightarrow> Inl e
              | Inr conditions \<Rightarrow> map_sum Bad_filter (\<lambda>f. f) (from_conditions host conditions))
         | _ \<Rightarrow> map_sum Bad_filter (\<lambda>f. f) (parse_filter host (setting params config ''filter'')))"

definition check_param :: "(string, json) fmap \<Rightarrow> string \<Rightarrow> param_error option" where
  "check_param obj key =
     (case renamed_setting key of
        Some new \<Rightarrow> Some (Renamed key new)
      | None \<Rightarrow>
          (let value = the (fmlookup obj key);
               is_list = (key = ''filter'' \<and> (case value of JArr _ \<Rightarrow> True | _ \<Rightarrow> False))
           in if key \<in> set BUILTIN_SETTINGS \<and> as_str value = None \<and> \<not> is_list
              then Some (Not_a_string key value) else None))"

definition check_params :: "settings \<Rightarrow> json \<Rightarrow> param_error + unit" where
  "check_params config params =
     (case (case as_object params of
              None \<Rightarrow> []
            | Some obj \<Rightarrow> List.map_filter (check_param obj) (fm_keys obj)) of
        e # _ \<Rightarrow> Inl e
      | [] \<Rightarrow> map_sum (\<lambda>e. e) (\<lambda>_. ()) (request_filter config params))"

section \<open>The limit\<close>

definition limit_dataset :: "string set \<Rightarrow> dataset \<Rightarrow> dataset" where
  "limit_dataset allowed d =
     d\<lparr>hostvars := fm_retain (\<lambda>h _. h \<in> allowed) (hostvars d),
       groups := fmmap (\<lambda>g. g\<lparr>g_hosts := filter (\<lambda>h. h \<in> allowed) (g_hosts g)\<rparr>) (groups d)\<rparr>"

definition limit_hosts :: "datasets \<Rightarrow> string \<Rightarrow> string set" where
  "limit_hosts ds sid = (case fmlookup ds sid of None \<Rightarrow> {} | Some d \<Rightarrow> fmdom' (hostvars d))"

definition apply_limit :: "datasets \<Rightarrow> endpoint_limit \<Rightarrow> datasets" where
  "apply_limit ds l =
     (case by_hosts_from_inventory l of
        None \<Rightarrow> ds
      | Some sid \<Rightarrow> fmmap (limit_dataset (limit_hosts ds sid)) ds)"

section \<open>Merge and filter\<close>

definition merge_out_group :: "group \<Rightarrow> group \<Rightarrow> group" where
  "merge_out_group g merged =
     \<lparr>g_hosts = add_new (g_hosts merged) (g_hosts g),
      g_children = add_new (g_children merged) (g_children g),
      g_vars = (case g_vars g of
                  None \<Rightarrow> g_vars merged
                | Some v \<Rightarrow> Some ((case g_vars merged of None \<Rightarrow> fmempty | Some w \<Rightarrow> w) ++\<^sub>f v))\<rparr>"

definition merge_out_hosts :: "dataset \<Rightarrow> (string, host_vars) fmap \<Rightarrow> (string, host_vars) fmap" where
  "merge_out_hosts d hv = fm_fold (\<lambda>h vars. fm_or_default fmempty (\<lambda>old. old ++\<^sub>f vars) h) (hostvars d) hv"

definition merge_out_groups :: "dataset \<Rightarrow> (string, group) fmap \<Rightarrow> (string, group) fmap" where
  "merge_out_groups d gs = fm_fold (\<lambda>n g. fm_or_default group_default (merge_out_group g) n) (groups d) gs"

definition merged_hosts :: "datasets \<Rightarrow> (string, host_vars) fmap" where
  "merged_hosts ds = fold (\<lambda>id. merge_out_hosts (the (fmlookup ds id))) (fm_keys ds) fmempty"

definition merged_groups :: "datasets \<Rightarrow> (string, group) fmap" where
  "merged_groups ds = fold (\<lambda>id. merge_out_groups (the (fmlookup ds id))) (fm_keys ds) fmempty"

definition keep_group :: "string set \<Rightarrow> group \<Rightarrow> bool" where
  "keep_group survivors g \<longleftrightarrow>
     (if g_hosts g \<noteq> []
      then \<not> (filter (\<lambda>h. h \<in> survivors) (g_hosts g) = [] \<and> g_children g = [])
      else \<not> (g_children g = [] \<and> (case g_vars g of None \<Rightarrow> True | Some v \<Rightarrow> v = fmempty)))"

definition prune_groups :: "string set \<Rightarrow> (string, group) fmap \<Rightarrow> (string, group) fmap" where
  "prune_groups survivors gs =
     fmmap (\<lambda>g. g\<lparr>g_hosts := filter (\<lambda>h. h \<in> survivors) (g_hosts g)\<rparr>)
       (fm_retain (\<lambda>_. keep_group survivors) gs)"

definition in_groups :: "(string, group) fmap \<Rightarrow> string list \<Rightarrow> string set" where
  "in_groups gs names =
     (\<Union>n \<in> set names. case fmlookup gs n of None \<Rightarrow> {} | Some g \<Rightarrow> set (g_hosts g))"

definition out_select :: "settings \<Rightarrow> json \<Rightarrow> var_select" where
  "out_select config params =
     (let fields = csv_items (setting params config ''fields'')
      in \<lparr>vs_keep = (if fields \<noteq> [] then Some fields else None),
          vs_drop = csv_items (setting params config ''exclude_fields'')\<rparr>)"

definition shape_group :: "var_select \<Rightarrow> group \<Rightarrow> group" where
  "shape_group s g = g\<lparr>g_vars := map_option (select_group_vars s) (g_vars g)\<rparr>"

text \<open>
  The merged host variables after \<open>group\<close> and the filter; \<open>number\<close> and \<open>show_json\<close> are the parameters
  of \<open>filter_matches\<close> (reading a number, writing a JSON value).
\<close>

definition selected_hosts ::
  "(string \<Rightarrow> 'f::linorder option) \<Rightarrow> (json \<Rightarrow> string) \<Rightarrow> datasets \<Rightarrow> string \<Rightarrow> host_filter
     \<Rightarrow> (string, host_vars) fmap" where
  "selected_hosts number show_json ds grp f =
     (let hv = merged_hosts ds;
          hv = (if grp \<noteq> [] then fm_retain (\<lambda>h _. h \<in> in_groups (merged_groups ds) (csv_items grp)) hv else hv)
      in if \<not> hf_is_empty f then fm_retain (\<lambda>h vars. filter_matches number show_json f h vars) hv else hv)"

definition merge_and_filter ::
  "(string \<Rightarrow> 'f::linorder option) \<Rightarrow> (json \<Rightarrow> string) \<Rightarrow> datasets \<Rightarrow> settings \<Rightarrow> json
     \<Rightarrow> (string, host_vars) fmap \<times> (string, group) fmap" where
  "merge_and_filter number show_json ds config params =
     (case request_filter config params of
        Inl _ \<Rightarrow> (fmempty, fmempty)
      | Inr f \<Rightarrow>
          (let s = out_select config params;
               hv = selected_hosts number show_json ds (setting params config ''group'') f;
               gs = merged_groups ds;
               hv = (if is_identity s then hv else fmmap (select_host s) hv);
               gs = (if is_identity s then gs else fmmap (shape_group s) gs)
           in (hv, prune_groups (fmdom' hv) gs)))"

definition counts where
  "counts number show_json ds config =
     (let (hv, gs) = merge_and_filter number show_json ds config (JObj fmempty)
      in (card (fmdom' hv), card (fmdom' gs)))"

definition default_hosts where
  "default_hosts number show_json ds config = fmdom' (fst (merge_and_filter number show_json ds config (JObj fmempty)))"

section \<open>Rendering\<close>

definition json_names :: "string list \<Rightarrow> json" where
  "json_names xs = JArr (map JStr xs)"

definition hostvars_json :: "(string, host_vars) fmap \<Rightarrow> json" where
  "hostvars_json hv = JObj (fmmap JObj hv)"

text \<open>The entry of a group in the inventory: empty lists and variables are left out.\<close>

definition ansible_group :: "group \<Rightarrow> json" where
  "ansible_group g =
     (let e = fmempty;
          e = (if g_hosts g \<noteq> [] then fmupd ''hosts'' (json_names (sort (g_hosts g))) e else e);
          e = (if g_children g \<noteq> [] then fmupd ''children'' (json_names (sort (g_children g))) e else e);
          e = (case g_vars g of
                 Some vars \<Rightarrow> if vars \<noteq> fmempty then fmupd ''vars'' (JObj vars) e else e
               | None \<Rightarrow> e)
      in JObj e)"

definition ansible_inventory :: "(string, host_vars) fmap \<Rightarrow> (string, group) fmap \<Rightarrow> json" where
  "ansible_inventory hv gs =
     JObj (fold (\<lambda>name. fmupd name (ansible_group (the (fmlookup gs name)))) (fm_keys gs)
       (fmupd ''_meta'' (JObj (fmupd ''hostvars'' (hostvars_json hv) fmempty)) fmempty))"

definition render_ansible where
  "render_ansible number show_json ds config params =
     (let (hv, gs) = merge_and_filter number show_json ds config params in ansible_inventory hv gs)"

text \<open>The derived \<open>Serialize\<close> of \<open>Group\<close>: every field, an absent \<open>vars\<close> as null.\<close>

definition group_json :: "group \<Rightarrow> json" where
  "group_json g =
     JObj (fmap_of_list
       [(''hosts'', json_names (g_hosts g)), (''children'', json_names (g_children g)),
        (''vars'', case g_vars g of None \<Rightarrow> JNull | Some v \<Rightarrow> JObj v)])"

definition render_json where
  "render_json number show_json ds config params =
     (let (hv, gs) = merge_and_filter number show_json ds config params
      in JObj (fmap_of_list [(''hostvars'', hostvars_json hv), (''groups'', JObj (fmmap group_json gs))]))"

definition dquote :: char where
  "dquote = CHR 0x22"

definition newline :: char where
  "newline = CHR 0x0A"

definition needs_quotes :: "string \<Rightarrow> bool" where
  "needs_quotes raw \<longleftrightarrow> list_ex (\<lambda>c. c = CHR '','' \<or> c = dquote \<or> c = newline \<or> c = CHR 0x0D) raw"

definition double_quotes :: "string \<Rightarrow> string" where
  "double_quotes raw = concat (map (\<lambda>c. if c = dquote then [dquote, dquote] else [c]) raw)"

definition csv_field :: "string \<Rightarrow> string" where
  "csv_field raw = (if needs_quotes raw then dquote # double_quotes raw @ [dquote] else raw)"

definition csv_value :: "(json \<Rightarrow> string) \<Rightarrow> json option \<Rightarrow> string" where
  "csv_value show_json v =
     (case v of
        None \<Rightarrow> []
      | Some JNull \<Rightarrow> []
      | Some (JStr s) \<Rightarrow> s
      | Some other \<Rightarrow> show_json other)"

definition csv_columns :: "string list \<Rightarrow> (string, host_vars) fmap \<Rightarrow> string list" where
  "csv_columns columns hv =
     (if columns = [] then sorted_list_of_set (\<Union>vars \<in> fmran' hv. fmdom' vars) else columns)"

definition csv_row :: "string list \<Rightarrow> string" where
  "csv_row cells =
     (case cells of
        [] \<Rightarrow> [newline]
      | c # cs \<Rightarrow> csv_field c @ concat (map (\<lambda>x. CHR '','' # csv_field x) cs) @ [newline])"

definition csv_cells :: "(json \<Rightarrow> string) \<Rightarrow> string list \<Rightarrow> (string, host_vars) fmap \<Rightarrow> string list list" where
  "csv_cells show_json columns hv =
     (''host'' # columns)
     # map (\<lambda>h. h # map (\<lambda>c. csv_value show_json (lookup (the (fmlookup hv h)) c)) columns) (fm_keys hv)"

definition render_csv where
  "render_csv number show_json ds config params =
     (let columns = csv_items (setting params config ''fields'');
          (hv, _) = merge_and_filter number show_json ds config params
      in concat (map csv_row (csv_cells show_json (csv_columns columns hv) hv)))"

section \<open>What the merge holds\<close>

lemma add_new_set [simp]: "set (add_new acc xs) = set acc \<union> set xs"
  unfolding add_new_def by (induction xs arbitrary: acc) auto

lemma add_new_distinct: "distinct acc \<Longrightarrow> distinct (add_new acc xs)"
  unfolding add_new_def by (induction xs arbitrary: acc) auto

lemma merge_out_hosts_lookup:
  "fmlookup (merge_out_hosts d hv) h =
     (case fmlookup (hostvars d) h of
        None \<Rightarrow> fmlookup hv h
      | Some vars \<Rightarrow> Some ((case fmlookup hv h of None \<Rightarrow> fmempty | Some old \<Rightarrow> old) ++\<^sub>f vars))"
  by (simp add: merge_out_hosts_def fm_fold_or_default [where f = "\<lambda>vars old. old ++\<^sub>f vars"] split: option.split)

lemma merge_out_groups_lookup:
  "fmlookup (merge_out_groups d gs) n =
     (case fmlookup (groups d) n of
        None \<Rightarrow> fmlookup gs n
      | Some g \<Rightarrow> Some (merge_out_group g (case fmlookup gs n of None \<Rightarrow> group_default | Some t \<Rightarrow> t)))"
  by (simp add: merge_out_groups_def fm_fold_or_default split: option.split)

text \<open>What a source says of a host's variable, of a group, and of a group's variable.\<close>

definition says_var :: "datasets \<Rightarrow> string \<Rightarrow> string \<Rightarrow> string \<Rightarrow> json option" where
  "says_var ds h k sid =
     Option.bind (fmlookup ds sid) (\<lambda>d. Option.bind (fmlookup (hostvars d) h) (\<lambda>vars. fmlookup vars k))"

definition says_group :: "datasets \<Rightarrow> string \<Rightarrow> string \<Rightarrow> group option" where
  "says_group ds n sid = Option.bind (fmlookup ds sid) (\<lambda>d. fmlookup (groups d) n)"

definition says_group_var :: "datasets \<Rightarrow> string \<Rightarrow> string \<Rightarrow> string \<Rightarrow> json option" where
  "says_group_var ds n k sid =
     Option.bind (says_group ds n sid) (\<lambda>g. Option.bind (g_vars g) (\<lambda>vars. fmlookup vars k))"

text \<open>What the last source in a list says, if any says anything.\<close>

definition last_said :: "(string \<Rightarrow> 'a option) \<Rightarrow> string list \<Rightarrow> 'a option" where
  "last_said f ids = Option.bind (List.find (\<lambda>id. f id \<noteq> None) (rev ids)) f"

lemma last_said_simps [simp]:
  "last_said f [] = None"
  "last_said f (ids @ [i]) = (case f i of Some v \<Rightarrow> Some v | None \<Rightarrow> last_said f ids)"
  by (simp_all add: last_said_def split: option.split)

lemma last_said_cong: "(\<And>i. i \<in> set ids \<Longrightarrow> f i = g i) \<Longrightarrow> last_said f ids = last_said g ids"
  by (induction ids rule: rev_induct) (auto split: option.split)

lemma last_said_None: "(\<And>i. i \<in> set ids \<Longrightarrow> f i = None) \<Longrightarrow> last_said f ids = None"
  by (induction ids rule: rev_induct) auto

lemma last_said_sorted:
  "sorted ids \<Longrightarrow> distinct ids \<Longrightarrow> (\<And>id. f id \<noteq> None \<Longrightarrow> id \<in> set ids) \<Longrightarrow>
     last_said f ids = Some v \<longleftrightarrow> (\<exists>id. f id = Some v \<and> (\<forall>id'. id < id' \<longrightarrow> f id' = None))"
proof (induction ids arbitrary: f rule: rev_induct)
  case Nil
  then have "\<And>id. f id = None" by fastforce
  then show ?case by simp
next
  case (snoc x ids)
  have lt: "\<forall>i \<in> set ids. i < x" using snoc.prems by (auto simp: sorted_append order_less_le)
  have upto: "i \<le> x" if "f i \<noteq> None" for i using snoc.prems(3) [OF that] lt by auto
  show ?case
  proof (cases "f x")
    case None
    have "id \<in> set ids" if "f id \<noteq> None" for id using snoc.prems(3) [OF that] that None by auto
    with None snoc.IH [of f] snoc.prems show ?thesis by (simp add: sorted_append)
  next
    case (Some w)
    have max: "f i = None" if "x < i" for i using upto [of i] that by (metis not_le)
    show ?thesis
    proof
      assume "last_said f (ids @ [x]) = Some v"
      with Some max show "\<exists>i. f i = Some v \<and> (\<forall>i'. i < i' \<longrightarrow> f i' = None)" by auto
    next
      assume "\<exists>i. f i = Some v \<and> (\<forall>i'. i < i' \<longrightarrow> f i' = None)"
      then obtain i where i: "f i = Some v" "\<forall>i'. i < i' \<longrightarrow> f i' = None" by blast
      with upto [of i] Some have "i = x" by (auto simp: order_le_less)
      with i Some show "last_said f (ids @ [x]) = Some v" by simp
    qed
  qed
qed

lemma merged_hosts_fold:
  "Option.bind (fmlookup (fold (\<lambda>id. merge_out_hosts (the (fmlookup ds id))) ids fmempty) h) (\<lambda>vars. fmlookup vars k)
     = last_said (says_var ds h k) ids
   \<and> (fmlookup (fold (\<lambda>id. merge_out_hosts (the (fmlookup ds id))) ids fmempty) h = None
       \<longleftrightarrow> (\<forall>id \<in> set ids. fmlookup (hostvars (the (fmlookup ds id))) h = None))"
  if "set ids \<subseteq> fmdom' ds"
  using that
proof (induction ids rule: rev_induct)
  case (snoc i ids)
  then obtain d where "fmlookup ds i = Some d" by (auto simp: fmlookup_dom'_iff)
  with snoc show ?case
    by (auto simp: merge_out_hosts_lookup says_var_def split: option.splits)
qed simp

lemma merged_groups_fold:
  fixes ds ids defines "gs \<equiv> fold (\<lambda>id. merge_out_groups (the (fmlookup ds id))) ids fmempty"
  assumes "set ids \<subseteq> fmdom' ds"
  shows "(fmlookup gs n = None \<longleftrightarrow> (\<forall>id \<in> set ids. says_group ds n id = None))
    \<and> (\<forall>g. fmlookup gs n = Some g \<longrightarrow>
         set (g_hosts g) = {h. \<exists>id \<in> set ids. \<exists>g'. says_group ds n id = Some g' \<and> h \<in> set (g_hosts g')}
         \<and> set (g_children g) = {c. \<exists>id \<in> set ids. \<exists>g'. says_group ds n id = Some g' \<and> c \<in> set (g_children g')}
         \<and> distinct (g_hosts g) \<and> distinct (g_children g)
         \<and> Option.bind (g_vars g) (\<lambda>vars. fmlookup vars k) = last_said (says_group_var ds n k) ids)"
  using assms(2) unfolding gs_def
proof (induction ids rule: rev_induct)
  case (snoc i ids)
  then obtain d where d: "fmlookup ds i = Some d" by (auto simp: fmlookup_dom'_iff)
  show ?case
  proof (cases "fmlookup (groups d) n")
    case None
    with snoc d show ?thesis
      by (simp add: merge_out_groups_lookup says_group_def says_group_var_def)
  next
    case (Some g)
    have quiet: "\<forall>id \<in> set ids. says_group ds n id = None \<Longrightarrow> last_said (says_group_var ds n k) ids = None"
      by (rule last_said_None) (simp add: says_group_var_def)
    have here: "says_group ds n i = Some g" "says_group_var ds n k i = Option.bind (g_vars g) (\<lambda>vars. fmlookup vars k)"
      using d Some by (simp_all add: says_group_def says_group_var_def)
    from snoc d Some here quiet show ?thesis
      by (cases "fmlookup (fold (\<lambda>id. merge_out_groups (the (fmlookup ds id))) ids fmempty) n")
        (auto simp: merge_out_groups_lookup merge_out_group_def group_default_def add_new_distinct split: option.splits)
  qed
qed simp

lemma merged_hosts_dom:
  "fmlookup (merged_hosts ds) h \<noteq> None \<longleftrightarrow> (\<exists>sid d. fmlookup ds sid = Some d \<and> fmlookup (hostvars d) h \<noteq> None)"
proof -
  have "fmlookup (merged_hosts ds) h \<noteq> None
      \<longleftrightarrow> (\<exists>sid \<in> set (fm_keys ds). fmlookup (hostvars (the (fmlookup ds sid))) h \<noteq> None)"
    using merged_hosts_fold [of "fm_keys ds" ds h undefined] by (simp add: merged_hosts_def)
  also have "\<dots> \<longleftrightarrow> (\<exists>sid d. fmlookup ds sid = Some d \<and> fmlookup (hostvars d) h \<noteq> None)"
    by (simp only: fm_keys_set fmlookup_dom'_iff Bex_def) (metis option.sel)
  finally show ?thesis .
qed

lemma merged_groups_lookup:
  "case fmlookup (merged_groups ds) n of
     None \<Rightarrow> \<forall>sid. says_group ds n sid = None
   | Some g \<Rightarrow>
       set (g_hosts g) = {h. \<exists>sid g'. says_group ds n sid = Some g' \<and> h \<in> set (g_hosts g')}
       \<and> set (g_children g) = {c. \<exists>sid g'. says_group ds n sid = Some g' \<and> c \<in> set (g_children g')}
       \<and> distinct (g_hosts g) \<and> distinct (g_children g)
       \<and> Option.bind (g_vars g) (\<lambda>vars. fmlookup vars k) = last_said (says_group_var ds n k) (fm_keys ds)"
proof -
  have keys: "sid \<in> set (fm_keys ds)" if "says_group ds n sid = Some g" for sid g
    using that by (auto simp: says_group_def fmlookup_dom'_iff split: bind_splits)
  have ex: "(\<exists>sid \<in> set (fm_keys ds). \<exists>g. says_group ds n sid = Some g \<and> P g) \<longleftrightarrow> (\<exists>sid g. says_group ds n sid = Some g \<and> P g)" for P
    using keys by blast
  have none: "(\<forall>sid \<in> set (fm_keys ds). says_group ds n sid = None) \<longleftrightarrow> (\<forall>sid. says_group ds n sid = None)"
    using keys by (metis option.exhaust)
  have "set (fm_keys ds) \<subseteq> fmdom' ds" by simp
  from merged_groups_fold [OF this, of n k, folded merged_groups_def] show ?thesis
    unfolding ex none by (cases "fmlookup (merged_groups ds) n") auto
qed

lemma last_says:
  "last_said (says_var ds h k) (fm_keys ds) = Some v
     \<longleftrightarrow> (\<exists>sid. says_var ds h k sid = Some v \<and> (\<forall>sid'. sid < sid' \<longrightarrow> says_var ds h k sid' = None))"
  "last_said (says_group_var ds n k) (fm_keys ds) = Some v
     \<longleftrightarrow> (\<exists>sid. says_group_var ds n k sid = Some v \<and> (\<forall>sid'. sid < sid' \<longrightarrow> says_group_var ds n k sid' = None))"
  by (rule last_said_sorted;
      auto simp: says_var_def says_group_var_def says_group_def fmlookup_dom'_iff split: bind_splits)+

text \<open>
  C20. The merge of an endpoint's sources: a host is there exactly when some source has it, and
  each of its variables is the one of the source that comes last by name among those that give
  it; a group is there exactly when some source has it, with the members and children of all of
  them, once each, and each group variable again from the last source that gives it.
\<close>

theorem merge_later_source_wins:
  "(fmlookup (merged_hosts ds) h \<noteq> None \<longleftrightarrow> (\<exists>sid d. fmlookup ds sid = Some d \<and> fmlookup (hostvars d) h \<noteq> None))
   \<and> (Option.bind (fmlookup (merged_hosts ds) h) (\<lambda>vars. fmlookup vars k) = Some v
       \<longleftrightarrow> (\<exists>sid. says_var ds h k sid = Some v \<and> (\<forall>sid'. sid < sid' \<longrightarrow> says_var ds h k sid' = None)))
   \<and> (case fmlookup (merged_groups ds) n of
        None \<Rightarrow> \<forall>sid. says_group ds n sid = None
      | Some g \<Rightarrow>
          set (g_hosts g) = {h. \<exists>sid g'. says_group ds n sid = Some g' \<and> h \<in> set (g_hosts g')}
          \<and> set (g_children g) = {c. \<exists>sid g'. says_group ds n sid = Some g' \<and> c \<in> set (g_children g')}
          \<and> distinct (g_hosts g) \<and> distinct (g_children g)
          \<and> (Option.bind (g_vars g) (\<lambda>vars. fmlookup vars k) = Some v
              \<longleftrightarrow> (\<exists>sid. says_group_var ds n k sid = Some v
                     \<and> (\<forall>sid'. sid < sid' \<longrightarrow> says_group_var ds n k sid' = None))))"
proof -
  have keys: "set (fm_keys ds) \<subseteq> fmdom' ds" by simp
  have "(fmlookup (merged_hosts ds) h \<noteq> None \<longleftrightarrow> (\<exists>sid d. fmlookup ds sid = Some d \<and> fmlookup (hostvars d) h \<noteq> None))"
    by (rule merged_hosts_dom)
  moreover have "Option.bind (fmlookup (merged_hosts ds) h) (\<lambda>vars. fmlookup vars k) = last_said (says_var ds h k) (fm_keys ds)"
    using merged_hosts_fold [OF keys, of h k] unfolding merged_hosts_def by blast
  ultimately show ?thesis
    using merged_groups_lookup [of ds n k] unfolding last_says [symmetric]
    by (cases "fmlookup (merged_groups ds) n") (simp_all only: option.case simp_thms)
qed

definition sample_datasets :: datasets where
  "sample_datasets = fmap_of_list
     [(''a'', \<lparr>hostvars = fmap_of_list [(''web1'', fmap_of_list [(''os'', JStr ''old''), (''dc'', JStr ''x'')])],
               groups = fmap_of_list [(''web'', \<lparr>g_hosts = [''web1''], g_children = [], g_vars = None\<rparr>)],
               remove_hosts = []\<rparr>),
      (''b'', \<lparr>hostvars = fmap_of_list [(''web1'', fmap_of_list [(''os'', JStr ''new'')]), (''db1'', fmempty)],
               groups = fmempty, remove_hosts = []\<rparr>)]"

theorem merge_later_source_wins_witness:
  "Option.bind (fmlookup (merged_hosts sample_datasets) ''web1'') (\<lambda>vars. fmlookup vars ''os'') = Some (JStr ''new'')"
proof -
  have "says_var sample_datasets ''web1'' ''os'' ''b'' = Some (JStr ''new'')"
    by (simp add: says_var_def sample_datasets_def fmlookup_of_list)
  moreover have "says_var sample_datasets ''web1'' ''os'' sid' = None" if "''b'' < sid'" for sid'
  proof -
    have "\<not> ''b'' < (''a'' :: string)" by code_simp
    with that have "''a'' \<noteq> sid' \<and> ''b'' \<noteq> sid'" by (metis less_irrefl)
    then show ?thesis by (simp add: says_var_def sample_datasets_def fmlookup_of_list)
  qed
  ultimately show ?thesis using merge_later_source_wins by blast
qed

section \<open>Which hosts are selected\<close>

lemma selected_hosts_lookup:
  "fmlookup (selected_hosts number show_json ds grp f) h =
     (case fmlookup (merged_hosts ds) h of
        None \<Rightarrow> None
      | Some vars \<Rightarrow>
          if (grp = [] \<or> h \<in> in_groups (merged_groups ds) (csv_items grp)) \<and> filter_matches number show_json f h vars
          then Some vars else None)"
proof -
  have any: "filter_matches number show_json f h vars" if "hf_is_empty f" for vars
    using that by (simp add: hf_is_empty_def filter_matches_def)
  show ?thesis
    by (cases "hf_is_empty f"; cases "grp = []") (auto simp: selected_hosts_def any split: option.split)
qed

lemma in_groups_iff:
  "h \<in> in_groups gs names \<longleftrightarrow> (\<exists>n g. n \<in> set names \<and> fmlookup gs n = Some g \<and> h \<in> set (g_hosts g))"
  by (force simp: in_groups_def split: option.splits)

lemma selection_exact':
  "case request_filter config params of
     Inl _ \<Rightarrow> merge_and_filter number show_json ds config params = (fmempty, fmempty)
   | Inr f \<Rightarrow>
       fmlookup (fst (merge_and_filter number show_json ds config params)) h =
         (case fmlookup (merged_hosts ds) h of
            None \<Rightarrow> None
          | Some vars \<Rightarrow>
              if (setting params config ''group'' = []
                    \<or> (\<exists>n g. n \<in> set (csv_items (setting params config ''group'')) \<and> fmlookup (merged_groups ds) n = Some g
                          \<and> h \<in> set (g_hosts g)))
                 \<and> filter_matches number show_json f h vars
              then Some (select_host (out_select config params) vars) else None)"
proof -
  have ident: "select_host s vars = vars" if "is_identity s" for s vars
    using that by (simp add: is_identity_def select_host_def drop_paths_def)
  show ?thesis
    unfolding in_groups_iff [symmetric]
    by (cases "request_filter config params"; cases "is_identity (out_select config params)")
      (simp_all add: merge_and_filter_def Let_def selected_hosts_lookup ident split: option.split)
qed

text \<open>
  A render whose filter parses returns exactly the merged hosts that are in one of the groups
  asked for (any host, where none is) and that the filter matches, each with its merged
  variables shaped by \<open>fields\<close> and \<open>exclude_fields\<close>; one whose filter does not parse returns
  nothing at all.
\<close>

theorem selection_exact:
  "case request_filter config params of
     Inl _ \<Rightarrow> merge_and_filter number show_json ds config params = (fmempty, fmempty)
   | Inr f \<Rightarrow>
       fmlookup (fst (merge_and_filter number show_json ds config params)) h =
         (case fmlookup (merged_hosts ds) h of
            None \<Rightarrow> None
          | Some vars \<Rightarrow>
              if (setting params config ''group'' = []
                    \<or> (\<exists>n g. n \<in> set (csv_items (setting params config ''group'')) \<and> fmlookup (merged_groups ds) n = Some g
                          \<and> h \<in> set (g_hosts g)))
                 \<and> filter_matches number show_json f h vars
              then Some (select_host (out_select config params) vars) else None)"
  by (rule selection_exact')

text \<open>What a group of the output is.\<close>

lemma pruned_group:
  "fmlookup (prune_groups survivors gs) n = Some g \<longleftrightarrow>
     (\<exists>g0. fmlookup gs n = Some g0 \<and> keep_group survivors g0
        \<and> g = g0\<lparr>g_hosts := filter (\<lambda>h. h \<in> survivors) (g_hosts g0)\<rparr>)"
  by (auto simp: prune_groups_def split: option.splits if_splits)

lemma merge_and_filter_cases:
  obtains "merge_and_filter number show_json ds config params = (fmempty, fmempty)"
  | gs where "snd (merge_and_filter number show_json ds config params)
      = prune_groups (fmdom' (fst (merge_and_filter number show_json ds config params))) gs"
    "gs = (if is_identity (out_select config params) then merged_groups ds
           else fmmap (shape_group (out_select config params)) (merged_groups ds))"
  by (cases "request_filter config params") (auto simp: merge_and_filter_def Let_def)

lemma output_group:
  assumes "fmlookup (snd (merge_and_filter number show_json ds config params)) n = Some g"
  obtains g0 where "fmlookup (merged_groups ds) n = Some g0"
    "g_hosts g = filter (\<lambda>h. h \<in> fmdom' (fst (merge_and_filter number show_json ds config params))) (g_hosts g0)"
    "g_children g = g_children g0"
    "g_vars g = map_option (select_group_vars (out_select config params)) (g_vars g0)"
    "g_hosts g \<noteq> [] \<or> g_children g \<noteq> [] \<or> (g_hosts g0 = [] \<and> g_vars g \<noteq> None \<and> g_vars g \<noteq> Some fmempty)"
proof -
  have ident: "map_option (select_group_vars s) v = v" if "is_identity s" for s v
    using that by (cases v) (simp_all add: is_identity_def select_group_vars_def drop_paths_def)
  show ?thesis
  proof (rule merge_and_filter_cases [of number show_json ds config params])
    assume "merge_and_filter number show_json ds config params = (fmempty, fmempty)"
    with assms show ?thesis by simp
  next
    fix gs
    assume p: "snd (merge_and_filter number show_json ds config params)
        = prune_groups (fmdom' (fst (merge_and_filter number show_json ds config params))) gs"
      and gs: "gs = (if is_identity (out_select config params) then merged_groups ds
           else fmmap (shape_group (out_select config params)) (merged_groups ds))"
    from assms p obtain g1 where g1: "fmlookup gs n = Some g1"
      "keep_group (fmdom' (fst (merge_and_filter number show_json ds config params))) g1"
      "g = g1\<lparr>g_hosts := filter (\<lambda>h. h \<in> fmdom' (fst (merge_and_filter number show_json ds config params))) (g_hosts g1)\<rparr>"
      by (auto simp: pruned_group)
    from g1(1) gs obtain g0 where g0: "fmlookup (merged_groups ds) n = Some g0" "g_hosts g1 = g_hosts g0"
      "g_children g1 = g_children g0" "g_vars g1 = map_option (select_group_vars (out_select config params)) (g_vars g0)"
      by (auto simp: shape_group_def ident split: if_splits)
    show ?thesis
      using g0 g1(2,3) by (intro that [of g0]) (auto simp: keep_group_def split: if_splits option.splits)
  qed
qed

text \<open>
  C19. Nothing an endpoint excludes leaves it, and no group stands for a host that did not: no
  host and no group of a render has a variable of an excluded name; every host a group lists is
  a host of the render; and a group that lists none has children, or variables and never had a host.
\<close>

theorem output_consistent:
  assumes "merge_and_filter number show_json ds config params = (hv, gs)"
  shows "(\<forall>p \<in> set (csv_items (setting params config ''exclude_fields'')).
        (\<forall>h vars. fmlookup hv h = Some vars \<longrightarrow> fmlookup vars p = None)
        \<and> (\<forall>n g vars. fmlookup gs n = Some g \<and> g_vars g = Some vars \<longrightarrow> fmlookup vars p = None))
    \<and> (\<forall>n g h. fmlookup gs n = Some g \<and> h \<in> set (g_hosts g) \<longrightarrow> h \<in> fmdom' hv)
    \<and> (\<forall>n g. fmlookup gs n = Some g \<and> g_hosts g = [] \<and> g_children g = [] \<longrightarrow>
        (\<exists>vars. g_vars g = Some vars \<and> vars \<noteq> fmempty)
        \<and> (\<exists>g0. fmlookup (merged_groups ds) n = Some g0 \<and> g_hosts g0 = []))"
proof (intro conjI ballI allI impI)
  fix p h vars
  assume p: "p \<in> set (csv_items (setting params config ''exclude_fields''))" and "fmlookup hv h = Some vars"
  with assms selection_exact' [of number show_json ds config params h] obtain v where "vars = select_host (out_select config params) v"
    by (auto split: sum.splits option.splits if_splits)
  with p show "fmlookup vars p = None"
    by (simp add: select_host_def out_select_def Let_def drop_paths_gone)
next
  fix p n g vars
  assume p: "p \<in> set (csv_items (setting params config ''exclude_fields''))"
    and g: "fmlookup gs n = Some g \<and> g_vars g = Some vars"
  from g assms have "fmlookup (snd (merge_and_filter number show_json ds config params)) n = Some g" by simp
  then obtain g0 :: group where "g_vars g = map_option (select_group_vars (out_select config params)) (g_vars g0)"
    by (rule output_group)
  with g obtain v where "vars = select_group_vars (out_select config params) v" by auto
  with p show "fmlookup vars p = None"
    by (simp add: select_group_vars_def out_select_def Let_def drop_paths_gone)
next
  fix n g h assume g: "fmlookup gs n = Some g \<and> h \<in> set (g_hosts g)"
  with assms have "fmlookup (snd (merge_and_filter number show_json ds config params)) n = Some g" by simp
  then obtain g0 :: group where "g_hosts g = filter (\<lambda>h. h \<in> fmdom' (fst (merge_and_filter number show_json ds config params))) (g_hosts g0)"
    by (rule output_group)
  with assms g show "h \<in> fmdom' hv" by simp
next
  fix n g assume g: "fmlookup gs n = Some g \<and> g_hosts g = [] \<and> g_children g = []"
  with assms have "fmlookup (snd (merge_and_filter number show_json ds config params)) n = Some g" by simp
  then obtain g0 where "fmlookup (merged_groups ds) n = Some g0"
    "g_hosts g \<noteq> [] \<or> g_children g \<noteq> [] \<or> (g_hosts g0 = [] \<and> g_vars g \<noteq> None \<and> g_vars g \<noteq> Some fmempty)"
    by (rule output_group)
  with g show "\<exists>vars. g_vars g = Some vars \<and> vars \<noteq> fmempty"
    and "\<exists>g0. fmlookup (merged_groups ds) n = Some g0 \<and> g_hosts g0 = []" by auto
qed

theorem output_consistent_witness:
  "let (hv, gs) = merge_and_filter (\<lambda>_. None :: nat option) (\<lambda>_. []) sample_datasets
       (fmap_of_list [(''exclude_fields'', ''os'')]) (JObj fmempty)
   in \<forall>h vars. fmlookup hv h = Some vars \<longrightarrow> fmlookup vars ''os'' = None"
proof -
  let ?c = "fmap_of_list [(''exclude_fields'', ''os'')]"
  obtain hv gs where m: "merge_and_filter (\<lambda>_. None :: nat option) (\<lambda>_. []) sample_datasets ?c (JObj fmempty) = (hv, gs)"
    by fastforce
  have "csv_items (setting (JObj fmempty) ?c ''exclude_fields'') = [''os'']" by code_simp
  with output_consistent [OF m] m show ?thesis by simp
qed

section \<open>The limit\<close>

lemma fm_keys_fmmap [simp]: "fm_keys (fmmap f m) = fm_keys m"
  by (simp add: fm_keys_def)

lemma limit_merged_hosts:
  "fmlookup (merged_hosts (fmmap (limit_dataset A) ds)) h = (if h \<in> A then fmlookup (merged_hosts ds) h else None)"
proof -
  have "fmlookup (fold (\<lambda>sid. merge_out_hosts (the (fmlookup (fmmap (limit_dataset A) ds) sid))) ids fmempty) h
      = (if h \<in> A then fmlookup (fold (\<lambda>sid. merge_out_hosts (the (fmlookup ds sid))) ids fmempty) h else None)"
    if "set ids \<subseteq> fmdom' ds" for ids
    using that
  proof (induction ids rule: rev_induct)
    case (snoc i ids)
    then obtain d where "fmlookup ds i = Some d" by (auto simp: fmlookup_dom'_iff)
    with snoc show ?case
      by (auto simp: merge_out_hosts_lookup limit_dataset_def split: option.splits)
  qed simp
  from this [of "fm_keys ds"] show ?thesis by (simp add: merged_hosts_def)
qed

lemma in_merged_groups:
  "h \<in> in_groups (merged_groups ds) names
     \<longleftrightarrow> (\<exists>n sid g. n \<in> set names \<and> says_group ds n sid = Some g \<and> h \<in> set (g_hosts g))"
proof -
  have "(\<exists>g. fmlookup (merged_groups ds) n = Some g \<and> h \<in> set (g_hosts g))
      \<longleftrightarrow> (\<exists>sid g. says_group ds n sid = Some g \<and> h \<in> set (g_hosts g))" for n
    using merged_groups_lookup [of ds n undefined] by (cases "fmlookup (merged_groups ds) n") auto
  then show ?thesis unfolding in_groups_iff by blast
qed

lemma limit_in_groups:
  "h \<in> in_groups (merged_groups (fmmap (limit_dataset A) ds)) names \<longleftrightarrow> h \<in> A \<and> h \<in> in_groups (merged_groups ds) names"
proof -
  have "says_group (fmmap (limit_dataset A) ds) n sid
      = map_option (\<lambda>g. g\<lparr>g_hosts := filter (\<lambda>h. h \<in> A) (g_hosts g)\<rparr>) (says_group ds n sid)" for n sid
    by (cases "fmlookup ds sid") (simp_all add: says_group_def limit_dataset_def)
  then show ?thesis unfolding in_merged_groups by force
qed

text \<open>
  C8. A limit is a scope no request can widen: whatever the endpoint's settings and the request's
  parameters, the hosts of a limited render are exactly the hosts of the unlimited one that the
  limiting source lists, with the same variables, and its groups name no other host; and
  when that source is not there, there are none.
\<close>

theorem limit_is_scope:
  defines "lds \<equiv> \<lambda>ds sid. apply_limit ds \<lparr>by_hosts_from_inventory = Some sid\<rparr>"
  shows "fmlookup (fst (merge_and_filter number show_json (lds ds sid) config params)) h =
      (if h \<in> limit_hosts ds sid then fmlookup (fst (merge_and_filter number show_json ds config params)) h else None)
    \<and> (case fmlookup (snd (merge_and_filter number show_json (lds ds sid) config params)) n of
         None \<Rightarrow> True | Some g \<Rightarrow> set (g_hosts g) \<subseteq> limit_hosts ds sid)
    \<and> (fmlookup ds sid = None \<longrightarrow> fst (merge_and_filter number show_json (lds ds sid) config params) = fmempty)"
proof -
  have l: "lds ds sid = fmmap (limit_dataset (limit_hosts ds sid)) ds"
    by (simp add: lds_def apply_limit_def)
  have hosts: "fmlookup (fst (merge_and_filter number show_json (lds ds sid) config params)) h =
      (if h \<in> limit_hosts ds sid then fmlookup (fst (merge_and_filter number show_json ds config params)) h else None)" for h
    using selection_exact' [of number show_json "lds ds sid" config params h]
      selection_exact' [of number show_json ds config params h]
    unfolding in_groups_iff [symmetric] l
    by (cases "request_filter config params") (auto simp: limit_merged_hosts limit_in_groups split: option.split)
  have "set (g_hosts g) \<subseteq> limit_hosts ds sid"
    if g: "fmlookup (snd (merge_and_filter number show_json (lds ds sid) config params)) n = Some g" for g
  proof -
    from g obtain g0 :: group where "g_hosts g = filter (\<lambda>h. h \<in> fmdom' (fst (merge_and_filter number show_json (lds ds sid) config params))) (g_hosts g0)"
      by (rule output_group)
    with hosts show ?thesis by (auto simp: fmlookup_dom'_iff split: if_splits)
  qed
  moreover have "fst (merge_and_filter number show_json (lds ds sid) config params) = fmempty" if "fmlookup ds sid = None"
    by (rule fmap_ext) (simp add: hosts limit_hosts_def that)
  ultimately show ?thesis using hosts by (simp split: option.split)
qed

theorem limit_is_scope_witness:
  "fmlookup (fst (merge_and_filter (\<lambda>_. None :: nat option) (\<lambda>_. [])
      (apply_limit sample_datasets \<lparr>by_hosts_from_inventory = Some ''gone''\<rparr>) fmempty (JObj fmempty))) ''web1'' = None"
  using limit_is_scope [of "\<lambda>_. None :: nat option" "\<lambda>_. []" sample_datasets "''gone''" fmempty "JObj fmempty" "''web1''"]
  by (simp add: limit_hosts_def sample_datasets_def fmlookup_of_list)

section \<open>Parameters\<close>

text \<open>
  A request is accepted exactly when it uses no setting from before the renaming, every
  builtin setting it sends is a string (or, for \<open>filter\<close>, a list), and its filter parses; so a
  request that is accepted never gets the empty answer of a filter that does not parse.
\<close>

theorem check_params_exact:
  "check_params config params = Inr () \<longleftrightarrow>
     (\<forall>obj key value. params = JObj obj \<and> fmlookup obj key = Some value \<longrightarrow>
        renamed_setting key = None
        \<and> (key \<in> set BUILTIN_SETTINGS \<longrightarrow> as_str value \<noteq> None \<or> (key = ''filter'' \<and> (\<exists>items. value = JArr items))))
     \<and> (\<exists>f. request_filter config params = Inr f)"
proof -
  have p: "check_param obj key = None \<longleftrightarrow> renamed_setting key = None
        \<and> (key \<in> set BUILTIN_SETTINGS \<longrightarrow> as_str v \<noteq> None \<or> (key = ''filter'' \<and> (\<exists>items. v = JArr items)))"
    if "fmlookup obj key = Some v" for obj key v
    using that by (auto simp: check_param_def Let_def split: option.splits json.splits)
  have m: "List.map_filter f xs = [] \<longleftrightarrow> (\<forall>x \<in> set xs. f x = None)" for f :: "string \<Rightarrow> param_error option" and xs
    by (induction xs) (auto simp: List.map_filter_simps split: option.splits)
  have r: "map_sum (\<lambda>e. e) (\<lambda>_. ()) x = Inr () \<longleftrightarrow> (\<exists>f. x = Inr f)" for x :: "param_error + host_filter"
    by (cases x) auto
  show ?thesis
  proof (cases "as_object params")
    case None
    then show ?thesis by (simp add: check_params_def r) (metis as_object.simps(1) option.distinct(1))
  next
    case (Some obj)
    then have obj: "params = JObj obj" by simp
    have "check_params config params = Inr () \<longleftrightarrow>
        List.map_filter (check_param obj) (fm_keys obj) = [] \<and> (\<exists>f. request_filter config params = Inr f)"
      by (simp add: check_params_def obj r split: list.split)
    also have "List.map_filter (check_param obj) (fm_keys obj) = []
        \<longleftrightarrow> (\<forall>key value. fmlookup obj key = Some value \<longrightarrow> check_param obj key = None)"
      by (auto simp: m fmlookup_dom'_iff)
    finally show ?thesis by (auto simp: obj p)
  qed
qed

theorem check_params_exact_witness:
  "check_params fmempty (JObj (fmap_of_list [(''columns'', JStr ''os'')])) \<noteq> Inr ()"
proof
  assume "check_params fmempty (JObj (fmap_of_list [(''columns'', JStr ''os'')])) = Inr ()"
  then have "renamed_setting ''columns'' = None"
    unfolding check_params_exact by (simp add: fmlookup_of_list)
  then show False by (simp add: renamed_setting_def)
qed

section \<open>The Ansible inventory reads back\<close>

definition normal_group :: "group \<Rightarrow> group" where
  "normal_group g =
     \<lparr>g_hosts = sort (g_hosts g), g_children = sort (g_children g),
      g_vars = (case g_vars g of Some vars \<Rightarrow> if vars = fmempty then None else Some vars | None \<Rightarrow> None)\<rparr>"

definition group_keys :: "group \<Rightarrow> (string, json) fmap" where
  "group_keys g =
     (case ansible_group g of JObj m \<Rightarrow> m | _ \<Rightarrow> fmempty)"

lemma ansible_group_keys: "ansible_group g = JObj (group_keys g)"
  by (simp add: group_keys_def ansible_group_def Let_def)

lemma names_read_back: "names_of_json (Some (json_names xs)) = Some xs"
  by (simp add: names_of_json_def json_names_def list_all_iff comp_def)

lemma group_keys_lookup:
  "fmlookup (group_keys g) ''hosts'' = (if g_hosts g = [] then None else Some (json_names (sort (g_hosts g))))"
  "fmlookup (group_keys g) ''children'' = (if g_children g = [] then None else Some (json_names (sort (g_children g))))"
  "fmlookup (group_keys g) ''vars'' = map_option JObj (g_vars (normal_group g))"
  "\<not> known_key k \<Longrightarrow> fmlookup (group_keys g) k = None"
  by (auto simp: group_keys_def ansible_group_def Let_def normal_group_def known_key_def split: option.splits)

lemma parse_ansible_group: "parse_group n (ansible_group g) = Inr (normal_group g, [])"
proof -
  have known: "known_key k" if "k \<in> fmdom' (group_keys g)" for k
    using that group_keys_lookup(4) [of k g] unfolding fmlookup_dom'_iff by fastforce
  have "names_of_json (fmlookup (group_keys g) ''hosts'') = Some (sort (g_hosts g))"
    "names_of_json (fmlookup (group_keys g) ''children'') = Some (sort (g_children g))"
    by (simp_all add: group_keys_lookup names_read_back) (simp_all add: names_of_json_def)
  moreover have "vars_of_json (fmlookup (group_keys g) ''vars'') = Some (g_vars (normal_group g))"
    by (cases "g_vars (normal_group g)") (simp_all add: group_keys_lookup vars_of_json_def)
  ultimately have g: "group_of_object (group_keys g) = Some (normal_group g)"
    by (simp add: group_of_object_def) (simp add: normal_group_def)
  have "list_ex known_key (fm_keys (group_keys g))" if "group_keys g \<noteq> fmempty"
  proof -
    from that obtain k v where "fmlookup (group_keys g) k = Some v"
      by (metis fmap_ext fmempty_lookup not_Some_eq)
    then have "k \<in> fmdom' (group_keys g)" by (simp add: fmlookup_dom'_iff)
    with known show ?thesis by (auto simp: list_ex_iff)
  qed
  moreover have "filter (\<lambda>k. \<not> known_key k) (fm_keys (group_keys g)) = []"
    using known by (simp add: filter_empty_conv)
  ultimately show ?thesis by (auto simp: ansible_group_keys parse_group_def Let_def g)
qed

lemma hostvars_read_back: "hostvars_of_json (hostvars_json hv) = Some hv"
proof -
  have "fmmap (the \<circ> as_object) (fmmap JObj hv) = hv"
    by (rule fmap_ext) (simp add: option.map_comp comp_def option.map_ident)
  moreover have "fmpred (\<lambda>_ x. is_object x) (fmmap JObj hv)" by (auto simp: fmpred_iff)
  ultimately show ?thesis by (simp add: hostvars_of_json_def hostvars_json_def)
qed

definition inventory_keys :: "(string, host_vars) fmap \<Rightarrow> (string, group) fmap \<Rightarrow> (string, json) fmap" where
  "inventory_keys hv gs =
     fmupd ''_meta'' (JObj (fmupd ''hostvars'' (hostvars_json hv) fmempty)) fmempty ++\<^sub>f fmmap ansible_group gs"

lemma ansible_inventory_keys: "ansible_inventory hv gs = JObj (inventory_keys hv gs)"
proof -
  have "fold (\<lambda>name. fmupd name (ansible_group (the (fmlookup gs name)))) (fm_keys gs)
       (fmupd ''_meta'' (JObj (fmupd ''hostvars'' (hostvars_json hv) fmempty)) fmempty) = inventory_keys hv gs"
    by (intro fmap_ext) (auto simp: fmlookup_fold_upd inventory_keys_def fmlookup_dom'_iff fmlookup_dom_iff)
  then show ?thesis by (simp add: ansible_inventory_def)
qed

lemma read_groups_inventory:
  "(\<And>n. n \<in> set names \<Longrightarrow> n \<noteq> ''_meta'' \<Longrightarrow> \<exists>g. fmlookup gs n = Some g \<and> fmlookup obj n = Some (ansible_group g) \<and> ordinary n) \<Longrightarrow>
     read_groups obj names hv acc ws
       = Inr (\<lparr>hostvars = hv,
              groups = fold (\<lambda>n. fmupd n (normal_group (the (fmlookup gs n)))) (filter (\<lambda>n. n \<noteq> ''_meta'') names) acc,
              remove_hosts = []\<rparr>, ws)"
proof (induction names arbitrary: acc)
  case (Cons n names)
  show ?case
  proof (cases "n = ''_meta''")
    case False
    with Cons.prems [of n] obtain g where "fmlookup gs n = Some g" "fmlookup obj n = Some (ansible_group g)" "ordinary n"
      by auto
    with False Cons show ?thesis by (simp add: parse_ansible_group ordinary_def)
  qed (use Cons in simp)
qed simp



section \<open>The CSV reads back\<close>

text \<open>
  A reader of RFC 4180 text: a quoted field ends at a quote that is not doubled; any other runs
  to the next comma or line end. \<open>csv_next\<close> reads one field and what follows it.
\<close>

fun quoted_rest :: "string \<Rightarrow> string \<times> string" where
  "quoted_rest [] = ([], [])"
| "quoted_rest [c] = (if c = dquote then ([], []) else ([c], []))"
| "quoted_rest (c # d # cs) =
     (if c = dquote then
        (if d = dquote then (let (f, r) = quoted_rest cs in (dquote # f, r)) else ([], d # cs))
      else (let (f, r) = quoted_rest (d # cs) in (c # f, r)))"

definition csv_next :: "string \<Rightarrow> string \<times> string" where
  "csv_next t =
     (case t of
        c # cs \<Rightarrow>
          if c = dquote then quoted_rest cs
          else (takeWhile (\<lambda>c. c \<noteq> CHR '','' \<and> c \<noteq> newline) t, dropWhile (\<lambda>c. c \<noteq> CHR '','' \<and> c \<noteq> newline) t)
      | [] \<Rightarrow> ([], []))"

text \<open>The rows, the last first cell of each one being the fields read so far.\<close>

fun csv_read :: "nat \<Rightarrow> string \<Rightarrow> string list \<Rightarrow> string list list option" where
  "csv_read 0 t acc = None"
| "csv_read (Suc fuel) t acc =
     (if t = [] then (if acc = [] then Some [] else None)
      else
        (let (f, r) = csv_next t
         in case r of
              c # cs \<Rightarrow>
                if c = CHR '','' then csv_read fuel cs (acc @ [f])
                else if c = newline then map_option (\<lambda>rows. (acc @ [f]) # rows) (csv_read fuel cs [])
                else None
            | [] \<Rightarrow> None))"

lemma csv_chars [simp]:
  "dquote \<noteq> newline" "newline \<noteq> dquote" "CHR '','' \<noteq> dquote" "CHR '','' \<noteq> newline"
  "dquote \<noteq> CHR '',''" "newline \<noteq> CHR '',''"
  by (simp_all add: dquote_def newline_def)

lemma quoted_reads_back:
  "r = [] \<or> hd r \<noteq> dquote \<Longrightarrow> quoted_rest (double_quotes f @ dquote # r) = (f, r)"
proof (induction f)
  case Nil
  then show ?case by (cases r) (auto simp: double_quotes_def)
next
  case (Cons c f)
  show ?case
  proof (cases "c = dquote")
    case True
    with Cons show ?thesis by (simp add: double_quotes_def)
  next
    case False
    obtain d ds where "double_quotes f @ dquote # r = d # ds" by (cases "double_quotes f") auto
    with Cons False show ?thesis by (simp add: double_quotes_def)
  qed
qed

lemma csv_next_field:
  assumes "c = CHR '','' \<or> c = newline"
  shows "csv_next (csv_field f @ c # r) = (f, c # r)"
proof (cases "needs_quotes f")
  case True
  have "quoted_rest (double_quotes f @ dquote # c # r) = (f, c # r)"
    by (rule quoted_reads_back) (use assms in auto)
  with True show ?thesis by (simp add: csv_field_def csv_next_def)
next
  case False
  then have plain: "\<forall>x \<in> set f. x \<noteq> CHR '','' \<and> x \<noteq> newline" and "dquote \<notin> set f"
    by (auto simp: needs_quotes_def list_ex_iff)
  moreover have "takeWhile (\<lambda>c. c \<noteq> CHR '','' \<and> c \<noteq> newline) (f @ c # r) = f"
    "dropWhile (\<lambda>c. c \<noteq> CHR '','' \<and> c \<noteq> newline) (f @ c # r) = c # r"
    using plain assms by auto
  ultimately show ?thesis
    using False assms by (cases f) (auto simp: csv_field_def csv_next_def)
qed

lemma csv_read_cells:
  "length cs < fuel \<Longrightarrow>
     csv_read fuel (csv_field c @ concat (map (\<lambda>x. CHR '','' # csv_field x) cs) @ newline # r) acc
       = map_option (\<lambda>rows. (acc @ c # cs) # rows) (csv_read (fuel - Suc (length cs)) r [])"
proof (induction cs arbitrary: c acc fuel)
  case Nil
  then obtain n where "fuel = Suc n" by (cases fuel) auto
  then show ?case by (simp add: csv_next_field)
next
  case (Cons d cs)
  then obtain n where n: "fuel = Suc n" "length cs < n" by (cases fuel) auto
  have "csv_read fuel (csv_field c @ CHR '','' # (csv_field d @ concat (map (\<lambda>x. CHR '','' # csv_field x) cs) @ newline # r)) acc
      = csv_read n (csv_field d @ concat (map (\<lambda>x. CHR '','' # csv_field x) cs) @ newline # r) (acc @ [c])"
    by (simp add: n csv_next_field)
  with Cons.IH [OF n(2), of d "acc @ [c]"] n show ?case by simp
qed

lemma csv_read_rows:
  "[] \<notin> set rows \<Longrightarrow> sum_list (map length rows) < fuel \<Longrightarrow> csv_read fuel (concat (map csv_row rows)) [] = Some rows"
proof (induction rows arbitrary: fuel)
  case Nil
  then show ?case by (cases fuel) auto
next
  case (Cons row rows)
  then obtain c cs where row: "row = c # cs" by (cases row) auto
  with Cons.prems have "length cs < fuel" "sum_list (map length rows) < fuel - Suc (length cs)" by auto
  moreover have "csv_row row = csv_field c @ concat (map (\<lambda>x. CHR '','' # csv_field x) cs) @ [newline]"
    by (simp add: row csv_row_def)
  ultimately show ?case
    using Cons row csv_read_cells [of cs fuel c "concat (map csv_row rows)" "[]"] by simp
qed

text \<open>The table of a render: its header, then the cells of each host in order.\<close>

definition csv_table where
  "csv_table number show_json ds config params =
     (let hv = fst (merge_and_filter number show_json ds config params)
      in csv_cells show_json (csv_columns (csv_items (setting params config ''fields'')) hv) hv)"

text \<open>
  C24. The CSV output loses nothing: a reader of RFC 4180 gets back the header and, for every host
  of the render in order, its name and its cell of every column, whatever commas, quotes and line
  breaks they hold; with fuel for one more than the cells it reads every row.
\<close>

theorem csv_reads_back:
  "csv_read (Suc (sum_list (map length (csv_table number show_json ds config params))))
      (render_csv number show_json ds config params) [] = Some (csv_table number show_json ds config params)
    \<and> length (csv_table number show_json ds config params)
        = Suc (card (fmdom' (fst (merge_and_filter number show_json ds config params))))
    \<and> hd (hd (csv_table number show_json ds config params)) = ''host''
    \<and> map hd (tl (csv_table number show_json ds config params))
        = fm_keys (fst (merge_and_filter number show_json ds config params))"
proof -
  have ne: "[] \<notin> set (csv_table number show_json ds config params)"
    by (auto simp: csv_table_def csv_cells_def Let_def)
  have r: "render_csv number show_json ds config params
      = concat (map csv_row (csv_table number show_json ds config params))"
    by (simp add: render_csv_def csv_table_def Let_def case_prod_beta)
  show ?thesis
    unfolding r
    by (intro conjI csv_read_rows ne) (simp_all add: csv_table_def csv_cells_def Let_def comp_def fm_keys_def)
qed

section \<open>A dropped group may have had variables\<close>

text \<open>
  A group whose hosts the filter took all of is dropped with the variables it had, not only when it
  had none.
\<close>

lemma dropped_group_had_vars:
  "fmlookup (prune_groups {} (fmap_of_list [(''web'', \<lparr>g_hosts = [''a''], g_children = [], g_vars = Some vars\<rparr>)])) ''web''
     = None"
  by (simp add: prune_groups_def keep_group_def fmlookup_of_list)

end
