(* ===== verification/Access.thy ===== *)
theory Access
  imports Prelude
begin

text \<open>
  Who may touch what: the items of \<open>src/src/domain/api_key.rs\<close>, the access rules of
  \<open>src/src/domain/ldap.rs\<close> and the permissions of \<open>src/src/adapters/in/http/auth.rs\<close>.
  Matching a person against the users and groups of a rule is \<open>rule_names\<close> of the crate
  \<open>auth_rs\<close>, a parameter. The lemmas say that nobody gets more than a rule or a key grants.
\<close>

section \<open>API key items\<close>

datatype api_key_role = Admin_role | Restricted_role

record api_key_def =
  ak_name :: string
  ak_env_vars :: "(string, string) fmap"
  ak_env :: "string option"
  ak_role :: api_key_role
  ak_sources :: "string list"
  ak_endpoints :: "string list"

definition KEY_FIELD :: string where
  "KEY_FIELD = ''key''"

definition env_var :: "api_key_def \<Rightarrow> string" where
  "env_var k =
     (case fmlookup (ak_env_vars k) KEY_FIELD of
        Some v \<Rightarrow> v
      | None \<Rightarrow> (case ak_env k of Some v \<Rightarrow> v | None \<Rightarrow> []))"

datatype api_key_error =
    Unknown_key_field string string
  | Key_both_forms string
  | Key_no_variable string

definition api_key_errors :: "string \<Rightarrow> api_key_def \<Rightarrow> api_key_error list" where
  "api_key_errors i k =
     map (Unknown_key_field i) (filter (\<lambda>f. f \<noteq> KEY_FIELD) (fm_keys (ak_env_vars k)))
     @ (case (fmlookup (ak_env_vars k) KEY_FIELD \<noteq> None, ak_env k \<noteq> None) of
          (True, True) \<Rightarrow> [Key_both_forms i]
        | (False, False) \<Rightarrow> [Key_no_variable i]
        | _ \<Rightarrow> [])"

definition api_key_deprecation :: "string \<Rightarrow> api_key_def \<Rightarrow> string option" where
  "api_key_deprecation i k =
     map_option (\<lambda>env. ''API key '' @ quoted i @ '': env is deprecated and will be refused in a later release; write env_vars: {key: '' @ env @ ''}'')
       (ak_env k)"

section \<open>Directory access rules\<close>

record access_rule =
  ar_name :: string
  ar_groups :: "string list"
  ar_users :: "string list"
  ar_role :: api_key_role
  ar_sources :: "string list"
  ar_endpoints :: "string list"

datatype grant = Admin | Scoped "string set" "string set"

text \<open>The loop of \<open>grant_for\<close>: what has matched so far, and the ids it named.\<close>

fun grant_loop ::
  "(string list \<Rightarrow> string list \<Rightarrow> string \<Rightarrow> string list \<Rightarrow> bool) \<Rightarrow> access_rule list \<Rightarrow> string \<Rightarrow> string list
     \<Rightarrow> bool \<Rightarrow> string set \<Rightarrow> string set \<Rightarrow> grant option" where
  "grant_loop rule_names [] username member_of matched ss es = (if matched then Some (Scoped ss es) else None)"
| "grant_loop rule_names (r # rs) username member_of matched ss es =
     (if \<not> rule_names (ar_users r) (ar_groups r) username member_of
      then grant_loop rule_names rs username member_of matched ss es
      else if ar_role r = Admin_role then Some Admin
      else grant_loop rule_names rs username member_of True (ss \<union> set (ar_sources r)) (es \<union> set (ar_endpoints r)))"

definition grant_for where
  "grant_for rule_names rules username member_of = grant_loop rule_names rules username member_of False {} {}"

section \<open>Permissions\<close>

datatype permissions = Perm_admin | Perm_scoped "string set" "string set"

fun is_admin :: "permissions \<Rightarrow> bool" where
  "is_admin Perm_admin = True"
| "is_admin (Perm_scoped _ _) = False"

fun allows_source :: "permissions \<Rightarrow> string \<Rightarrow> bool" where
  "allows_source Perm_admin i = True"
| "allows_source (Perm_scoped ss _) i = (i \<in> ss)"

fun allows_endpoint :: "permissions \<Rightarrow> string \<Rightarrow> bool" where
  "allows_endpoint Perm_admin i = True"
| "allows_endpoint (Perm_scoped _ es) i = (i \<in> es)"

fun permissions_of_grant :: "grant \<Rightarrow> permissions" where
  "permissions_of_grant Admin = Perm_admin"
| "permissions_of_grant (Scoped ss es) = Perm_scoped ss es"

record resolved_key =
  rk_id :: string
  rk_name :: string
  rk_secret :: string
  rk_permissions :: permissions

datatype key_error =
    Secret_not_set string string
  | Secret_empty string string

definition resolve_key :: "(string \<Rightarrow> string option) \<Rightarrow> (string, api_key_def) fmap \<Rightarrow> string \<Rightarrow> key_error + resolved_key" where
  "resolve_key getenv keys i =
     (let def = the (fmlookup keys i); var = env_var def
      in case getenv var of
           None \<Rightarrow> Inl (Secret_not_set i var)
         | Some secret \<Rightarrow>
             if secret = [] then Inl (Secret_empty i var)
             else Inr \<lparr>rk_id = i, rk_name = ak_name def, rk_secret = secret,
               rk_permissions =
                 (case ak_role def of
                    Admin_role \<Rightarrow> Perm_admin
                  | Restricted_role \<Rightarrow> Perm_scoped (set (ak_sources def)) (set (ak_endpoints def)))\<rparr>)"

definition resolve_api_keys ::
  "(string \<Rightarrow> string option) \<Rightarrow> (string, api_key_def) fmap \<Rightarrow> key_error + resolved_key list" where
  "resolve_api_keys getenv keys =
     (case traverse (resolve_key getenv keys) (fm_keys keys) of
        Inl e \<Rightarrow> Inl e
      | Inr ks \<Rightarrow>
          Inr (ks @ (case getenv ''UNIFIED_API_KEY'' of
                       Some secret \<Rightarrow>
                         (if secret \<noteq> []
                          then [\<lparr>rk_id = ''default'', rk_name = ''default'', rk_secret = secret, rk_permissions = Perm_admin\<rparr>]
                          else [])
                     | None \<Rightarrow> [])))"

definition ldap_requires_keys :: "'l option \<Rightarrow> resolved_key list \<Rightarrow> bool" where
  "ldap_requires_keys ldap keys \<longleftrightarrow> \<not> (ldap \<noteq> None \<and> keys = [])"

section \<open>What is granted\<close>

definition naming where
  "naming rule_names rules u ms = {r \<in> set rules. rule_names (ar_users r) (ar_groups r) u ms}"

lemma naming_Cons:
  "naming rule_names (r # rs) u ms =
     (if rule_names (ar_users r) (ar_groups r) u ms then insert r (naming rule_names rs u ms) else naming rule_names rs u ms)"
  by (auto simp: naming_def)

lemma grant_loop_exact:
  "grant_loop rule_names rules u ms matched ss es =
     (if \<exists>r \<in> naming rule_names rules u ms. ar_role r = Admin_role then Some Admin
      else if matched \<or> naming rule_names rules u ms \<noteq> {}
      then Some (Scoped (ss \<union> (\<Union>r \<in> naming rule_names rules u ms. set (ar_sources r)))
                   (es \<union> (\<Union>r \<in> naming rule_names rules u ms. set (ar_endpoints r))))
      else None)"
proof (induction rules arbitrary: matched ss es)
  case Nil
  then show ?case by (simp add: naming_def)
next
  case (Cons r rs)
  then show ?case
    by (cases "rule_names (ar_users r) (ar_groups r) u ms"; cases "ar_role r = Admin_role")
      (simp_all add: naming_Cons Un_assoc)
qed

text \<open>
  C31. What a directory account may touch is exactly what the access rules that name it say: nothing
  when none does, everything only when one of them is an admin rule, and otherwise exactly the
  sources and endpoints they list together; the order of the rules does not matter.
\<close>

theorem grant_exact:
  "(let named = naming rule_names rules u ms
    in case map_option permissions_of_grant (grant_for rule_names rules u ms) of
         None \<Rightarrow> named = {}
       | Some p \<Rightarrow> named \<noteq> {}
           \<and> (is_admin p \<longleftrightarrow> (\<exists>r \<in> named. ar_role r = Admin_role))
           \<and> (\<forall>i. allows_source p i \<longleftrightarrow> is_admin p \<or> (\<exists>r \<in> named. i \<in> set (ar_sources r)))
           \<and> (\<forall>i. allows_endpoint p i \<longleftrightarrow> is_admin p \<or> (\<exists>r \<in> named. i \<in> set (ar_endpoints r))))
   \<and> (set rules' = set rules \<longrightarrow> grant_for rule_names rules' u ms = grant_for rule_names rules u ms)"
proof (intro conjI impI)
  show "let named = naming rule_names rules u ms
    in case map_option permissions_of_grant (grant_for rule_names rules u ms) of
         None \<Rightarrow> named = {}
       | Some p \<Rightarrow> named \<noteq> {}
           \<and> (is_admin p \<longleftrightarrow> (\<exists>r \<in> named. ar_role r = Admin_role))
           \<and> (\<forall>i. allows_source p i \<longleftrightarrow> is_admin p \<or> (\<exists>r \<in> named. i \<in> set (ar_sources r)))
           \<and> (\<forall>i. allows_endpoint p i \<longleftrightarrow> is_admin p \<or> (\<exists>r \<in> named. i \<in> set (ar_endpoints r)))"
    by (auto simp: grant_for_def grant_loop_exact Let_def)
next
  assume "set rules' = set rules"
  then have "naming rule_names rules' u ms = naming rule_names rules u ms" by (simp add: naming_def)
  then show "grant_for rule_names rules' u ms = grant_for rule_names rules u ms"
    by (simp add: grant_for_def grant_loop_exact)
qed

definition ops_rule :: access_rule where
  "ops_rule = \<lparr>ar_name = ''ops'', ar_groups = [''DL-ops''], ar_users = [], ar_role = Restricted_role,
     ar_sources = [''vm''], ar_endpoints = []\<rparr>"

theorem grant_exact_witness:
  "grant_for (\<lambda>us gs u ms. u \<in> set us \<or> list_ex (\<lambda>g. g \<in> set ms) gs) [ops_rule, ops_rule] ''ana'' [''DL-ops'']
     = grant_for (\<lambda>us gs u ms. u \<in> set us \<or> list_ex (\<lambda>g. g \<in> set ms) gs) [ops_rule] ''ana'' [''DL-ops'']"
proof -
  have "set [ops_rule, ops_rule] = set [ops_rule]" by simp
  then show ?thesis
    using grant_exact [where rules = "[ops_rule]" and rules' = "[ops_rule, ops_rule]"] by blast
qed

text \<open>
  Keys that resolve are the keys of the configuration and no others: each item becomes one key
  with its non-empty secret, allowed everything only if its role is admin and otherwise exactly
  what it lists; the one key more is the legacy variable's, when that is set and not empty. One
  secret that is missing or empty refuses all of them.
\<close>

theorem resolved_keys_exact:
  "(case resolve_api_keys getenv keys of
      Inl _ \<Rightarrow> \<exists>i def. fmlookup keys i = Some def \<and> (getenv (env_var def) = None \<or> getenv (env_var def) = Some [])
    | Inr ks \<Rightarrow>
        (\<forall>i def. fmlookup keys i = Some def \<longrightarrow>
           (\<exists>k \<in> set ks. rk_id k = i \<and> getenv (env_var def) = Some (rk_secret k)
              \<and> (is_admin (rk_permissions k) \<longleftrightarrow> ak_role def = Admin_role)
              \<and> (\<forall>s. allows_source (rk_permissions k) s \<longleftrightarrow> ak_role def = Admin_role \<or> s \<in> set (ak_sources def))
              \<and> (\<forall>e. allows_endpoint (rk_permissions k) e \<longleftrightarrow> ak_role def = Admin_role \<or> e \<in> set (ak_endpoints def))))
        \<and> (\<forall>k \<in> set ks. rk_secret k \<noteq> []
             \<and> (is_admin (rk_permissions k) \<longrightarrow>
                  (\<exists>def. fmlookup keys (rk_id k) = Some def \<and> ak_role def = Admin_role)
                  \<or> getenv ''UNIFIED_API_KEY'' = Some (rk_secret k)))
        \<and> length ks \<le> Suc (card (fmdom' keys)))"
proof (cases "traverse (resolve_key getenv keys) (fm_keys keys)")
  case (Inl e)
  have "\<exists>i \<in> set xs. resolve_key getenv keys i = Inl e" if "traverse (resolve_key getenv keys) xs = Inl e" for xs
    using that by (induction xs) (auto split: sum.splits)
  from this [OF Inl] obtain i where "i \<in> fmdom' keys" "resolve_key getenv keys i = Inl e" by auto
  with Inl show ?thesis
    by (auto simp: resolve_api_keys_def resolve_key_def Let_def fmlookup_dom'_iff split: option.splits if_splits)
next
  case (Inr ks)
  then have all: "list_all2 (\<lambda>i k. resolve_key getenv keys i = Inr k) (fm_keys keys) ks"
    by (simp add: traverse_Inr_iff)
  then have len: "length ks = card (fmdom' keys)" by (simp add: list_all2_lengthD [symmetric] fm_keys_def)
  have from_key: "\<exists>i \<in> fmdom' keys. resolve_key getenv keys i = Inr k" if "k \<in> set ks" for k
    using list_all2_right [OF all that] by simp
  have to_key: "\<exists>k \<in> set ks. resolve_key getenv keys i = Inr k" if "i \<in> fmdom' keys" for i
    using list_all2_left [OF all, of i] that by simp
  have spec: "rk_id k = i \<and> getenv (env_var def) = Some (rk_secret k) \<and> rk_secret k \<noteq> []
       \<and> (is_admin (rk_permissions k) \<longleftrightarrow> ak_role def = Admin_role)
       \<and> (\<forall>s. allows_source (rk_permissions k) s \<longleftrightarrow> ak_role def = Admin_role \<or> s \<in> set (ak_sources def))
       \<and> (\<forall>e. allows_endpoint (rk_permissions k) e \<longleftrightarrow> ak_role def = Admin_role \<or> e \<in> set (ak_endpoints def))"
    if "resolve_key getenv keys i = Inr k" "fmlookup keys i = Some def" for i k def
    using that by (cases "ak_role def") (auto simp: resolve_key_def Let_def split: option.splits if_splits)
  let ?more = "case getenv ''UNIFIED_API_KEY'' of
                       Some secret \<Rightarrow>
                         (if secret \<noteq> []
                          then [\<lparr>rk_id = ''default'', rk_name = ''default'', rk_secret = secret, rk_permissions = Perm_admin\<rparr>]
                          else [])
                     | None \<Rightarrow> []"
  have r: "resolve_api_keys getenv keys = Inr (ks @ ?more)" by (simp add: resolve_api_keys_def Inr)
  have more: "rk_secret k \<noteq> [] \<and> getenv ''UNIFIED_API_KEY'' = Some (rk_secret k)" if "k \<in> set ?more" for k
    using that by (auto split: option.splits if_splits)
  have more_len: "length ?more \<le> 1" by (simp split: option.split)
  have each: "\<exists>k \<in> set (ks @ ?more). rk_id k = i \<and> getenv (env_var def) = Some (rk_secret k)
              \<and> (is_admin (rk_permissions k) \<longleftrightarrow> ak_role def = Admin_role)
              \<and> (\<forall>s. allows_source (rk_permissions k) s \<longleftrightarrow> ak_role def = Admin_role \<or> s \<in> set (ak_sources def))
              \<and> (\<forall>e. allows_endpoint (rk_permissions k) e \<longleftrightarrow> ak_role def = Admin_role \<or> e \<in> set (ak_endpoints def))"
    if "fmlookup keys i = Some def" for i def
  proof -
    from to_key [of i] that obtain k where k: "k \<in> set ks" "resolve_key getenv keys i = Inr k"
      by (auto simp: fmlookup_dom'_iff)
    from k(1) spec [OF k(2) that] show ?thesis by (intro bexI [of _ k]) (blast, simp)
  qed
  have only: "rk_secret k \<noteq> []
             \<and> (is_admin (rk_permissions k) \<longrightarrow>
                  (\<exists>def. fmlookup keys (rk_id k) = Some def \<and> ak_role def = Admin_role)
                  \<or> getenv ''UNIFIED_API_KEY'' = Some (rk_secret k))" if "k \<in> set (ks @ ?more)" for k
  proof (cases "k \<in> set ks")
    case True
    then obtain i def where "resolve_key getenv keys i = Inr k" "fmlookup keys i = Some def"
      using from_key by (metis fmlookup_dom'_iff)
    with spec show ?thesis by blast
  next
    case False
    with that more show ?thesis by auto
  qed
  show ?thesis unfolding r sum.case using each only more_len len by (intro conjI allI ballI impI) auto
qed

theorem resolved_keys_exact_witness:
  "\<exists>k \<in> set (case resolve_api_keys (\<lambda>v. if v = ''K'' then Some ''s3cret'' else None)
       (fmap_of_list [(''awx'', \<lparr>ak_name = ''AWX'', ak_env_vars = fmempty, ak_env = Some ''K'', ak_role = Restricted_role,
          ak_sources = [''vm''], ak_endpoints = []\<rparr>)]) of Inl _ \<Rightarrow> [] | Inr ks \<Rightarrow> ks).
     rk_id k = ''awx'' \<and> \<not> is_admin (rk_permissions k)"
proof -
  let ?getenv = "\<lambda>v. if v = ''K'' then Some ''s3cret'' else None"
  let ?def = "\<lparr>ak_name = ''AWX'', ak_env_vars = fmempty, ak_env = Some ''K'', ak_role = Restricted_role,
          ak_sources = [''vm''], ak_endpoints = []\<rparr>"
  have l: "fmlookup (fmap_of_list [(''awx'', ?def)]) ''awx'' = Some ?def" by simp
  have v: "env_var ?def = ''K''" by (simp add: env_var_def KEY_FIELD_def)
  have "fmlookup (fmap_of_list [(''awx'', ?def)]) i = Some def \<Longrightarrow> def = ?def" for i def
    by (auto simp: fmlookup_of_list split: if_splits)
  then show ?thesis
    using resolved_keys_exact [of "fmap_of_list [(''awx'', ?def)]" ?getenv] l v
    by (cases "resolve_api_keys ?getenv (fmap_of_list [(''awx'', ?def)])") (force simp del: fmap_of_list_simps)+
qed

end
