(* ===== verification/Credential_Rules.thy ===== *)
theory Credential_Rules
  imports Prelude
begin

text \<open>
  What the service checks about a credential and a project when it loads its configuration:
  \<open>src/src/domain/credential.rs\<close> and \<open>src/src/domain/project.rs\<close>. The type \<open>Credential\<close> is the
  crate \<open>secrets_rs\<close>'s; the record below holds the fields the rules read and, as one opaque value,
  the others. The lemmas say exactly
  which items are accepted.
\<close>

section \<open>Credentials\<close>

record credential =
  cr_is_vault :: bool
  cr_env_vars :: "(string, string) fmap"
  cr_env_prefix :: "string option"
  cr_secret_keys :: "(string, string) fmap"
  cr_file_keys :: "(string, string) fmap"
  cr_secret_file :: "string option"
  cr_vault_path :: "string option"
  cr_vault :: "string option"
  cr_address :: "string option"
  cr_mount :: "string option"
  cr_kubernetes_role :: "string option"
  cr_jwt_path :: "string option"
  cr_timeout_seconds :: "nat option"
  cr_cache_ttl_seconds :: "nat option"
  cr_other :: string

definition cred_fields :: "credential \<Rightarrow> string list" where
  "cred_fields c =
     fm_keys (if cr_vault_path c = None \<and> cr_env_vars c \<noteq> fmempty then cr_env_vars c else cr_secret_keys c)"

datatype credential_rule_error =
    Vault_no_address string
  | Vault_bad_address string string
  | Vault_unknown_field string string
  | Vault_two_logins string
  | Vault_no_login string
  | Vault_sets string string
  | Vault_zero_timeout string
  | Jwt_without_role string
  | Only_a_vault_uses string string
  | Vault_without_path string string
  | Env_vars_and_prefix string
  | Beside_env_vars string string
  | Several_places string "string list"

definition web_address :: "string \<Rightarrow> bool" where
  "web_address a \<longleftrightarrow> starts_with a ''https://'' \<or> starts_with a ''http://''"

text \<open>The keys of a list of (key, is it set) pairs that are set.\<close>

definition set_keys :: "(string \<times> bool) list \<Rightarrow> string list" where
  "set_keys kvs = map fst (filter snd kvs)"

definition connection_keys :: "credential \<Rightarrow> (string \<times> bool) list" where
  "connection_keys c =
     [(''address'', cr_address c \<noteq> None), (''mount'', cr_mount c \<noteq> None),
      (''kubernetes_role'', cr_kubernetes_role c \<noteq> None), (''jwt_path'', cr_jwt_path c \<noteq> None),
      (''timeout_seconds'', cr_timeout_seconds c \<noteq> None), (''cache_ttl_seconds'', cr_cache_ttl_seconds c \<noteq> None)]"

definition vault_errors :: "string \<Rightarrow> credential \<Rightarrow> credential_rule_error list" where
  "vault_errors i c =
     (case cr_address c of
        None \<Rightarrow> [Vault_no_address i]
      | Some a \<Rightarrow> if \<not> web_address a then [Vault_bad_address i a] else [])
     @ map (Vault_unknown_field i) (filter (\<lambda>f. f \<noteq> ''token'') (fm_keys (cr_env_vars c)))
     @ (case (fmlookup (cr_env_vars c) ''token'' \<noteq> None, cr_kubernetes_role c \<noteq> None) of
          (True, True) \<Rightarrow> [Vault_two_logins i]
        | (False, False) \<Rightarrow> [Vault_no_login i]
        | _ \<Rightarrow> [])
     @ map (Vault_sets i) (set_keys
         [(''vault_path'', cr_vault_path c \<noteq> None), (''vault'', cr_vault c \<noteq> None),
          (''env_prefix'', cr_env_prefix c \<noteq> None), (''secret_file'', cr_secret_file c \<noteq> None),
          (''secret_keys'', cr_secret_keys c \<noteq> fmempty), (''file_keys'', cr_file_keys c \<noteq> fmempty)])
     @ (if cr_timeout_seconds c = Some 0 then [Vault_zero_timeout i] else [])
     @ (if cr_jwt_path c \<noteq> None \<and> cr_kubernetes_role c = None then [Jwt_without_role i] else [])"

definition credential_errors :: "string \<Rightarrow> credential \<Rightarrow> credential_rule_error list" where
  "credential_errors i c =
     (if cr_is_vault c then vault_errors i c
      else
        map (Only_a_vault_uses i) (set_keys (connection_keys c))
        @ (if cr_vault c \<noteq> None \<and> cr_vault_path c = None
           then [Vault_without_path i (case cr_vault c of None \<Rightarrow> [] | Some v \<Rightarrow> v)] else [])
        @ (if cr_env_vars c \<noteq> fmempty \<and> cr_env_prefix c \<noteq> None then [Env_vars_and_prefix i] else [])
        @ (if cr_env_vars c \<noteq> fmempty
           then map (Beside_env_vars i) (set_keys
             [(''vault_path'', cr_vault_path c \<noteq> None), (''secret_file'', cr_secret_file c \<noteq> None),
              (''secret_keys'', cr_secret_keys c \<noteq> fmempty)])
           else
             (let places = set_keys
                [(''vault_path'', cr_vault_path c \<noteq> None), (''env_prefix'', cr_env_prefix c \<noteq> None),
                 (''secret_file'', cr_secret_file c \<noteq> None)]
              in if 1 < length places then [Several_places i places] else [])))"

definition cred_deprecation :: "string \<Rightarrow> credential \<Rightarrow> string option" where
  "cred_deprecation i c =
     (if cr_vault_path c \<noteq> None \<and> cr_vault c = None
      then Some (''credential '' @ quoted i @ '': a vault_path without `vault:` reads from config.yaml''
             @ [CHR 0x27] @ ''s secrets.vault, which is deprecated and will be refused in a later release; ''
             @ ''declare the Vault as a `type: vault` credential and write vault: <its name>'')
      else
        (case cr_env_prefix c of
           None \<Rightarrow> None
         | Some prefix \<Rightarrow>
             if cr_vault_path c \<noteq> None \<or> cr_env_vars c \<noteq> fmempty then None
             else
               (let pairs = map (\<lambda>f. f @ '': '' @ prefix @ ''_'' @ the (fmlookup (cr_secret_keys c) f))
                  (fm_keys (cr_secret_keys c))
                in Some (''credential '' @ quoted i @ '': env_prefix + secret_keys is deprecated and will be refused ''
                     @ ''in a later release; write env_vars: {'' @ join '', '' (sort pairs) @ ''}''))))"

section \<open>Projects\<close>

record git_project =
  gp_name :: string
  gp_git_url :: string
  gp_branch :: string
  gp_credentials :: "string list"
  gp_credential :: "string option"
  gp_sync_interval_seconds :: "nat option"
  gp_schedule :: "string option"
  gp_timeout_seconds :: nat
  gp_python_venv :: bool
  gp_sync_on_boot :: bool

definition credential_id :: "git_project \<Rightarrow> string option" where
  "credential_id p = (case gp_credentials p of c # _ \<Rightarrow> Some c | [] \<Rightarrow> gp_credential p)"

datatype project_rule_error =
    Several_credentials string nat
  | Both_credential_forms string

definition project_errors :: "string \<Rightarrow> git_project \<Rightarrow> project_rule_error list" where
  "project_errors i p =
     (if 1 < card (set (gp_credentials p)) then [Several_credentials i (card (set (gp_credentials p)))] else [])
     @ (if gp_credentials p \<noteq> [] \<and> gp_credential p \<noteq> None then [Both_credential_forms i] else [])"

definition project_deprecation :: "string \<Rightarrow> git_project \<Rightarrow> string option" where
  "project_deprecation i p =
     map_option (\<lambda>c. ''project '' @ quoted i @ '': credential is deprecated and will be refused in a later release; write credentials: ['' @ c @ '']'')
       (gp_credential p)"

section \<open>What is accepted\<close>

lemma set_keys_nil: "set_keys kvs = [] \<longleftrightarrow> (\<forall>kv \<in> set kvs. \<not> snd kv)"
  by (simp add: set_keys_def filter_empty_conv)

text \<open>Where a credential reads its secret from.\<close>

datatype place = In_env_vars | In_vault_path | In_env_prefix | In_secret_file

definition reads_from :: "credential \<Rightarrow> place set" where
  "reads_from c =
     (if cr_env_vars c \<noteq> fmempty then {In_env_vars} else {})
     \<union> (if cr_vault_path c \<noteq> None then {In_vault_path} else {})
     \<union> (if cr_env_prefix c \<noteq> None then {In_env_prefix} else {})
     \<union> (if cr_secret_file c \<noteq> None then {In_secret_file} else {})"

text \<open>
  A credential is accepted exactly when it can mean one thing: a Vault has a web address and one
  way to log in and nothing of a reader, and its timeout is not zero; any other credential has
  nothing of a Vault's connection, reads from at most one place, names a Vault only with a path to
  read there, and gives no other names to fields that \<open>env_vars\<close> names.
\<close>

theorem credential_accepted_exactly:
  "credential_errors i c = [] \<longleftrightarrow>
     (if cr_is_vault c then
        (\<exists>a. cr_address c = Some a \<and> web_address a)
        \<and> fmdom' (cr_env_vars c) \<subseteq> {''token''}
        \<and> (cr_env_vars c \<noteq> fmempty \<longleftrightarrow> cr_kubernetes_role c = None)
        \<and> reads_from c \<subseteq> {In_env_vars} \<and> cr_vault c = None \<and> cr_secret_keys c = fmempty \<and> cr_file_keys c = fmempty
        \<and> cr_timeout_seconds c \<noteq> Some 0
        \<and> (cr_jwt_path c = None \<or> cr_kubernetes_role c \<noteq> None)
      else
        (\<forall>p q. p \<in> reads_from c \<longrightarrow> q \<in> reads_from c \<longrightarrow> p = q)
        \<and> (\<forall>kv \<in> set (connection_keys c). \<not> snd kv)
        \<and> (cr_vault c = None \<or> cr_vault_path c \<noteq> None)
        \<and> (cr_env_vars c = fmempty \<or> cr_secret_keys c = fmempty))"
proof -
  have tok: "cr_env_vars c \<noteq> fmempty \<longleftrightarrow> fmlookup (cr_env_vars c) ''token'' \<noteq> None"
    if "fmdom' (cr_env_vars c) \<subseteq> {''token''}"
  proof
    assume "cr_env_vars c \<noteq> fmempty"
    then obtain k where "k \<in> fmdom' (cr_env_vars c)" by (metis fmap_ext fmdom'_notD fmempty_lookup)
    with that have "''token'' \<in> fmdom' (cr_env_vars c)" by blast
    then show "fmlookup (cr_env_vars c) ''token'' \<noteq> None" by (auto simp: fmlookup_dom'_iff)
  qed auto
  have dom: "filter (\<lambda>f. f \<noteq> ''token'') (fm_keys (cr_env_vars c)) = [] \<longleftrightarrow> fmdom' (cr_env_vars c) \<subseteq> {''token''}"
    by (auto simp: filter_empty_conv)
  show ?thesis
  proof (cases "cr_is_vault c")
    case True
    show ?thesis
    proof (cases "fmdom' (cr_env_vars c) \<subseteq> {''token''}")
      case True
      with \<open>cr_is_vault c\<close> show ?thesis
        by (cases "cr_kubernetes_role c"; cases "fmlookup (cr_env_vars c) ''token''"; cases "cr_address c")
          (auto simp: credential_errors_def vault_errors_def dom tok set_keys_nil reads_from_def)
    next
      case False
      with \<open>cr_is_vault c\<close> show ?thesis by (simp add: credential_errors_def vault_errors_def dom)
    qed
  next
    case False
    define K where "K = set_keys (connection_keys c)"
    have K: "(\<forall>kv \<in> set (connection_keys c). \<not> snd kv) \<longleftrightarrow> K = []"
      by (simp add: K_def set_keys_nil)
    from False show ?thesis
      unfolding credential_errors_def K K_def [symmetric]
      by (cases "cr_env_vars c = fmempty"; cases "cr_vault_path c"; cases "cr_env_prefix c"; cases "cr_secret_file c")
        (auto simp: set_keys_def reads_from_def Let_def)
  qed
qed

theorem credential_accepted_exactly_witness:
  "credential_errors ''db''
     \<lparr>cr_is_vault = False, cr_env_vars = fmap_of_list [(''password'', ''DB_PW'')], cr_env_prefix = None,
      cr_secret_keys = fmempty, cr_file_keys = fmempty, cr_secret_file = Some ''/run/pw'', cr_vault_path = None,
      cr_vault = None, cr_address = None, cr_mount = None, cr_kubernetes_role = None, cr_jwt_path = None,
      cr_timeout_seconds = None, cr_cache_ttl_seconds = None, cr_other = []\<rparr> \<noteq> []"
proof -
  have ne: "fmap_of_list [(''password'', ''DB_PW'')] \<noteq> (fmempty :: (string, string) fmap)"
  proof
    assume "fmap_of_list [(''password'', ''DB_PW'')] = (fmempty :: (string, string) fmap)"
    then have "fmlookup (fmap_of_list [(''password'', ''DB_PW'')]) ''password'' = (None :: string option)" by (simp only: fmempty_lookup)
    then show False by simp
  qed
  show ?thesis
    unfolding credential_accepted_exactly using ne by (auto simp: reads_from_def)
qed

end
