(* ===== verification/Config.thy ===== *)
theory Config
  imports Access Credential_Rules Host_Items Enrich Output
begin

text \<open>
  The configuration and what makes one acceptable: \<open>src/src/config.rs\<close>, \<open>AppConfig\<close> and
  \<open>validate_errors\<close>. Every message is a constructor with its operands; the maps are visited in the
  order of their keys. Parameters: the cron parser, the files that exist, the name a credential is
  delivered under and the rule for a local path, all of other crates. The lemmas say that what an
  accepted configuration names is there, and what its endpoints, views and sources can rely on.
\<close>

section \<open>The configuration\<close>

text \<open>The fields of \<open>auth_rs::LdapConfig\<close> that are read here; the others are one opaque value.\<close>

record ldap_config =
  ld_url :: string
  ld_starttls :: bool
  ld_bind_credential :: string
  ld_user_filter :: string
  ld_access :: "access_rule list"
  ld_other :: string

record ui_config =
  ui_enabled :: bool
  ui_session_ttl_seconds :: nat
  ui_ldap :: "ldap_config option"
  ui_home :: "string option"
  ui_assets_dir :: "string option"

definition ui_home_path :: "ui_config \<Rightarrow> string" where
  "ui_home_path u =
     (case (ui_home u, ui_assets_dir u) of
        (Some home, _) \<Rightarrow> home
      | (None, Some _) \<Rightarrow> ''/''
      | (None, None) \<Rightarrow> ''/api/v1/'')"

record server_config =
  sv_host :: string
  sv_port :: "16 word"
  sv_ui :: ui_config
  sv_cors_allowed_origins :: "string list"
  sv_readyz_require_all_sources :: bool
  sv_metrics_require_auth :: bool
  sv_refresh_timeout_seconds :: nat
  sv_refresh_max_concurrent :: nat
  sv_shutdown_grace_seconds :: nat
  sv_max_body_bytes :: nat
  sv_url :: "string option"
  sv_name :: "string option"

record persistence_config =
  pc_path :: string
  pc_interval_seconds :: nat

record endpoint =
  ep_name :: string
  ep_source_ids :: "string list"
  ep_output :: "output_format option"
  ep_script_path :: "string option"
  ep_script_args :: "string list"
  ep_project_id :: "string option"
  ep_config :: settings
  ep_limit :: "endpoint_limit option"
  ep_timeout_seconds :: "nat option"

text \<open>
  \<open>ac_secrets_cache_ttl\<close> and \<open>ac_secrets_vault\<close> are what is read of the deprecated secrets block: its
  cache TTL, the timeout of its Vault, and \<open>ac_secrets_other\<close> for the rest as one opaque value.
\<close>

record app_config =
  ac_server :: server_config
  ac_persistence :: "persistence_config option"
  ac_projects_dir :: string
  ac_secrets_cache_ttl :: "nat option"
  ac_secrets_vault :: "nat option"
  ac_secrets_other :: string
  ac_config_api_enabled :: bool
  ac_credentials :: "(string, credential) fmap"
  ac_sources :: sources
  ac_connectors :: "(string, connector) fmap"
  ac_hosts :: "(string, item_def) fmap"
  ac_groups :: "(string, item_def) fmap"
  ac_views :: "(string, view) fmap"
  ac_enrichers :: "(string, enricher) fmap"
  ac_projects :: "(string, git_project) fmap"
  ac_endpoints :: "(string, endpoint) fmap"
  ac_api_keys :: "(string, api_key_def) fmap"

definition deprecations :: "app_config \<Rightarrow> string list" where
  "deprecations c =
     sort (fm_flat (\<lambda>i x. case cred_deprecation i x of None \<Rightarrow> [] | Some d \<Rightarrow> [d]) (ac_credentials c)
           @ fm_flat (\<lambda>i x. case api_key_deprecation i x of None \<Rightarrow> [] | Some d \<Rightarrow> [d]) (ac_api_keys c)
           @ fm_flat (\<lambda>i x. case project_deprecation i x of None \<Rightarrow> [] | Some d \<Rightarrow> [d]) (ac_projects c)
           @ (if ac_secrets_cache_ttl c \<noteq> None \<or> ac_secrets_vault c \<noteq> None
              then [''config.yaml: the secrets block is deprecated and will be refused in a later release '' @ em_dash
                    @ '' declare a Vault as a `type: vault` credential (address, mount, env_vars: {token: <VAR>} or ''
                    @ ''kubernetes_role, cache_ttl_seconds) and name it with vault: on the credentials that read from it; ''
                    @ ''env and file credentials need no cache'']
              else []))"

section \<open>Settings that need a restart\<close>

record restart_only =
  ro_host :: string
  ro_port :: "16 word"
  ro_persistence_path :: "string option"
  ro_persistence_interval_seconds :: "nat option"
  ro_projects_dir :: string
  ro_config_api_enabled :: bool
  ro_ui_enabled :: bool
  ro_session_ttl_seconds :: nat
  ro_ui_assets_dir :: "string option"

definition restart_only_of :: "app_config \<Rightarrow> restart_only" where
  "restart_only_of c =
     \<lparr>ro_host = sv_host (ac_server c), ro_port = sv_port (ac_server c),
      ro_persistence_path = map_option pc_path (ac_persistence c),
      ro_persistence_interval_seconds = map_option pc_interval_seconds (ac_persistence c),
      ro_projects_dir = ac_projects_dir c, ro_config_api_enabled = ac_config_api_enabled c,
      ro_ui_enabled = ui_enabled (sv_ui (ac_server c)),
      ro_session_ttl_seconds = ui_session_ttl_seconds (sv_ui (ac_server c)),
      ro_ui_assets_dir = ui_assets_dir (sv_ui (ac_server c))\<rparr>"

definition changed_keys :: "restart_only \<Rightarrow> restart_only \<Rightarrow> string list" where
  "changed_keys a b =
     set_keys
       [(''server.host'', ro_host a \<noteq> ro_host b),
        (''server.port'', ro_port a \<noteq> ro_port b),
        (''cache.persistence'', ro_persistence_path a \<noteq> ro_persistence_path b
           \<or> ro_persistence_interval_seconds a \<noteq> ro_persistence_interval_seconds b),
        (''projects.dir'', ro_projects_dir a \<noteq> ro_projects_dir b),
        (''config_api.enabled'', ro_config_api_enabled a \<noteq> ro_config_api_enabled b),
        (''server.ui.enabled'', ro_ui_enabled a \<noteq> ro_ui_enabled b),
        (''server.ui.session_ttl_seconds'', ro_session_ttl_seconds a \<noteq> ro_session_ttl_seconds b),
        (''server.ui.assets_dir'', ro_ui_assets_dir a \<noteq> ro_ui_assets_dir b)]"

section \<open>What is checked\<close>

record config_env =
  cv_cron_error :: "string \<Rightarrow> string option"
  cv_is_file :: "string \<Rightarrow> bool"
  cv_delivery_id :: "string \<Rightarrow> string"
  cv_is_local_path :: "string \<Rightarrow> bool"

datatype config_error =
    Server_url string
  | Secrets_vault_timeout
  | Credential_rule credential_rule_error
  | Api_key_rule api_key_error
  | Enricher_targets_view string string
  | Enricher_unknown_target string string
  | Enricher_unknown_source string string
  | Enricher_needs_one string
  | Endpoint_needs_one string
  | Endpoint_sets_both string
  | Endpoint_ignores string string
  | Endpoint_unknown_setting string string "string option"
  | Endpoint_filter string filter_error
  | Endpoint_names_view string string
  | Endpoint_unknown_source string string
  | Endpoint_empty_limit string
  | Endpoint_limit_outside string string
  | View_is_a_source string
  | View_no_members string
  | View_nested string string
  | View_unknown_source string string
  | View_claims_nothing string string
  | View_twice string string
  | View_unknown_owner string string string
  | Unknown_credential string string
  | Vault_as_login string string
  | Same_delivery string "string list" string
  | One_login string nat string
  | Connector_unknown_project string string
  | Source_unknown_project string string
  | Hosts_from_not_ssh string
  | Hosts_from_itself string
  | Hosts_from_unknown string string
  | Hosts_from_and_hosts string
  | Empty_advertise_scope string
  | Bad_schedule string string string string
  | Two_cadences string string
  | Known_hosts_not_ssh string
  | Known_hosts_missing string string
  | Enricher_unknown_project string string
  | Endpoint_unknown_project string string
  | Key_unknown_source string string
  | Key_unknown_endpoint string string
  | Unknown_vault string string
  | Not_a_vault string string
  | No_vault string
  | Project_rule project_rule_error
  | Ldap_needs_ui
  | Ldap_plain string
  | Ldap_starttls
  | Ldap_scheme string
  | Ldap_unknown_credential string
  | Ldap_no_placeholder string
  | Ldap_no_access
  | Ldap_empty_rule string
  | Ldap_unknown_source string string
  | Ldap_unknown_endpoint string string
  | Home_not_local string
  | Assets_need_ui

definition is_vault :: "app_config \<Rightarrow> string \<Rightarrow> bool" where
  "is_vault c i = (case fmlookup (ac_credentials c) i of None \<Rightarrow> False | Some cr \<Rightarrow> cr_is_vault cr)"

definition err_if :: "bool \<Rightarrow> 'a \<Rightarrow> 'a list" where
  "err_if b x = (if b then [x] else [])"

lemma when_nil [simp]: "err_if b x = [] \<longleftrightarrow> \<not> b"
  by (simp add: err_if_def)

definition server_errors :: "app_config \<Rightarrow> config_error list" where
  "server_errors c =
     (case sv_url (ac_server c) of None \<Rightarrow> [] | Some url \<Rightarrow> err_if (\<not> web_address url) (Server_url url))
     @ err_if (ac_secrets_vault c = Some 0) Secrets_vault_timeout"

definition enricher_errors :: "app_config \<Rightarrow> string \<Rightarrow> enricher \<Rightarrow> config_error list" where
  "enricher_errors c i en =
     (if has (ac_views c) (en_target_id en) then [Enricher_targets_view i (en_target_id en)]
      else err_if (\<not> has (ac_sources c) (en_target_id en)) (Enricher_unknown_target i (en_target_id en)))
     @ (case en_source_id en of
          None \<Rightarrow> [] | Some s \<Rightarrow> err_if (\<not> has (ac_sources c) s) (Enricher_unknown_source i s))
     @ err_if (en_source_id en = None \<and> en_script_path en = None) (Enricher_needs_one i)"

text \<open>What only a script endpoint may set, and what a builtin's settings may be.\<close>

definition builtin_errors :: "string \<Rightarrow> endpoint \<Rightarrow> config_error list" where
  "builtin_errors i e =
     err_if (ep_project_id e \<noteq> None) (Endpoint_ignores i ''project'')
     @ err_if (ep_script_args e \<noteq> []) (Endpoint_ignores i ''script_args'')
     @ err_if (ep_timeout_seconds e \<noteq> None) (Endpoint_ignores i ''timeout_seconds'')
     @ map (\<lambda>key. Endpoint_unknown_setting i key (renamed_setting key))
         (filter (\<lambda>key. key \<notin> set BUILTIN_SETTINGS) (fm_keys (ep_config e)))
     @ (case parse_filter (case fmlookup (ep_config e) ''host'' of None \<Rightarrow> [] | Some v \<Rightarrow> v)
               (case fmlookup (ep_config e) ''filter'' of None \<Rightarrow> [] | Some v \<Rightarrow> v) of
          Inl err \<Rightarrow> [Endpoint_filter i err] | Inr _ \<Rightarrow> [])"

definition endpoint_source_errors :: "app_config \<Rightarrow> string \<Rightarrow> string \<Rightarrow> config_error list" where
  "endpoint_source_errors c i s =
     (if has (ac_views c) s then [Endpoint_names_view i s]
      else err_if (\<not> has (ac_sources c) s) (Endpoint_unknown_source i s))"

definition endpoint_errors :: "app_config \<Rightarrow> string \<Rightarrow> endpoint \<Rightarrow> config_error list" where
  "endpoint_errors c i e =
     (case (ep_output e \<noteq> None, ep_script_path e \<noteq> None) of
        (False, False) \<Rightarrow> [Endpoint_needs_one i]
      | (True, True) \<Rightarrow> [Endpoint_sets_both i]
      | _ \<Rightarrow> [])
     @ (if ep_output e \<noteq> None then builtin_errors i e else [])
     @ concat (map (endpoint_source_errors c i) (ep_source_ids e))
     @ (case ep_limit e of
          None \<Rightarrow> []
        | Some l \<Rightarrow>
            err_if (limit_is_empty l) (Endpoint_empty_limit i)
            @ (case by_hosts_from_inventory l of
                 None \<Rightarrow> []
               | Some from \<Rightarrow> err_if (from \<notin> set (ep_source_ids e)) (Endpoint_limit_outside i from)))"

definition claims_nothing :: "app_config \<Rightarrow> view_member \<Rightarrow> bool" where
  "claims_nothing c m \<longleftrightarrow>
     (let src = fmlookup (ac_sources c) (vm_source m);
          is_remote = (case src of None \<Rightarrow> False | Some s \<Rightarrow> s_connector_type s = CT_remote);
          has_claim = (case src of None \<Rightarrow> False | Some s \<Rightarrow> source_advertised_scope s \<noteq> None);
          has_fallback = (ow_groups (vm_owns m) \<noteq> [] \<or> ow_hosts (vm_owns m) \<noteq> [])
      in ow_advertised (vm_owns m) \<and> \<not> is_remote \<and> \<not> has_claim \<and> \<not> has_fallback)"

fun member_errors :: "app_config \<Rightarrow> string \<Rightarrow> string set \<Rightarrow> view_member list \<Rightarrow> config_error list" where
  "member_errors c i seen [] = []"
| "member_errors c i seen (m # ms) =
     (if has (ac_views c) (vm_source m) then [View_nested i (vm_source m)]
      else err_if (\<not> has (ac_sources c) (vm_source m)) (View_unknown_source i (vm_source m)))
     @ err_if (claims_nothing c m) (View_claims_nothing i (vm_source m))
     @ err_if (vm_source m \<in> seen) (View_twice i (vm_source m))
     @ err_if (\<not> has (ac_sources c) (ow_source (vm_owns m))) (View_unknown_owner i (vm_source m) (ow_source (vm_owns m)))
     @ member_errors c i (insert (vm_source m) seen) ms"

definition view_errors :: "app_config \<Rightarrow> string \<Rightarrow> view \<Rightarrow> config_error list" where
  "view_errors c i v =
     err_if (has (ac_sources c) i) (View_is_a_source i)
     @ err_if (v_members v = []) (View_no_members i)
     @ member_errors c i {} (v_members v)"

definition source_credential_error :: "app_config \<Rightarrow> string \<Rightarrow> string \<Rightarrow> config_error list" where
  "source_credential_error c who cred =
     (if \<not> has (ac_credentials c) cred then [Unknown_credential who cred]
      else err_if (is_vault c cred) (Vault_as_login who cred))"

text \<open>Credentials delivered under one name, by that name.\<close>

definition delivery_clashes :: "(string \<Rightarrow> string) \<Rightarrow> string list \<Rightarrow> (string \<times> string list) list" where
  "delivery_clashes delivery_id creds =
     filter (\<lambda>(_, ids). 1 < card (set ids))
       (map (\<lambda>d. (d, filter (\<lambda>cr. delivery_id cr = d) creds)) (sort_dedup (map delivery_id creds)))"

definition source_credential_errors :: "config_env \<Rightarrow> app_config \<Rightarrow> string \<Rightarrow> source \<Rightarrow> config_error list" where
  "source_credential_errors env c i s =
     concat (map (source_credential_error c (''Source '' @ quoted i)) (s_credential_ids s))
     @ map (\<lambda>(d, ids). Same_delivery i ids d) (delivery_clashes (cv_delivery_id env) (s_credential_ids s))
     @ err_if (1 < card (set (s_credential_ids s)) \<and> (s_connector_type s = CT_ssh \<or> s_connector_type s = CT_remote))
         (One_login i (card (set (s_credential_ids s))) (if s_connector_type s = CT_ssh then ''ssh'' else ''remote''))"

definition unknown_project :: "app_config \<Rightarrow> (string \<Rightarrow> string \<Rightarrow> config_error) \<Rightarrow> string \<Rightarrow> string option \<Rightarrow> config_error list" where
  "unknown_project c err i p =
     (case p of None \<Rightarrow> [] | Some p \<Rightarrow> err_if (\<not> has (ac_projects c) p) (err i p))"

definition hosts_from_errors :: "app_config \<Rightarrow> string \<Rightarrow> source \<Rightarrow> config_error list" where
  "hosts_from_errors c i s =
     (case s_hosts_from_source s of
        None \<Rightarrow> []
      | Some hfs \<Rightarrow>
          err_if (s_connector_type s \<noteq> CT_ssh) (Hosts_from_not_ssh i)
          @ (if hfs_source hfs = i then [Hosts_from_itself i]
             else err_if (\<not> has (ac_sources c) (hfs_source hfs)) (Hosts_from_unknown i (hfs_source hfs)))
          @ err_if (has (s_config s) ''hosts'') (Hosts_from_and_hosts i))"

definition advertise_errors :: "string \<Rightarrow> source \<Rightarrow> config_error list" where
  "advertise_errors i s =
     (case s_advertise_scope s of
        None \<Rightarrow> [] | Some a \<Rightarrow> err_if (as_groups a = [] \<and> as_hosts a = []) (Empty_advertise_scope i))"

definition cadence_errors :: "config_env \<Rightarrow> string \<Rightarrow> string \<Rightarrow> string option \<Rightarrow> nat option \<Rightarrow> config_error list" where
  "cadence_errors env kind i schedule interval =
     (case schedule of
        None \<Rightarrow> []
      | Some expression \<Rightarrow>
          (case cv_cron_error env expression of None \<Rightarrow> [] | Some e \<Rightarrow> [Bad_schedule kind i expression e])
          @ err_if (case interval of None \<Rightarrow> False | Some secs \<Rightarrow> 0 < secs) (Two_cadences kind i))"

definition known_hosts_errors :: "config_env \<Rightarrow> string \<Rightarrow> source \<Rightarrow> config_error list" where
  "known_hosts_errors env i s =
     (case fmlookup (s_config s) ''ssh_known_hosts'' of
        None \<Rightarrow> []
      | Some path \<Rightarrow>
          if s_connector_type s \<noteq> CT_ssh then [Known_hosts_not_ssh i]
          else err_if (\<not> cv_is_file env path) (Known_hosts_missing i path))"

definition api_key_reference_errors :: "app_config \<Rightarrow> string \<Rightarrow> api_key_def \<Rightarrow> config_error list" where
  "api_key_reference_errors c i k =
     (if ak_role k = Restricted_role
      then concat (map (\<lambda>s. err_if (\<not> has (ac_sources c) s \<and> \<not> has (ac_views c) s) (Key_unknown_source i s)) (ak_sources k))
           @ concat (map (\<lambda>e. err_if (\<not> has (ac_endpoints c) e) (Key_unknown_endpoint i e)) (ak_endpoints k))
      else [])"

definition vault_reference_errors :: "app_config \<Rightarrow> string \<Rightarrow> credential \<Rightarrow> config_error list" where
  "vault_reference_errors c i cr =
     (if cr_vault_path cr = None then []
      else
        (case cr_vault cr of
           Some v \<Rightarrow>
             if \<not> has (ac_credentials c) v then [Unknown_vault i v]
             else err_if (\<not> is_vault c v) (Not_a_vault i v)
         | None \<Rightarrow> err_if (ac_secrets_vault c = None) (No_vault i)))"

definition project_reference_errors :: "app_config \<Rightarrow> string \<Rightarrow> git_project \<Rightarrow> config_error list" where
  "project_reference_errors c i p =
     map Project_rule (project_errors i p)
     @ (case credential_id p of
          None \<Rightarrow> [] | Some cred \<Rightarrow> source_credential_error c (''Project '' @ quoted i) cred)"

definition access_rule_errors :: "app_config \<Rightarrow> access_rule \<Rightarrow> config_error list" where
  "access_rule_errors c r =
     err_if (ar_groups r = [] \<and> ar_users r = []) (Ldap_empty_rule (ar_name r))
     @ concat (map (\<lambda>s. err_if (\<not> has (ac_sources c) s \<and> \<not> has (ac_views c) s) (Ldap_unknown_source (ar_name r) s)) (ar_sources r))
     @ concat (map (\<lambda>e. err_if (\<not> has (ac_endpoints c) e) (Ldap_unknown_endpoint (ar_name r) e)) (ar_endpoints r))"

definition ldap_errors :: "app_config \<Rightarrow> ldap_config \<Rightarrow> config_error list" where
  "ldap_errors c l =
     (let url = to_lowercase (ld_url l)
      in err_if (\<not> ui_enabled (sv_ui (ac_server c))) Ldap_needs_ui
         @ (if starts_with url ''ldap://'' then err_if (\<not> ld_starttls l) (Ldap_plain (ld_url l))
            else if starts_with url ''ldaps://'' then err_if (ld_starttls l) Ldap_starttls
            else [Ldap_scheme (ld_url l)])
         @ (if \<not> has (ac_credentials c) (ld_bind_credential l) then [Ldap_unknown_credential (ld_bind_credential l)]
            else err_if (is_vault c (ld_bind_credential l)) (Vault_as_login ''server.ui.ldap.bind_credential'' (ld_bind_credential l)))
         @ err_if (\<not> str_contains (ld_user_filter l) ''{username}'') (Ldap_no_placeholder (ld_user_filter l))
         @ err_if (ld_access l = []) Ldap_no_access
         @ concat (map (access_rule_errors c) (ld_access l)))"

definition ui_errors :: "config_env \<Rightarrow> app_config \<Rightarrow> config_error list" where
  "ui_errors env c =
     (let ui = sv_ui (ac_server c)
      in (case ui_ldap ui of None \<Rightarrow> [] | Some l \<Rightarrow> ldap_errors c l)
         @ (case ui_home ui of None \<Rightarrow> [] | Some home \<Rightarrow> err_if (\<not> cv_is_local_path env home) (Home_not_local home))
         @ err_if (ui_assets_dir ui \<noteq> None \<and> \<not> ui_enabled ui) Assets_need_ui)"

definition validate_errors :: "config_env \<Rightarrow> app_config \<Rightarrow> config_error list" where
  "validate_errors env c =
     server_errors c
     @ fm_flat (\<lambda>i x. map Credential_rule (credential_errors i x)) (ac_credentials c)
     @ fm_flat (\<lambda>i x. map Api_key_rule (api_key_errors i x)) (ac_api_keys c)
     @ fm_flat (enricher_errors c) (ac_enrichers c)
     @ fm_flat (endpoint_errors c) (ac_endpoints c)
     @ fm_flat (view_errors c) (ac_views c)
     @ fm_flat (source_credential_errors env c) (ac_sources c)
     @ fm_flat (\<lambda>i x. unknown_project c Connector_unknown_project i (c_project x)) (ac_connectors c)
     @ fm_flat (\<lambda>i s. if s_connector_type s = CT_static_inventory
                     then unknown_project c Source_unknown_project i (s_project_id s) else []) (ac_sources c)
     @ fm_flat (hosts_from_errors c) (ac_sources c)
     @ fm_flat advertise_errors (ac_sources c)
     @ fm_flat (\<lambda>i s. cadence_errors env ''Source'' i (s_schedule s) (s_sync_interval_seconds s)) (ac_sources c)
     @ fm_flat (\<lambda>i e. cadence_errors env ''Enricher'' i (en_schedule e) (en_sync_interval_seconds e)) (ac_enrichers c)
     @ fm_flat (\<lambda>i p. cadence_errors env ''Project'' i (gp_schedule p) (gp_sync_interval_seconds p)) (ac_projects c)
     @ fm_flat (known_hosts_errors env) (ac_sources c)
     @ fm_flat (\<lambda>i e. unknown_project c Enricher_unknown_project i (en_project_id e)) (ac_enrichers c)
     @ fm_flat (\<lambda>i e. unknown_project c Endpoint_unknown_project i (ep_project_id e)) (ac_endpoints c)
     @ fm_flat (api_key_reference_errors c) (ac_api_keys c)
     @ fm_flat (vault_reference_errors c) (ac_credentials c)
     @ fm_flat (project_reference_errors c) (ac_projects c)
     @ ui_errors env c"

definition validate :: "config_env \<Rightarrow> app_config \<Rightarrow> config_error list + unit" where
  "validate env c = (if validate_errors env c = [] then Inr () else Inl (validate_errors env c))"

section \<open>Restart-only settings\<close>

text \<open>
  A reload names a setting exactly when it cannot apply it: two configurations agree on every
  restart-only setting exactly when no key is named, and a named key is one whose value differs.
\<close>

theorem changed_keys_exact:
  "(changed_keys a b = [] \<longleftrightarrow> a = b)
   \<and> distinct (changed_keys a b)
   \<and> (''cache.persistence'' \<in> set (changed_keys (restart_only_of c) (restart_only_of c')) \<longleftrightarrow> ac_persistence c \<noteq> ac_persistence c')"
proof (intro conjI)
  show "changed_keys a b = [] \<longleftrightarrow> a = b"
    by (cases a; cases b) (auto simp: changed_keys_def set_keys_nil)
  show "distinct (changed_keys a b)"
    unfolding changed_keys_def set_keys_def by (rule distinct_map_filter) simp
  show "''cache.persistence'' \<in> set (changed_keys (restart_only_of c) (restart_only_of c')) \<longleftrightarrow> ac_persistence c \<noteq> ac_persistence c'"
    by (cases "ac_persistence c"; cases "ac_persistence c'")
      (auto simp: changed_keys_def set_keys_def restart_only_of_def persistence_config.equality)
qed

section \<open>What an accepted configuration names is there\<close>

definition accepted :: "config_env \<Rightarrow> app_config \<Rightarrow> bool" where
  "accepted env c \<longleftrightarrow> validate env c = Inr ()"

lemma accepted_iff: "accepted env c \<longleftrightarrow> validate_errors env c = []"
  by (simp add: accepted_def validate_def)

lemmas accepted_parts = accepted_iff validate_errors_def append_is_Nil_conv fm_flat_nil map_is_Nil_conv

lemma accepted_enricher:
  "accepted env c \<Longrightarrow> fmlookup (ac_enrichers c) i = Some en \<Longrightarrow>
     enricher_errors c i en = [] \<and> cadence_errors env ''Enricher'' i (en_schedule en) (en_sync_interval_seconds en) = []
     \<and> unknown_project c Enricher_unknown_project i (en_project_id en) = []"
  unfolding accepted_parts by simp

lemma accepted_endpoint:
  "accepted env c \<Longrightarrow> fmlookup (ac_endpoints c) i = Some e \<Longrightarrow>
     endpoint_errors c i e = [] \<and> unknown_project c Endpoint_unknown_project i (ep_project_id e) = []"
  unfolding accepted_parts by simp

lemma accepted_view: "accepted env c \<Longrightarrow> fmlookup (ac_views c) i = Some v \<Longrightarrow> view_errors c i v = []"
  unfolding accepted_parts by simp

lemma accepted_source:
  "accepted env c \<Longrightarrow> fmlookup (ac_sources c) i = Some s \<Longrightarrow>
     source_credential_errors env c i s = [] \<and> hosts_from_errors c i s = [] \<and> advertise_errors i s = []
     \<and> cadence_errors env ''Source'' i (s_schedule s) (s_sync_interval_seconds s) = []
     \<and> known_hosts_errors env i s = []
     \<and> (s_connector_type s = CT_static_inventory \<longrightarrow> unknown_project c Source_unknown_project i (s_project_id s) = [])"
  unfolding accepted_parts by (auto split: if_splits)

lemma accepted_others:
  "accepted env c \<Longrightarrow> fmlookup (ac_connectors c) i = Some x \<Longrightarrow> unknown_project c Connector_unknown_project i (c_project x) = []"
  "accepted env c \<Longrightarrow> fmlookup (ac_api_keys c) i = Some k \<Longrightarrow> api_key_reference_errors c i k = [] \<and> api_key_errors i k = []"
  "accepted env c \<Longrightarrow> fmlookup (ac_credentials c) i = Some cr \<Longrightarrow> vault_reference_errors c i cr = [] \<and> credential_errors i cr = []"
  "accepted env c \<Longrightarrow> fmlookup (ac_projects c) i = Some p \<Longrightarrow> project_reference_errors c i p = []"
  "accepted env c \<Longrightarrow> ui_errors env c = []"
  unfolding accepted_parts by simp_all

lemma unknown_project_nil: "unknown_project c err i p = [] \<longleftrightarrow> (\<forall>q. p = Some q \<longrightarrow> has (ac_projects c) q)"
  by (simp add: unknown_project_def split: option.split)

lemma source_credential_error_nil:
  "source_credential_error c who cred = [] \<longleftrightarrow> has (ac_credentials c) cred \<and> \<not> is_vault c cred"
  by (simp add: source_credential_error_def)

lemma member_errors_nil:
  "member_errors c i seen ms = [] \<longleftrightarrow>
     (\<forall>m \<in> set ms. \<not> has (ac_views c) (vm_source m) \<and> has (ac_sources c) (vm_source m)
        \<and> has (ac_sources c) (ow_source (vm_owns m)) \<and> \<not> claims_nothing c m)
     \<and> distinct (map vm_source ms) \<and> seen \<inter> vm_source ` set ms = {}"
  by (induction ms arbitrary: seen) auto

section \<open>References\<close>

text \<open>Which ids an item of a configuration names, and where each must be.\<close>

definition is_source :: "app_config \<Rightarrow> string \<Rightarrow> bool" where
  "is_source c i \<longleftrightarrow> has (ac_sources c) i \<and> \<not> has (ac_views c) i"

definition is_login :: "app_config \<Rightarrow> string \<Rightarrow> bool" where
  "is_login c i \<longleftrightarrow> has (ac_credentials c) i \<and> \<not> is_vault c i"

lemma accepted_view_no_source:
  assumes "accepted env c" "has (ac_sources c) i"
  shows "\<not> has (ac_views c) i"
  using accepted_view [OF assms(1), of i] assms(2) by (cases "fmlookup (ac_views c) i") (auto simp: view_errors_def)

lemma endpoint_source_errors_nil: "endpoint_source_errors c i s = [] \<longleftrightarrow> is_source c s"
  by (auto simp: endpoint_source_errors_def is_source_def)

lemma endpoint_errors_nil:
  "endpoint_errors c i e = [] \<longleftrightarrow>
     (ep_output e = None \<longleftrightarrow> ep_script_path e \<noteq> None)
     \<and> (ep_output e \<noteq> None \<longrightarrow> builtin_errors i e = [])
     \<and> (\<forall>s \<in> set (ep_source_ids e). is_source c s)
     \<and> (\<forall>l. ep_limit e = Some l \<longrightarrow> (\<exists>from \<in> set (ep_source_ids e). by_hosts_from_inventory l = Some from))"
  by (cases "ep_output e"; cases "ep_script_path e"; cases "ep_limit e")
    (auto simp: endpoint_errors_def endpoint_source_errors_nil limit_is_empty_def split: option.splits)

text \<open>
  C9. In an accepted configuration nothing refers to what is not there: enrichers, endpoints, view
  members, view owners and host lists name sources and never views, every project named is defined,
  sources and projects log in with credentials that exist and are no Vaults, a credential that reads
  from a Vault names one, restricted keys and directory rules grant only ids that exist, no source has the id
  of a view and no source takes its hosts from itself.
\<close>

theorem accepted_references_exist:
  assumes "accepted env c"
  shows "(\<forall>i en. fmlookup (ac_enrichers c) i = Some en \<longrightarrow>
        is_source c (en_target_id en) \<and> (\<forall>s. en_source_id en = Some s \<longrightarrow> is_source c s)
        \<and> (\<forall>p. en_project_id en = Some p \<longrightarrow> has (ac_projects c) p))
    \<and> (\<forall>i e. fmlookup (ac_endpoints c) i = Some e \<longrightarrow>
        (\<forall>s \<in> set (ep_source_ids e). is_source c s) \<and> (\<forall>p. ep_project_id e = Some p \<longrightarrow> has (ac_projects c) p)
        \<and> (\<forall>l from. ep_limit e = Some l \<and> by_hosts_from_inventory l = Some from \<longrightarrow> from \<in> set (ep_source_ids e)))
    \<and> (\<forall>i v. fmlookup (ac_views c) i = Some v \<longrightarrow>
        \<not> has (ac_sources c) i
        \<and> (\<forall>m \<in> set (v_members v). is_source c (vm_source m) \<and> is_source c (ow_source (vm_owns m))))
    \<and> (\<forall>i s. fmlookup (ac_sources c) i = Some s \<longrightarrow>
        (\<forall>cred \<in> set (s_credential_ids s). is_login c cred)
        \<and> (\<forall>hfs. s_hosts_from_source s = Some hfs \<longrightarrow> hfs_source hfs \<noteq> i \<and> is_source c (hfs_source hfs))
        \<and> (\<forall>p. s_connector_type s = CT_static_inventory \<and> s_project_id s = Some p \<longrightarrow> has (ac_projects c) p))
    \<and> (\<forall>i x p. fmlookup (ac_connectors c) i = Some x \<and> c_project x = Some p \<longrightarrow> has (ac_projects c) p)
    \<and> (\<forall>i p cred. fmlookup (ac_projects c) i = Some p \<and> credential_id p = Some cred \<longrightarrow> is_login c cred)
    \<and> (\<forall>i cr v. fmlookup (ac_credentials c) i = Some cr \<and> cr_vault_path cr \<noteq> None \<and> cr_vault cr = Some v \<longrightarrow>
        has (ac_credentials c) v \<and> is_vault c v)
    \<and> (\<forall>i k. fmlookup (ac_api_keys c) i = Some k \<and> ak_role k = Restricted_role \<longrightarrow>
        (\<forall>s \<in> set (ak_sources k). has (ac_sources c) s \<or> has (ac_views c) s)
        \<and> (\<forall>e \<in> set (ak_endpoints k). has (ac_endpoints c) e))
    \<and> (\<forall>l. ui_ldap (sv_ui (ac_server c)) = Some l \<longrightarrow>
        is_login c (ld_bind_credential l)
        \<and> (\<forall>r \<in> set (ld_access l). (\<forall>s \<in> set (ar_sources r). has (ac_sources c) s \<or> has (ac_views c) s)
             \<and> (\<forall>e \<in> set (ar_endpoints r). has (ac_endpoints c) e)))"
proof (intro conjI allI impI)
  note no_view = accepted_view_no_source [OF assms]
  fix i en assume en: "fmlookup (ac_enrichers c) i = Some en"
  note e = accepted_enricher [OF assms en, unfolded enricher_errors_def]
  from e show "is_source c (en_target_id en)" by (auto simp: is_source_def split: if_splits)
  from e show "has (ac_projects c) p" if "en_project_id en = Some p" for p using that by (simp add: unknown_project_nil)
  from e no_view show "is_source c s" if "en_source_id en = Some s" for s using that by (auto simp: is_source_def)
next
  fix i e assume ep: "fmlookup (ac_endpoints c) i = Some e"
  note e = accepted_endpoint [OF assms ep, unfolded endpoint_errors_nil]
  from e show "\<forall>s \<in> set (ep_source_ids e). is_source c s" by blast
  from e show "has (ac_projects c) p" if "ep_project_id e = Some p" for p using that by (simp add: unknown_project_nil)
  from e show "from' \<in> set (ep_source_ids e)" if "ep_limit e = Some l \<and> by_hosts_from_inventory l = Some from'" for l from'
    using that by fastforce
next
  note no_view = accepted_view_no_source [OF assms]
  fix i v assume v: "fmlookup (ac_views c) i = Some v"
  note e = accepted_view [OF assms v, unfolded view_errors_def, simplified, unfolded member_errors_nil]
  from e show "\<not> has (ac_sources c) i" by simp
  from e no_view show "\<forall>m \<in> set (v_members v). is_source c (vm_source m) \<and> is_source c (ow_source (vm_owns m))"
    by (auto simp: is_source_def)
next
  note no_view = accepted_view_no_source [OF assms]
  fix i s assume s: "fmlookup (ac_sources c) i = Some s"
  note e = accepted_source [OF assms s]
  from e show "\<forall>cred \<in> set (s_credential_ids s). is_login c cred"
    by (auto simp: source_credential_errors_def source_credential_error_nil is_login_def)
  from e show "hfs_source hfs \<noteq> i" if "s_hosts_from_source s = Some hfs" for hfs
    using that by (auto simp: hosts_from_errors_def split: if_splits)
  from e no_view show "is_source c (hfs_source hfs)" if "s_hosts_from_source s = Some hfs" for hfs
    using that by (auto simp: hosts_from_errors_def is_source_def split: if_splits)
  from e show "has (ac_projects c) p" if "s_connector_type s = CT_static_inventory \<and> s_project_id s = Some p" for p
    using that by (simp add: unknown_project_nil)
next
  fix i x p assume "fmlookup (ac_connectors c) i = Some x \<and> c_project x = Some p"
  then show "has (ac_projects c) p" using accepted_others(1) [OF assms] by (auto simp: unknown_project_nil)
next
  fix i p cred assume "fmlookup (ac_projects c) i = Some p \<and> credential_id p = Some cred"
  then show "is_login c cred"
    using accepted_others(4) [OF assms] by (force simp: project_reference_errors_def source_credential_error_nil is_login_def)
next
  fix i cr v assume "fmlookup (ac_credentials c) i = Some cr \<and> cr_vault_path cr \<noteq> None \<and> cr_vault cr = Some v"
  then have "vault_reference_errors c i cr = []" "cr_vault_path cr \<noteq> None" "cr_vault cr = Some v"
    using accepted_others(3) [OF assms] by auto
  then show "has (ac_credentials c) v" "is_vault c v" by (auto simp: vault_reference_errors_def split: if_splits)
next
  fix i k assume "fmlookup (ac_api_keys c) i = Some k \<and> ak_role k = Restricted_role"
  then have "api_key_reference_errors c i k = []" "ak_role k = Restricted_role"
    using accepted_others(2) [OF assms] by auto
  then show "\<forall>s \<in> set (ak_sources k). has (ac_sources c) s \<or> has (ac_views c) s" "\<forall>e \<in> set (ak_endpoints k). has (ac_endpoints c) e"
    by (auto simp: api_key_reference_errors_def)
next
  fix l assume "ui_ldap (sv_ui (ac_server c)) = Some l"
  then have e: "ldap_errors c l = []" using accepted_others(5) [OF assms] by (simp add: ui_errors_def Let_def)
  from e show "is_login c (ld_bind_credential l)"
    by (auto simp: ldap_errors_def Let_def is_login_def split: if_splits)
  from e show "\<forall>r \<in> set (ld_access l). (\<forall>s \<in> set (ar_sources r). has (ac_sources c) s \<or> has (ac_views c) s)
             \<and> (\<forall>e \<in> set (ar_endpoints r). has (ac_endpoints c) e)"
    by (auto simp: ldap_errors_def Let_def access_rule_errors_def)
qed

section \<open>An accepted configuration\<close>

definition sample_config :: app_config where
  "sample_config =
     \<lparr>ac_server = \<lparr>sv_host = ''0.0.0.0'', sv_port = 8000,
        sv_ui = \<lparr>ui_enabled = False, ui_session_ttl_seconds = 3600, ui_ldap = None, ui_home = None, ui_assets_dir = None\<rparr>,
        sv_cors_allowed_origins = [], sv_readyz_require_all_sources = False, sv_metrics_require_auth = False,
        sv_refresh_timeout_seconds = 15, sv_refresh_max_concurrent = 8, sv_shutdown_grace_seconds = 20,
        sv_max_body_bytes = 2097152, sv_url = None, sv_name = None\<rparr>,
      ac_persistence = None, ac_projects_dir = ''projects'', ac_secrets_cache_ttl = None, ac_secrets_vault = None, ac_secrets_other = [],
      ac_config_api_enabled = False, ac_credentials = fmempty,
      ac_sources = fmap_of_list [(''vm'', \<lparr>s_name = ''VM'', s_connector = ''vmware'', s_connector_type = CT_script,
        s_ssh_location = None, s_project_id = None, s_script_path = ''fetch.py'', s_script_args = [], s_host_args = [],
        s_timeout_seconds = 300, s_host_sync_updates_group_vars = False, s_sync_mode = Mode_replace, s_credential_ids = [],
        s_schedule = None, s_sync_interval_seconds = Some 600, s_ttl_seconds = 3600,
        s_ttl_overrides = \<lparr>to_groups = fmempty, to_hosts = fmempty\<rparr>, s_hosts_from_source = None,
        s_allow_on_demand_refresh = True, s_advertise_scope = None, s_config = fmempty\<rparr>)],
      ac_connectors = fmempty, ac_hosts = fmempty, ac_groups = fmempty,
      ac_views = fmap_of_list [(''all'', \<lparr>v_name = ''All'', v_members =
        [\<lparr>vm_source = ''vm'', vm_owns = \<lparr>ow_source = ''vm'', ow_groups = [''web''], ow_hosts = [], ow_advertised = True\<rparr>\<rparr>],
        v_ttl_seconds = None\<rparr>)],
      ac_enrichers = fmempty, ac_projects = fmempty,
      ac_endpoints = fmap_of_list [(''awx'', \<lparr>ep_name = ''AWX'', ep_source_ids = [''vm''], ep_output = Some Ansible,
        ep_script_path = None, ep_script_args = [], ep_project_id = None,
        ep_config = fmap_of_list [(''filter'', ''os=linux'')],
        ep_limit = Some \<lparr>by_hosts_from_inventory = Some ''vm''\<rparr>, ep_timeout_seconds = None\<rparr>)],
      ac_api_keys = fmempty\<rparr>"

definition sample_config_env :: config_env where
  "sample_config_env = \<lparr>cv_cron_error = (\<lambda>_. None), cv_is_file = (\<lambda>_. True), cv_delivery_id = (\<lambda>i. i), cv_is_local_path = (\<lambda>_. True)\<rparr>"

lemma builtin_errors_nil:
  "builtin_errors i e = [] \<longleftrightarrow>
     ep_project_id e = None \<and> ep_script_args e = [] \<and> ep_timeout_seconds e = None
     \<and> fmdom' (ep_config e) \<subseteq> set BUILTIN_SETTINGS
     \<and> (\<exists>f. parse_filter (case fmlookup (ep_config e) ''host'' of None \<Rightarrow> [] | Some v \<Rightarrow> v)
               (case fmlookup (ep_config e) ''filter'' of None \<Rightarrow> [] | Some v \<Rightarrow> v) = Inr f)"
  by (auto simp: builtin_errors_def filter_empty_conv split: sum.splits)

lemma fm_flat_empty [simp]: "fm_flat f fmempty = []"
  by (simp add: fm_flat_def fm_keys_def)

lemma fm_flat_one [simp]: "fm_flat f (fmap_of_list [(k, v)]) = f k v"
  by (simp add: fm_flat_def fm_keys_def)

lemma sample_accepted: "accepted sample_config_env sample_config"
proof -
  have "parse_filter [] ''os=linux'' = Inr \<lparr>hf_patterns = [], hf_conditions = [\<lparr>cd_key = ''os'', cd_op = Eq, cd_value = ''linux''\<rparr>]\<rparr>"
    by code_simp
  then show ?thesis
    unfolding accepted_iff validate_errors_def append_is_Nil_conv sample_config_def app_config.simps endpoint.simps
      fm_flat_empty fm_flat_one
    by (intro conjI)
      (simp_all add: server_errors_def view_errors_def member_errors_nil claims_nothing_def source_credential_errors_def
        delivery_clashes_def sort_dedup_def hosts_from_errors_def advertise_errors_def cadence_errors_def known_hosts_errors_def
        unknown_project_def endpoint_errors_nil builtin_errors_nil is_source_def ui_errors_def Let_def BUILTIN_SETTINGS_def
        fmlookup_of_list)
qed

theorem accepted_references_exist_witness:
  "is_source sample_config ''vm'' \<and> \<not> has (ac_sources sample_config) ''all''"
proof -
  have e: "\<exists>e. fmlookup (ac_endpoints sample_config) ''awx'' = Some e \<and> ep_source_ids e = [''vm'']"
    and v: "\<exists>v. fmlookup (ac_views sample_config) ''all'' = Some v"
    by (simp_all add: sample_config_def)
  from accepted_references_exist [OF sample_accepted] e v show ?thesis by fastforce
qed

section \<open>Endpoints of an accepted configuration\<close>

text \<open>
  An endpoint of an accepted configuration works as it is written: it has exactly one
  transformer; a builtin's settings are all ones it reads and a call without parameters is accepted and
  renders what its filter matches, never the empty answer of a filter that does not parse; and
  once the sources it names have data, its limit is the hosts of one of them.
\<close>

theorem accepted_endpoint_renders:
  assumes "accepted env c" and "fmlookup (ac_endpoints c) i = Some e"
  shows "(ep_output e = None \<longleftrightarrow> ep_script_path e \<noteq> None)
    \<and> (ep_output e \<noteq> None \<longrightarrow>
        fmdom' (ep_config e) \<subseteq> set BUILTIN_SETTINGS
        \<and> check_params (ep_config e) (JObj fmempty) = Inr ()
        \<and> (\<exists>f. \<forall>ds h. fmlookup (fst (merge_and_filter number show_json ds (ep_config e) (JObj fmempty))) h =
             (case fmlookup (merged_hosts ds) h of
                None \<Rightarrow> None
              | Some vars \<Rightarrow>
                  if (setting (JObj fmempty) (ep_config e) ''group'' = []
                        \<or> h \<in> in_groups (merged_groups ds) (csv_items (setting (JObj fmempty) (ep_config e) ''group'')))
                     \<and> filter_matches number show_json f h vars
                  then Some (select_host (out_select (ep_config e) (JObj fmempty)) vars) else None)))
    \<and> (\<forall>l ds. ep_limit e = Some l \<and> (\<forall>s \<in> set (ep_source_ids e). has ds s) \<longrightarrow>
        (\<exists>from d. from \<in> set (ep_source_ids e) \<and> fmlookup ds from = Some d
           \<and> apply_limit ds l = fmmap (limit_dataset (fmdom' (hostvars d))) ds))"
proof (intro conjI impI allI)
  note e = accepted_endpoint [OF assms, unfolded endpoint_errors_nil]
  from e show "ep_output e = None \<longleftrightarrow> ep_script_path e \<noteq> None" by blast
  have set: "setting (JObj fmempty) (ep_config e) key = (case fmlookup (ep_config e) key of None \<Rightarrow> [] | Some v \<Rightarrow> v)" for key
    by (simp add: setting_def param_def)
  {
    assume out: "ep_output e \<noteq> None"
    with e have b: "builtin_errors i e = []" by blast
    then show "fmdom' (ep_config e) \<subseteq> set BUILTIN_SETTINGS" by (simp add: builtin_errors_nil)
    from b obtain f where "parse_filter (case fmlookup (ep_config e) ''host'' of None \<Rightarrow> [] | Some v \<Rightarrow> v)
               (case fmlookup (ep_config e) ''filter'' of None \<Rightarrow> [] | Some v \<Rightarrow> v) = Inr f"
      by (auto simp: builtin_errors_nil)
    then have f: "request_filter (ep_config e) (JObj fmempty) = Inr f"
      by (simp add: request_filter_def param_def set)
    then show "check_params (ep_config e) (JObj fmempty) = Inr ()"
      by (simp add: check_params_def fm_keys_def List.map_filter_simps)
    from f selection_exact' [of number show_json _ "ep_config e" "JObj fmempty"]
    show "\<exists>f. \<forall>ds h. fmlookup (fst (merge_and_filter number show_json ds (ep_config e) (JObj fmempty))) h =
             (case fmlookup (merged_hosts ds) h of
                None \<Rightarrow> None
              | Some vars \<Rightarrow>
                  if (setting (JObj fmempty) (ep_config e) ''group'' = []
                        \<or> h \<in> in_groups (merged_groups ds) (csv_items (setting (JObj fmempty) (ep_config e) ''group'')))
                     \<and> filter_matches number show_json f h vars
                  then Some (select_host (out_select (ep_config e) (JObj fmempty)) vars) else None)"
      unfolding in_groups_iff [symmetric] by (intro exI [of _ f]) simp
  }
  fix l and ds :: datasets assume "ep_limit e = Some l \<and> (\<forall>s \<in> set (ep_source_ids e). has ds s)"
  with e obtain s where s: "s \<in> set (ep_source_ids e)" "by_hosts_from_inventory l = Some s" "has ds s" by blast
  then obtain d where "fmlookup ds s = Some d" by auto
  with s show "\<exists>from d. from \<in> set (ep_source_ids e) \<and> fmlookup ds from = Some d
           \<and> apply_limit ds l = fmmap (limit_dataset (fmdom' (hostvars d))) ds"
    by (intro exI [of _ s] exI [of _ d]) (simp add: apply_limit_def limit_hosts_def)
qed

theorem accepted_endpoint_renders_witness:
  "\<exists>e. fmlookup (ac_endpoints sample_config) ''awx'' = Some e \<and> check_params (ep_config e) (JObj fmempty) = Inr ()"
proof -
  obtain e where e: "fmlookup (ac_endpoints sample_config) ''awx'' = Some e" "ep_output e \<noteq> None"
    by (simp add: sample_config_def)
  with accepted_endpoint_renders [OF sample_accepted e(1), of "\<lambda>_. None :: nat option" "\<lambda>_. []"] show ?thesis by blast
qed

section \<open>Views of an accepted configuration\<close>

text \<open>
  In a view of an accepted configuration every member can serve: there is at least one, no
  source is there twice, and a member that is not of a remote source always has an ownership
  to route by, whatever scopes have been recorded, so no part of the view is empty for ever.
\<close>

theorem accepted_view_routes:
  assumes "accepted env c" and "fmlookup (ac_views c) i = Some v"
  shows "v_members v \<noteq> [] \<and> distinct (map vm_source (v_members v))
    \<and> (\<forall>m \<in> set (v_members v). \<exists>s. fmlookup (ac_sources c) (vm_source m) = Some s
         \<and> (s_connector_type s \<noteq> CT_remote \<longrightarrow> (\<forall>scopes. fst (effective_ownership m (Some s) scopes) \<noteq> None)))"
proof -
  have e: "v_members v \<noteq> []" "member_errors c i {} (v_members v) = []"
    using accepted_view [OF assms] by (simp_all add: view_errors_def)
  have "\<exists>s. fmlookup (ac_sources c) (vm_source m) = Some s
         \<and> (s_connector_type s \<noteq> CT_remote \<longrightarrow> (\<forall>scopes. fst (effective_ownership m (Some s) scopes) \<noteq> None))"
    if "m \<in> set (v_members v)" for m
  proof -
    from e(2) that have "has (ac_sources c) (vm_source m)" "\<not> claims_nothing c m" by (auto simp: member_errors_nil)
    then obtain s where "fmlookup (ac_sources c) (vm_source m) = Some s" by blast
    with \<open>\<not> claims_nothing c m\<close> show ?thesis
      by (auto simp: claims_nothing_def Let_def effective_ownership_def split: option.splits)
  qed
  with e show ?thesis by (auto simp: member_errors_nil)
qed

theorem accepted_view_routes_witness:
  "\<exists>v. fmlookup (ac_views sample_config) ''all'' = Some v \<and> v_members v \<noteq> []"
proof -
  obtain v where v: "fmlookup (ac_views sample_config) ''all'' = Some v" by (simp add: sample_config_def)
  with accepted_view_routes [OF sample_accepted v] show ?thesis by blast
qed

section \<open>Sources of an accepted configuration\<close>

lemma delivery_clashes_nil: "delivery_clashes delivery_id creds = [] \<longleftrightarrow> inj_on delivery_id (set creds)"
proof
  assume a: "delivery_clashes delivery_id creds = []"
  show "inj_on delivery_id (set creds)"
  proof (rule inj_onI)
    fix x y assume xy: "x \<in> set creds" "y \<in> set creds" "delivery_id x = delivery_id y"
    let ?S = "{cr \<in> set creds. delivery_id cr = delivery_id x}"
    from a xy(1) have "\<not> 1 < card ?S" by (auto simp: delivery_clashes_def filter_empty_conv)
    then have "card ?S \<le> Suc 0" by simp
    then show "x = y" using xy by (simp add: card_le_Suc0_iff_eq)
  qed
next
  assume inj: "inj_on delivery_id (set creds)"
  have "card {cr \<in> set creds. delivery_id cr = d} \<le> Suc 0" for d
    using inj by (auto simp: card_le_Suc0_iff_eq dest: inj_onD)
  then show "delivery_clashes delivery_id creds = []"
    by (auto simp: delivery_clashes_def filter_empty_conv not_less)
qed

text \<open>
  A source of an accepted configuration syncs as it is written: its credentials are delivered
  under different names, an ssh or remote source logs in with one, it has one cadence and that one
  parses, a dynamic host list is an ssh source's and the only one it has, and what it advertises names something.
\<close>

theorem accepted_source_unambiguous:
  assumes "accepted env c" and "fmlookup (ac_sources c) i = Some s"
  shows "inj_on (cv_delivery_id env) (set (s_credential_ids s))
    \<and> (s_connector_type s = CT_ssh \<or> s_connector_type s = CT_remote \<longrightarrow> (\<exists>cred. set (s_credential_ids s) \<subseteq> {cred}))
    \<and> (\<forall>x. s_schedule s = Some x \<longrightarrow> cv_cron_error env x = None
        \<and> (s_sync_interval_seconds s = None \<or> s_sync_interval_seconds s = Some 0))
    \<and> (s_hosts_from_source s \<noteq> None \<longrightarrow> s_connector_type s = CT_ssh \<and> fmlookup (s_config s) ''hosts'' = None)
    \<and> (\<forall>a. s_advertise_scope s = Some a \<longrightarrow> as_groups a \<noteq> [] \<or> as_hosts a \<noteq> [])"
proof (intro conjI impI allI)
  note e = accepted_source [OF assms]
  from e show "inj_on (cv_delivery_id env) (set (s_credential_ids s))"
    by (simp add: source_credential_errors_def delivery_clashes_nil)
  show "\<exists>cred. set (s_credential_ids s) \<subseteq> {cred}" if "s_connector_type s = CT_ssh \<or> s_connector_type s = CT_remote"
  proof -
    from e that have "card (set (s_credential_ids s)) \<le> Suc 0" by (auto simp: source_credential_errors_def)
    then show ?thesis by (auto simp: card_le_Suc0_iff_eq) blast
  qed
  from e show "cv_cron_error env x = None" if "s_schedule s = Some x" for x
    using that by (simp add: cadence_errors_def split: option.splits)
  from e show "s_sync_interval_seconds s = None \<or> s_sync_interval_seconds s = Some 0" if "s_schedule s = Some x" for x
    using that by (auto simp: cadence_errors_def split: option.splits)
  from e show "s_connector_type s = CT_ssh" if "s_hosts_from_source s \<noteq> None"
    using that by (auto simp: hosts_from_errors_def)
  from e show "fmlookup (s_config s) ''hosts'' = None" if "s_hosts_from_source s \<noteq> None"
    using that by (auto simp: hosts_from_errors_def)
  from e show "as_groups a \<noteq> [] \<or> as_hosts a \<noteq> []" if "s_advertise_scope s = Some a" for a
    using that by (auto simp: advertise_errors_def)
qed

theorem accepted_source_unambiguous_witness:
  "\<exists>s. fmlookup (ac_sources sample_config) ''vm'' = Some s \<and> inj_on (\<lambda>i. i) (set (s_credential_ids s))"
proof -
  obtain s where s: "fmlookup (ac_sources sample_config) ''vm'' = Some s" by (simp add: sample_config_def)
  with accepted_source_unambiguous [OF sample_accepted s] show ?thesis by (simp add: sample_config_env_def)
qed

end
