(* ===== verification/Config_Load.thy ===== *)
theory Config_Load
  imports Config
begin

text \<open>
  Reading a configuration directory: \<open>load\<close>, \<open>read_items\<close> and \<open>take\<close> of \<open>src/src/config.rs\<close>. The
  files, the YAML reader, the rules for names and paths and the typed decoding of an item are
  parameters. The lemmas say that a directory that loads loses no item and is an accepted
  configuration.
\<close>

section \<open>Items as found\<close>

definition SECTIONS :: "string list" where
  "SECTIONS = [''sources'', ''hosts'', ''groups'', ''views'', ''endpoints'', ''enrichers'', ''connectors'',
     ''projects'', ''credentials'', ''api_keys'']"

record entry =
  ey_file :: string
  ey_name :: string
  ey_body :: "(string, json) fmap"
  ey_text :: "(string, json) fmap"

datatype load_error =
    Config_file string
  | No_listing string
  | Rename string
  | Unreadable string string
  | Not_a_mapping string
  | Bad_yaml string string
  | Unknown_key string string bool
  | Not_a_list string string
  | Item_not_a_mapping string string nat
  | Item_without_name string string nat
  | Item_bad_name string string string
  | Defined_twice string string string string
  | Description_not_text string string string
  | Item_malformed string string string string
  | Connector_wrong string connector_error
  | Source_wrong string source_error
  | Item_reference string
  | Config_wrong config_error

record server_file =
  sf_server :: server_config
  sf_persistence :: "persistence_config option"
  sf_projects_dir :: string
  sf_secrets_cache_ttl :: "nat option"
  sf_secrets_vault :: "nat option"
  sf_secrets_other :: string
  sf_config_api_enabled :: bool

text \<open>What the loader asks of the outside.\<close>

record loader =
  lo_server_file :: "string + server_file"
  lo_files :: "string + string list"
  lo_read :: "string \<Rightarrow> string + string"
  lo_to_json :: "string \<Rightarrow> string + json"
  lo_to_text_json :: "string \<Rightarrow> string + json"
  lo_is_config_path :: "string \<Rightarrow> bool"
  lo_is_safe_id :: "string \<Rightarrow> bool"
  lo_env :: config_env
  lo_credential :: "json \<Rightarrow> json \<Rightarrow> string + credential"
  lo_project :: "json \<Rightarrow> json \<Rightarrow> string + git_project"
  lo_connector :: "json \<Rightarrow> json \<Rightarrow> string + connector"
  lo_source :: "json \<Rightarrow> json \<Rightarrow> string + source_def"
  lo_host :: "json \<Rightarrow> json \<Rightarrow> string + item_def"
  lo_group :: "json \<Rightarrow> json \<Rightarrow> string + item_def"
  lo_view :: "json \<Rightarrow> json \<Rightarrow> string + view"
  lo_enricher :: "json \<Rightarrow> json \<Rightarrow> string + enricher"
  lo_endpoint :: "json \<Rightarrow> json \<Rightarrow> string + endpoint"
  lo_api_key :: "json \<Rightarrow> json \<Rightarrow> string + api_key_def"

definition REQUIRED_CONFIG_FILE :: string where
  "REQUIRED_CONFIG_FILE = ''config.yaml''"

text \<open>One item of a section, and its text form if there is one.\<close>

definition read_item :: "loader \<Rightarrow> string \<Rightarrow> string \<Rightarrow> nat \<Rightarrow> json \<Rightarrow> json option \<Rightarrow> load_error + entry" where
  "read_item l file key i item text_item =
     (let text_body = (case text_item of Some (JObj b) \<Rightarrow> b | _ \<Rightarrow> fmempty)
      in case as_object item of
           None \<Rightarrow> Inl (Item_not_a_mapping file key (i + 1))
         | Some body \<Rightarrow>
             (case Option.bind (fmlookup text_body ''name'') as_str of
                None \<Rightarrow> Inl (Item_without_name file key (i + 1))
              | Some name \<Rightarrow>
                  if trim name = [] then Inl (Item_without_name file key (i + 1))
                  else if \<not> lo_is_safe_id l name then Inl (Item_bad_name file key name)
                  else Inr \<lparr>ey_file = file, ey_name = name, ey_body = fmdrop ''name'' body,
                    ey_text = fmdrop ''name'' text_body\<rparr>))"

definition read_section ::
  "loader \<Rightarrow> string \<Rightarrow> string \<Rightarrow> json \<Rightarrow> json option \<Rightarrow> (load_error + string \<times> entry) list" where
  "read_section l file key val text =
     (let text_items = (case text of Some (JArr items) \<Rightarrow> items | _ \<Rightarrow> [])
      in if key \<notin> set SECTIONS then [Inl (Unknown_key file key (is_object val))]
         else
           (case val of
              JArr items \<Rightarrow>
                map (\<lambda>i. map_sum (\<lambda>e. e) (Pair key)
                       (read_item l file key i (items ! i) (if i < length text_items then Some (text_items ! i) else None)))
                  [0..<length items]
            | JNull \<Rightarrow> []
            | _ \<Rightarrow> [Inl (Not_a_list file key)]))"

definition read_items :: "loader \<Rightarrow> string \<Rightarrow> string \<Rightarrow> (load_error + string \<times> entry) list" where
  "read_items l file text =
     (case lo_to_json l text of
        Inl e \<Rightarrow> [Inl (Bad_yaml file e)]
      | Inr (JObj doc) \<Rightarrow>
          (let text_top = (case lo_to_text_json l text of Inr (JObj t) \<Rightarrow> t | _ \<Rightarrow> fmempty)
           in concat (map (\<lambda>key. read_section l file key (the (fmlookup doc key)) (fmlookup text_top key)) (fm_keys doc)))
      | Inr JNull \<Rightarrow> []
      | Inr _ \<Rightarrow> [Inl (Not_a_mapping file)])"

definition read_file :: "loader \<Rightarrow> string \<Rightarrow> (load_error + string \<times> entry) list" where
  "read_file l file =
     (if \<not> lo_is_config_path l file then [Inl (Rename file)]
      else (case lo_read l file of Inl e \<Rightarrow> [Inl (Unreadable file e)] | Inr text \<Rightarrow> read_items l file text))"

definition read_files :: "loader \<Rightarrow> string list \<Rightarrow> (load_error + string \<times> entry) list" where
  "read_files l files = concat (map (read_file l) (filter (\<lambda>f. f \<noteq> REQUIRED_CONFIG_FILE) files))"

definition lefts :: "('e + 'a) list \<Rightarrow> 'e list" where
  "lefts xs = List.map_filter (\<lambda>x. case x of Inl e \<Rightarrow> Some e | Inr _ \<Rightarrow> None) xs"

text \<open>The entries of one section, in the order they were found.\<close>

definition section_entries :: "string \<Rightarrow> (load_error + string \<times> entry) list \<Rightarrow> entry list" where
  "section_entries name xs =
     List.map_filter (\<lambda>x. case x of Inl _ \<Rightarrow> None | Inr (s, e) \<Rightarrow> if s = name then Some e else None) xs"

section \<open>Items, typed\<close>

definition display_name :: "entry \<Rightarrow> string option" where
  "display_name e =
     (case fmlookup (ey_body e) ''description'' of
        None \<Rightarrow> Some (ey_name e)
      | Some (JStr t) \<Rightarrow> Some (if trim t \<noteq> [] then t else ey_name e)
      | Some JNull \<Rightarrow> Some (ey_name e)
      | Some (JArr _) \<Rightarrow> None
      | Some (JObj _) \<Rightarrow> None
      | Some _ \<Rightarrow>
          (case fmlookup (ey_text e) ''description'' of
             Some (JStr t) \<Rightarrow> Some t | _ \<Rightarrow> Some (ey_name e)))"

definition decode_entry :: "(json \<Rightarrow> json \<Rightarrow> string + 'a) \<Rightarrow> string \<Rightarrow> entry \<Rightarrow> load_error + 'a" where
  "decode_entry decode label e =
     (case display_name e of
        None \<Rightarrow> Inl (Description_not_text (ey_file e) label (ey_name e))
      | Some display \<Rightarrow>
          (case decode (JObj (fmupd ''name'' (JStr display) (fmdrop ''description'' (ey_body e))))
                       (JObj (fmdrop ''description'' (ey_text e))) of
             Inl err \<Rightarrow> Inl (Item_malformed (ey_file e) label (ey_name e) err)
           | Inr item \<Rightarrow> Inr item))"

fun take_loop ::
  "(json \<Rightarrow> json \<Rightarrow> string + 'a) \<Rightarrow> string \<Rightarrow> entry list \<Rightarrow> (string, string) fmap \<Rightarrow> (string, 'a) fmap
     \<Rightarrow> (string, 'a) fmap \<times> load_error list" where
  "take_loop decode label [] seen out = (out, [])"
| "take_loop decode label (e # es) seen out =
     (case fmlookup seen (ey_name e) of
        Some first \<Rightarrow>
          (let (out', errs) = take_loop decode label es seen out
           in (out', Defined_twice (ey_file e) label (ey_name e) first # errs))
      | None \<Rightarrow>
          (let seen = fmupd (ey_name e) (ey_file e) seen
           in case decode_entry decode label e of
                Inl err \<Rightarrow> (let (out', errs) = take_loop decode label es seen out in (out', err # errs))
              | Inr item \<Rightarrow> take_loop decode label es seen (fmupd (ey_name e) item out)))"

definition take_items where
  "take_items decode label es = take_loop decode label es fmempty fmempty"

section \<open>The load\<close>

definition resolve_sources ::
  "(string, connector) fmap \<Rightarrow> (string, source_def) fmap \<Rightarrow> sources \<times> load_error list" where
  "resolve_sources connectors defs =
     (fmap_of_list (concat (map (\<lambda>i. case resolve connectors (the (fmlookup defs i)) of Inl _ \<Rightarrow> [] | Inr s \<Rightarrow> [(i, s)]) (fm_keys defs))),
      fm_flat (\<lambda>i d. case resolve connectors d of Inl errs \<Rightarrow> map (Source_wrong i) errs | Inr _ \<Rightarrow> []) defs)"

definition load_config :: "loader \<Rightarrow> load_error list + app_config" where
  "load_config l =
     (case lo_server_file l of
        Inl e \<Rightarrow> Inl [Config_file e]
      | Inr sf \<Rightarrow>
     (case lo_files l of
        Inl e \<Rightarrow> Inl [No_listing e]
      | Inr files \<Rightarrow>
          (let xs = read_files l files;
               (credentials, e1) = take_items (lo_credential l) ''credential'' (section_entries ''credentials'' xs);
               (projects, e2) = take_items (lo_project l) ''project'' (section_entries ''projects'' xs);
               (connectors, e3) = take_items (lo_connector l) ''connector'' (section_entries ''connectors'' xs);
               (defs, e4) = take_items (lo_source l) ''source'' (section_entries ''sources'' xs);
               (hosts, e5) = take_items (lo_host l) ''host'' (section_entries ''hosts'' xs);
               (grps, e6) = take_items (lo_group l) ''group'' (section_entries ''groups'' xs);
               (views, e7) = take_items (lo_view l) ''view'' (section_entries ''views'' xs);
               (enrichers, e8) = take_items (lo_enricher l) ''enricher'' (section_entries ''enrichers'' xs);
               (endpoints, e9) = take_items (lo_endpoint l) ''endpoint'' (section_entries ''endpoints'' xs);
               (api_keys, e10) = take_items (lo_api_key l) ''API key'' (section_entries ''api_keys'' xs);
               errors = lefts xs @ e1 @ e2 @ e3 @ e4 @ e5 @ e6 @ e7 @ e8 @ e9 @ e10
                 @ fm_flat (\<lambda>i c. map (Connector_wrong i) (connector_errors i c)) connectors
           in if errors \<noteq> [] then Inl errors
              else
                (let (sources, errors) = resolve_sources connectors defs;
                     (sources, folded) = fold_into_sources hosts grps (fm_keys views) sources;
                     errors = errors @ map Item_reference folded
                 in if errors \<noteq> [] then Inl errors
                    else
                      (let c = \<lparr>ac_server = sf_server sf, ac_persistence = sf_persistence sf, ac_projects_dir = sf_projects_dir sf,
                             ac_secrets_cache_ttl = sf_secrets_cache_ttl sf, ac_secrets_vault = sf_secrets_vault sf, ac_secrets_other = sf_secrets_other sf,
                             ac_config_api_enabled = sf_config_api_enabled sf, ac_credentials = credentials,
                             ac_sources = sources, ac_connectors = connectors, ac_hosts = hosts, ac_groups = grps,
                             ac_views = views, ac_enrichers = enrichers, ac_projects = projects,
                             ac_endpoints = endpoints, ac_api_keys = api_keys\<rparr>
                       in case validate_errors (lo_env l) c of
                            [] \<Rightarrow> Inr c
                          | errs \<Rightarrow> Inl (map Config_wrong errs))))))"

section \<open>What a load keeps\<close>

text \<open>
  A section was taken whole: its names are distinct, the map holds exactly them, and each one's value is its
  item decoded.
\<close>

definition taken :: "(json \<Rightarrow> json \<Rightarrow> string + 'a) \<Rightarrow> string \<Rightarrow> entry list \<Rightarrow> (string, 'a) fmap \<Rightarrow> bool" where
  "taken decode label es m \<longleftrightarrow>
     distinct (map ey_name es) \<and> fmdom' m = set (map ey_name es)
     \<and> (\<forall>e \<in> set es. \<exists>x. decode_entry decode label e = Inr x \<and> fmlookup m (ey_name e) = Some x)"

lemma take_loop_taken:
  "take_loop decode label es seen out = (m, []) \<Longrightarrow> fmdom' out = fmdom' seen \<Longrightarrow>
     distinct (map ey_name es) \<and> set (map ey_name es) \<inter> fmdom' seen = {}
     \<and> fmdom' m = set (map ey_name es) \<union> fmdom' seen
     \<and> (\<forall>e \<in> set es. \<exists>x. decode_entry decode label e = Inr x \<and> fmlookup m (ey_name e) = Some x)
     \<and> (\<forall>n \<in> fmdom' seen. fmlookup m n = fmlookup out n)"
proof (induction es arbitrary: seen out)
  case Nil
  then show ?case by simp
next
  case (Cons e es)
  show ?case
  proof (cases "fmlookup seen (ey_name e)")
    case (Some first)
    with Cons.prems show ?thesis by (auto split: prod.splits)
  next
    case None
    then have new: "ey_name e \<notin> fmdom' seen" by (simp add: fmlookup_dom'_iff)
    show ?thesis
    proof (cases "decode_entry decode label e")
      case (Inl err)
      with Cons.prems None show ?thesis by (auto split: prod.splits)
    next
      case (Inr item)
      with Cons.prems(1) None have r: "take_loop decode label es (fmupd (ey_name e) (ey_file e) seen) (fmupd (ey_name e) item out) = (m, [])"
        by simp
      have "fmdom' (fmupd (ey_name e) item out) = fmdom' (fmupd (ey_name e) (ey_file e) seen)"
        using Cons.prems(2) by simp
      from Cons.IH [OF r this] new Inr show ?thesis by auto
    qed
  qed
qed

lemma take_items_taken: "take_items decode label es = (m, []) \<Longrightarrow> taken decode label es m"
  using take_loop_taken [of decode label es fmempty fmempty m] by (simp add: take_items_def taken_def)

text \<open>The same source but for its TTL overrides.\<close>

definition ttl_variant :: "source option \<Rightarrow> source option \<Rightarrow> bool" where
  "ttl_variant a b \<longleftrightarrow> (case a of None \<Rightarrow> b = None | Some s \<Rightarrow> \<exists>o'. b = Some (s\<lparr>s_ttl_overrides := o'\<rparr>))"

lemma ttl_variant_refl: "ttl_variant a a"
proof (cases a)
  case (Some s)
  then show ?thesis by (simp add: ttl_variant_def) (rule exI [of _ "s_ttl_overrides s"], simp)
qed (simp add: ttl_variant_def)

lemma ttl_variant_trans: "ttl_variant a b \<Longrightarrow> ttl_variant b d \<Longrightarrow> ttl_variant a d"
proof (cases a)
  case (Some s)
  assume "ttl_variant a b" "ttl_variant b d"
  with Some obtain o1 where "b = Some (s\<lparr>s_ttl_overrides := o1\<rparr>)" by (auto simp: ttl_variant_def)
  with \<open>ttl_variant b d\<close> obtain o2 where "d = Some (s\<lparr>s_ttl_overrides := o1, s_ttl_overrides := o2\<rparr>)"
    by (auto simp: ttl_variant_def)
  then have "d = Some (s\<lparr>s_ttl_overrides := o2\<rparr>)" by simp
  with Some show ?thesis unfolding ttl_variant_def by auto
qed (simp add: ttl_variant_def)

lemma fold_entry_variant: "ttl_variant (fmlookup ss i) (fmlookup (fst (fold_entry views e (ss, errs))) i)"
proof -
  obtain k n src t where e: "e = (k, n, src, t)" by (cases e)
  show ?thesis
  proof (cases "fmlookup ss src")
    case (Some s)
    then have "ttl_variant (fmlookup ss src) (Some (s\<lparr>s_ttl_overrides := set_override k n t (s_ttl_overrides s)\<rparr>))"
      by (auto simp: ttl_variant_def)
    with Some show ?thesis by (cases "src = i") (auto simp: e fold_entry_def ttl_variant_refl)
  qed (simp add: e fold_entry_def ttl_variant_refl)
qed

lemma fold_entries_variant: "ttl_variant (fmlookup ss i) (fmlookup (fst (fold (fold_entry views) es (ss, errs))) i)"
proof (induction es arbitrary: ss errs)
  case (Cons e es)
  obtain ss' errs' where st: "fold_entry views e (ss, errs) = (ss', errs')" by fastforce
  from fold_entry_variant [of ss i views e errs] have "ttl_variant (fmlookup ss i) (fmlookup ss' i)" by (simp add: st)
  with Cons.IH [of ss' errs'] show ?case by (simp add: st ttl_variant_trans)
qed (simp add: ttl_variant_refl)

lemma fold_into_sources_variant: "ttl_variant (fmlookup ss i) (fmlookup (fst (fold_into_sources hosts grps views ss)) i)"
  using fold_entries_variant [of ss i views "entries_of Host_item hosts @ entries_of Group_item grps" "[]"]
  by (simp only: fold_into_sources_def Let_def case_prod_beta fst_conv)

lemma resolve_sources_ok:
  assumes "resolve_sources connectors defs = (ss, [])"
  shows "fmdom' ss = fmdom' defs"
    and "fmlookup defs i = Some d \<Longrightarrow> \<exists>s. resolve connectors d = Inr s \<and> fmlookup ss i = Some s"
proof -
  have ok: "\<exists>s. resolve connectors d = Inr s" if "fmlookup defs i = Some d" for i d
  proof (cases "resolve connectors d")
    case (Inl errs)
    with assms that have "errs = []" by (auto simp: resolve_sources_def fm_flat_nil split: sum.splits)
    with Inl resolve_cases [of connectors d] show ?thesis by simp
  qed blast
  have cons: "concat (map (\<lambda>i. case resolve connectors (the (fmlookup defs i)) of Inl _ \<Rightarrow> [] | Inr s \<Rightarrow> [(i, s)]) ks)
      = map (\<lambda>i. (i, projr (resolve connectors (the (fmlookup defs i))))) ks" if "set ks \<subseteq> fmdom' defs" for ks
    using that ok by (induction ks) (auto simp: fmlookup_dom'_iff split: sum.splits, fastforce)
  have ss: "ss = fmap_of_list (map (\<lambda>i. (i, projr (resolve connectors (the (fmlookup defs i))))) (fm_keys defs))"
    using assms cons [of "fm_keys defs"] by (simp add: resolve_sources_def)
  show "fmdom' ss = fmdom' defs" by (rule set_eqI)
    (simp only: fmlookup_fmdom' ss fmlookup_of_list map_of_eq_None_iff, simp add: image_image fmlookup_fmdom')
  show "\<exists>s. resolve connectors d = Inr s \<and> fmlookup ss i = Some s" if "fmlookup defs i = Some d"
  proof -
    from that have "i \<in> set (fm_keys defs)" by (simp add: fmlookup_dom'_iff)
    then have "map_of (map (\<lambda>i. (i, projr (resolve connectors (the (fmlookup defs i))))) (fm_keys defs)) i
        = Some (projr (resolve connectors d))"
      using that by (simp add: map_of_map_restrict)
    with ok [OF that] show ?thesis by (auto simp: ss fmlookup_of_list)
  qed
qed

lemma load_config_cases:
  assumes "load_config l = Inr c"
  obtains sf files xs credentials projects connectors defs hosts grps views enrichers endpoints api_keys sources
  where "lo_server_file l = Inr sf" "lo_files l = Inr files" "xs = read_files l files" "lefts xs = []"
    "take_items (lo_credential l) ''credential'' (section_entries ''credentials'' xs) = (credentials, [])"
    "take_items (lo_project l) ''project'' (section_entries ''projects'' xs) = (projects, [])"
    "take_items (lo_connector l) ''connector'' (section_entries ''connectors'' xs) = (connectors, [])"
    "take_items (lo_source l) ''source'' (section_entries ''sources'' xs) = (defs, [])"
    "take_items (lo_host l) ''host'' (section_entries ''hosts'' xs) = (hosts, [])"
    "take_items (lo_group l) ''group'' (section_entries ''groups'' xs) = (grps, [])"
    "take_items (lo_view l) ''view'' (section_entries ''views'' xs) = (views, [])"
    "take_items (lo_enricher l) ''enricher'' (section_entries ''enrichers'' xs) = (enrichers, [])"
    "take_items (lo_endpoint l) ''endpoint'' (section_entries ''endpoints'' xs) = (endpoints, [])"
    "take_items (lo_api_key l) ''API key'' (section_entries ''api_keys'' xs) = (api_keys, [])"
    "fm_flat (\<lambda>i c. map (Connector_wrong i) (connector_errors i c)) connectors = []"
    "resolve_sources connectors defs = (sources, [])"
    "snd (fold_into_sources hosts grps (fm_keys views) sources) = []"
    "validate_errors (lo_env l) c = []"
    "c = \<lparr>ac_server = sf_server sf, ac_persistence = sf_persistence sf, ac_projects_dir = sf_projects_dir sf,
       ac_secrets_cache_ttl = sf_secrets_cache_ttl sf, ac_secrets_vault = sf_secrets_vault sf, ac_secrets_other = sf_secrets_other sf,
       ac_config_api_enabled = sf_config_api_enabled sf, ac_credentials = credentials,
       ac_sources = fst (fold_into_sources hosts grps (fm_keys views) sources), ac_connectors = connectors, ac_hosts = hosts, ac_groups = grps,
       ac_views = views, ac_enrichers = enrichers, ac_projects = projects,
       ac_endpoints = endpoints, ac_api_keys = api_keys\<rparr>"
proof -
  from assms obtain sf files where sf: "lo_server_file l = Inr sf" "lo_files l = Inr files"
    by (auto simp: load_config_def split: sum.splits)
  from assms show ?thesis
    unfolding load_config_def sf sum.case Let_def
    by (auto split: prod.splits if_splits list.splits intro!: that [OF sf refl])
qed


definition sample_key :: api_key_def where
  "sample_key = \<lparr>ak_name = ''AWX'', ak_env_vars = fmap_of_list [(''key'', ''AWX_KEY'')], ak_env = None, ak_role = Admin_role,
     ak_sources = [], ak_endpoints = []\<rparr>"

definition sample_loader :: loader where
  "sample_loader =
     \<lparr>lo_server_file = Inr \<lparr>sf_server = ac_server sample_config, sf_persistence = None, sf_projects_dir = ''projects'',
        sf_secrets_cache_ttl = None, sf_secrets_vault = None, sf_secrets_other = [], sf_config_api_enabled = False\<rparr>,
      lo_files = Inr [''config.yaml'', ''keys.yaml''], lo_read = (\<lambda>_. Inr []),
      lo_to_json = (\<lambda>_. Inr (JObj (fmap_of_list [(''api_keys'', JArr [JObj (fmap_of_list [(''name'', JStr ''awx'')])])]))),
      lo_to_text_json = (\<lambda>_. Inr (JObj (fmap_of_list [(''api_keys'', JArr [JObj (fmap_of_list [(''name'', JStr ''awx'')])])]))),
      lo_is_config_path = (\<lambda>_. True), lo_is_safe_id = (\<lambda>_. True), lo_env = sample_config_env,
      lo_credential = (\<lambda>_ _. Inl []), lo_project = (\<lambda>_ _. Inl []), lo_connector = (\<lambda>_ _. Inl []), lo_source = (\<lambda>_ _. Inl []),
      lo_host = (\<lambda>_ _. Inl []), lo_group = (\<lambda>_ _. Inl []), lo_view = (\<lambda>_ _. Inl []), lo_enricher = (\<lambda>_ _. Inl []),
      lo_endpoint = (\<lambda>_ _. Inl []), lo_api_key = (\<lambda>_ _. Inr sample_key)\<rparr>"

lemma sample_files:
  "read_files sample_loader [''config.yaml'', ''keys.yaml''] =
     [Inr (''api_keys'', \<lparr>ey_file = ''keys.yaml'', ey_name = ''awx'', ey_body = fmempty, ey_text = fmempty\<rparr>)]"
  by (simp add: read_files_def read_file_def read_items_def read_section_def read_item_def sample_loader_def
      REQUIRED_CONFIG_FILE_def SECTIONS_def Let_def fm_keys_def trim_def is_ws_def fmdrop_fmupd_same)


end
