(* ===== verification/Federation.thy ===== *)
theory Federation
  imports Topology Credentials Memory_Cache Sync_Health Access "HOL-Library.Product_Lexorder"
begin

text \<open>
  Mapping the federation: \<open>src/src/application/topology.rs\<close> and the route of
  \<open>src/src/adapters/in/http/topology.rs\<close>. Asking a peer and pushing to it are the peer port, a
  parameter, whose answer is missing when its task stopped; the peers are asked concurrently and each answer is kept at its own
  place, so the model asks them in order. The lemmas say that every peer is accounted for, that
  asking ends whatever loops the instances form, that a restricted caller learns nothing of what it may not read,
  and what the maps pushed here last.
\<close>

section \<open>Asking\<close>

definition MAX_DEPTH :: "8 word" where
  "MAX_DEPTH = 3"

definition PEER_TIMEOUT_SECONDS :: nat where
  "PEER_TIMEOUT_SECONDS = 8"

definition peer_timeout :: "8 word \<Rightarrow> nat" where
  "peer_timeout depth = PEER_TIMEOUT_SECONDS * (unat depth + 1)"

record peer_request =
  rq_url :: string
  rq_api_key :: "string option"
  rq_insecure_tls :: bool
  rq_timeout_seconds :: nat
  rq_depth :: "8 word"

datatype push_error = Unsupported | Push_failed string

record inputs =
  in_sources :: sources
  in_cache :: mem_cache
  in_health :: health_registry
  in_secret :: "string \<Rightarrow> string + fields"
  in_variable_part :: "string \<Rightarrow> string"
  in_delivery_id :: "string \<Rightarrow> string"
  in_describe :: "peer_request \<Rightarrow> (string + topology) option"
  in_push :: "peer_request \<Rightarrow> federation_push \<Rightarrow> (push_error + unit) option"
  in_name :: "string option"
  in_version :: string

definition link_of :: "instant \<Rightarrow> inputs \<Rightarrow> string \<times> source \<Rightarrow> peer_source" where
  "link_of now inp = (\<lambda>(i, s).
     let entry = mc_get (in_cache inp) i;
         health = (case health_get now (in_health inp) i of
           Some h \<Rightarrow> h
         | None \<Rightarrow> \<lparr>last_attempt_age_seconds = None, last_success_age_seconds = None, sh_last_error = None,
                     sh_consecutive_failures = 0\<rparr>)
     in \<lparr>ps_source_id = i, ps_remote_source = s_script_path s, ps_cached = (entry \<noteq> None),
         ps_hosts = map_option (\<lambda>e. fcard (fmdom (hostvars (e_dataset e)))) entry,
         ps_groups = map_option (\<lambda>e. fcard (fmdom (groups (e_dataset e)))) entry,
         ps_age_seconds = map_option (age_seconds now) entry,
         ps_consecutive_failures = sh_consecutive_failures health,
         ps_last_pull_age_seconds = last_success_age_seconds health,
         ps_last_error = sh_last_error health\<rparr>)"

text \<open>The source whose key reaches a peer: the first that reads from it; a peer always has one.\<close>

definition key_source :: "(string \<times> source) list \<Rightarrow> source" where
  "key_source members = snd (members ! 0)"

definition peer_request_for :: "inputs \<Rightarrow> string \<Rightarrow> source \<Rightarrow> 8 word \<Rightarrow> string + peer_request" where
  "peer_request_for inp url s depth =
     (case resolve_credentials (in_secret inp) (in_variable_part inp) (in_delivery_id inp) (s_credential_ids s) of
        Inl e \<Rightarrow> Inl (''not asked: '' @ credential_error_text e)
      | Inr credentials \<Rightarrow>
          Inr \<lparr>rq_url = url,
               rq_api_key =
                 (case fmlookup credentials ''token'' of
                    Some t \<Rightarrow> Some t
                  | None \<Rightarrow> (case fmlookup credentials ''TOKEN'' of
                      Some t \<Rightarrow> Some t | None \<Rightarrow> fmlookup credentials ''api_key'')),
               rq_insecure_tls = (fmlookup (s_config s) ''insecure_tls'' = Some ''true''),
               rq_timeout_seconds = peer_timeout depth, rq_depth = depth\<rparr>)"

definition DEPTH_REACHED :: string where
  "DEPTH_REACHED = ''not asked: depth limit reached''"

definition NOT_DESCRIBED :: string where
  "NOT_DESCRIBED = ''not described: an internal error stopped the request''"

definition describe_peer :: "instant \<Rightarrow> inputs \<Rightarrow> 8 word \<Rightarrow> string \<Rightarrow> (string \<times> source) list \<Rightarrow> peer" where
  "describe_peer now inp depth url members =
     (let links = map (link_of now inp) members
      in if depth = 0 then Peer url links None (Some DEPTH_REACHED)
         else (case peer_request_for inp url (key_source members) (depth - 1) of
                 Inl reason \<Rightarrow> Peer url links None (Some reason)
               | Inr request \<Rightarrow>
                   (case in_describe inp request of
                      None \<Rightarrow> Peer url links None (Some NOT_DESCRIBED)
                    | Some (Inl reason) \<Rightarrow> Peer url links None (Some reason)
                    | Some (Inr t) \<Rightarrow> Peer url links (Some t) None)))"

definition describe :: "instant \<Rightarrow> inputs \<Rightarrow> (string \<Rightarrow> bool) \<Rightarrow> 8 word \<Rightarrow> topology" where
  "describe now inp visible depth =
     (let depth = min depth MAX_DEPTH;
          grouped = peers_of (in_sources inp) visible
      in Topology (in_name inp) (in_version inp)
           (Some (length (filter visible (fm_keys (in_sources inp)))))
           (map (\<lambda>url. describe_peer now inp depth url (the (fmlookup grouped url))) (fm_keys grouped)))"

text \<open>The route: a caller sees the peers of the sources it may read, an admin in full.\<close>

definition get_topology :: "instant \<Rightarrow> inputs \<Rightarrow> permissions \<Rightarrow> 8 word option \<Rightarrow> topology" where
  "get_topology now inp perms depth =
     (let topology = describe now inp (allows_source perms) (min (case depth of Some d \<Rightarrow> d | None \<Rightarrow> 2) MAX_DEPTH)
      in if is_admin perms then topology else redacted topology)"

section \<open>Pushing\<close>

definition PUSH_DEPTH :: "8 word" where
  "PUSH_DEPTH = 2"

definition summarize :: "instant \<Rightarrow> sources \<Rightarrow> mem_cache \<Rightarrow> nat \<Rightarrow> instance_summary" where
  "summarize now ss c endpoints =
     (let entries = List.map_filter (mc_get c) (fm_keys ss);
          ages = map (age_seconds now) entries
      in \<lparr>is_sources = fm_keys ss,
          is_hosts = sum_list (map (\<lambda>e. fcard (fmdom (hostvars (e_dataset e)))) entries),
          is_groups = sum_list (map (\<lambda>e. fcard (fmdom (groups (e_dataset e)))) entries),
          is_endpoints = endpoints,
          is_oldest_age_seconds = (if ages = [] then None else Some (Max (set ages)))\<rparr>)"

definition push_body :: "instant \<Rightarrow> inputs \<Rightarrow> string option \<Rightarrow> nat \<Rightarrow> topology \<Rightarrow> string \<Rightarrow> federation_push" where
  "push_body now inp sender_url endpoints topology url =
     \<lparr>fp_url = url, fp_sender_url = sender_url, fp_sender = summarize now (in_sources inp) (in_cache inp) endpoints,
      fp_topology = for_push topology\<rparr>"

text \<open>The outcome of one push; none when its task stopped.\<close>

definition push_one ::
  "inputs \<Rightarrow> (string, (string \<times> source) list) fmap \<Rightarrow> federation_push \<Rightarrow> (push_error + unit) option" where
  "push_one inp grouped body =
     (case fmlookup grouped (fp_url body) of
        None \<Rightarrow> None
      | Some members \<Rightarrow>
          (case peer_request_for inp (fp_url body) (key_source members) 0 of
             Inl reason \<Rightarrow> Some (Inl (Push_failed reason))
           | Inr request \<Rightarrow> in_push inp request body))"

definition push_federation ::
  "instant \<Rightarrow> inputs \<Rightarrow> string option \<Rightarrow> nat \<Rightarrow> (string \<times> (push_error + unit)) list" where
  "push_federation now inp sender_url endpoints =
     (let topology = describe now inp (\<lambda>_. True) PUSH_DEPTH;
          grouped = peers_of (in_sources inp) (\<lambda>_. True);
          answered = map p_url (filter (\<lambda>p. p_instance p \<noteq> None) (t_peers topology))
      in sort_key fst (List.map_filter
           (\<lambda>url. map_option (Pair url) (push_one inp grouped (push_body now inp sender_url endpoints topology url))) answered))"

section \<open>The maps pushed here\<close>

definition FEDERATION_EXPIRES :: duration where
  "FEDERATION_EXPIRES = from_secs 600"

type_synonym federation_store = "(string, federation_push \<times> instant) fmap"

definition fs_record :: "instant \<Rightarrow> string \<Rightarrow> federation_push \<Rightarrow> federation_store \<Rightarrow> federation_store" where
  "fs_record now pushed_by push st =
     fmupd pushed_by (push, now) (fm_retain (\<lambda>_ (_, at). elapsed now at < FEDERATION_EXPIRES) st)"

definition fs_list :: "instant \<Rightarrow> federation_store \<Rightarrow> federation list" where
  "fs_list now st =
     sort_key (\<lambda>f. (fd_age_seconds f, fd_pushed_by f))
       (map (\<lambda>by'. let (push, at) = the (fmlookup st by')
              in \<lparr>fd_pushed_by = by', fd_url = fp_url push, fd_sender_url = fp_sender_url push,
                  fd_sender = fp_sender push, fd_topology = fp_topology push,
                  fd_age_seconds = as_secs (elapsed now at)\<rparr>)
         (filter (\<lambda>by'. elapsed now (snd (the (fmlookup st by'))) < FEDERATION_EXPIRES) (fm_keys st)))"

section \<open>Every peer is accounted for\<close>

lemma describe_peer_fields [simp]:
  "p_url (describe_peer now inp depth url ms) = url"
  "p_sources (describe_peer now inp depth url ms) = map (link_of now inp) ms"
  by (simp_all add: describe_peer_def Let_def split: sum.split option.split)

lemma describe_peers:
  "t_peers (describe now inp visible depth) =
     map (\<lambda>url. describe_peer now inp (min depth MAX_DEPTH) url (the (fmlookup (peers_of (in_sources inp) visible) url)))
       (fm_keys (peers_of (in_sources inp) visible))"
  by (simp add: describe_def Let_def)

text \<open>
  The map accounts for every peer: it lists exactly the addresses the sources a caller may see read from, each
  once and in order, with all those sources, and each peer either describes itself or says why it does not,
  never both and never neither, whatever stopped.
\<close>

theorem describe_accounts_for_peers:
  "(let ps = t_peers (describe now inp visible depth)
    in map p_url ps = fm_keys (peers_of (in_sources inp) visible)
       \<and> (\<forall>p \<in> set ps. (p_instance p = None \<longleftrightarrow> p_error p \<noteq> None)
            \<and> {(ps_source_id l) | l. l \<in> set (p_sources p)}
                = {i. \<exists>s. fmlookup (in_sources inp) i = Some s \<and> visible i \<and> remote_url s = Some (p_url p)}))"
proof -
  have links: "ps_source_id (link_of now inp m) = fst m" for m
    by (cases m) (simp add: link_of_def Let_def)
  have "{ps_source_id l | l. l \<in> set (map (link_of now inp) (the (fmlookup (peers_of (in_sources inp) visible) url)))}
      = {i. \<exists>s. fmlookup (in_sources inp) i = Some s \<and> visible i \<and> remote_url s = Some url}"
    if "url \<in> fmdom' (peers_of (in_sources inp) visible)" for url
  proof -
    from that obtain ms where ms: "fmlookup (peers_of (in_sources inp) visible) url = Some ms" by (auto simp: fmlookup_dom'_iff)
    have "{ps_source_id l | l. l \<in> set (map (link_of now inp) ms)} = fst ` set ms"
      by (auto simp: links image_iff) (metis fst_conv links)+
    also have "\<dots> = {i. \<exists>s. fmlookup (in_sources inp) i = Some s \<and> visible i \<and> remote_url s = Some url}"
      by (auto simp: peers_members(4) [OF ms] image_iff)
    finally show ?thesis by (simp add: ms)
  qed
  moreover have "p_instance (describe_peer now inp d url ms) = None \<longleftrightarrow> p_error (describe_peer now inp d url ms) \<noteq> None" for d url ms
    by (auto simp: describe_peer_def Let_def split: sum.split option.split)
  ultimately show ?thesis
    unfolding Let_def describe_peers by (simp add: comp_def)
qed

section \<open>Asking ends\<close>

text \<open>
  A federation of instances that all run this program: what a request finds at its address (none when
  nobody answers), and the answer when instances ask at most \<open>n\<close> hops in a row.
\<close>

fun answer ::
  "(peer_request \<Rightarrow> (inputs \<times> permissions) option) \<Rightarrow> instant \<Rightarrow> nat \<Rightarrow> peer_request \<Rightarrow> (string + topology) option" where
  "answer net now 0 request = None"
| "answer net now (Suc n) request =
     (case net request of
        None \<Rightarrow> Some (Inl ''unreachable'')
      | Some (inp, perms) \<Rightarrow>
          Some (Inr (get_topology now (inp\<lparr>in_describe := answer net now n\<rparr>) perms (Some (rq_depth request)))))"

lemma unat_min_depth: "unat (min d MAX_DEPTH) = min (unat d) 3"
  by (simp add: MAX_DEPTH_def min_def word_le_nat_alt)

lemma describe_cong:
  assumes "\<And>r. rq_depth r < min depth MAX_DEPTH \<Longrightarrow> rq_timeout_seconds r = peer_timeout (rq_depth r) \<Longrightarrow> f r = g r"
  shows "describe now (inp\<lparr>in_describe := f\<rparr>) visible depth = describe now (inp\<lparr>in_describe := g\<rparr>) visible depth"
proof -
  let ?d = "min depth MAX_DEPTH"
  have "describe_peer now (inp\<lparr>in_describe := f\<rparr>) ?d url ms = describe_peer now (inp\<lparr>in_describe := g\<rparr>) ?d url ms" for url ms
  proof (cases "?d = 0")
    case True
    then show ?thesis by (simp add: describe_peer_def link_of_def)
  next
    case False
    then have "0 < unat ?d" by (simp add: unat_gt_0)
    with False have "?d - 1 < ?d" by (simp add: word_less_nat_alt unat_minus_one)
    moreover have "rq_depth r = ?d - 1 \<and> rq_timeout_seconds r = peer_timeout (rq_depth r)" if "peer_request_for inp' url s (?d - 1) = Inr r" for r inp' s
      using that by (auto simp: peer_request_for_def split: sum.splits)
    moreover have "peer_request_for (inp\<lparr>in_describe := h\<rparr>) url s d = peer_request_for inp url s d" for h s d
      by (simp add: peer_request_for_def)
    ultimately show ?thesis using False assms
      by (auto simp: describe_peer_def Let_def link_of_def split: sum.split)
  qed
  then show ?thesis by (simp add: describe_def Let_def)
qed

lemma answer_settles:
  assumes "min (unat (rq_depth r)) 3 < n"
  shows "answer net now n r = answer net now (Suc n) r"
  using assms
proof (induction n arbitrary: r)
  case (Suc n)
  have "answer net now n q = answer net now (Suc n) q" if "rq_depth q < min (min (rq_depth r) MAX_DEPTH) MAX_DEPTH" for q
  proof (rule Suc.IH)
    from that have "unat (rq_depth q) < min (unat (rq_depth r)) 3" by (simp add: word_less_nat_alt unat_min_depth)
    with Suc.prems show "min (unat (rq_depth q)) 3 < n" by linarith
  qed
  then have "describe now (inp\<lparr>in_describe := answer net now n\<rparr>) visible (min (rq_depth r) MAX_DEPTH)
      = describe now (inp\<lparr>in_describe := answer net now (Suc n)\<rparr>) visible (min (rq_depth r) MAX_DEPTH)" for inp visible
    by (rule describe_cong)
  then show ?case by (simp only: answer.simps get_topology_def option.case)
qed simp

text \<open>
  C15. Asking ends, whatever loops the instances form and whatever depth was asked for: an
  answer takes at most four instances in a row, the wait allowed for a peer that asks further is that of the peers below
  it and eight seconds of its own, and never more than twenty-four seconds for a peer asked by a map.
\<close>

theorem federation_asking_ends:
  "(\<forall>n \<ge> 4. answer net now n request = answer net now 4 request)
   \<and> (\<forall>d. d \<noteq> 0 \<longrightarrow> peer_timeout d = PEER_TIMEOUT_SECONDS + peer_timeout (d - 1))
   \<and> (\<forall>f g. (\<forall>r. rq_timeout_seconds r \<le> 24 \<and> rq_depth r < min depth MAX_DEPTH \<longrightarrow> f r = g r) \<longrightarrow>
        describe now (inp\<lparr>in_describe := f\<rparr>) visible depth = describe now (inp\<lparr>in_describe := g\<rparr>) visible depth)"
proof (intro conjI allI impI)
  show "answer net now n request = answer net now 4 request" if "4 \<le> n" for n
    using that
  proof (induction n rule: nat_induct_at_least)
    case (Suc n)
    have "min (unat (rq_depth request)) 3 < n" using Suc.hyps by linarith
    from answer_settles [OF this, of net now] Suc.IH show ?case by simp
  qed simp
  show "peer_timeout d = PEER_TIMEOUT_SECONDS + peer_timeout (d - 1)" if "d \<noteq> 0" for d
  proof -
    from that have "0 < unat d" "unat (d - 1) = unat d - 1" by (simp_all add: unat_gt_0 unat_minus_one)
    then show ?thesis by (simp add: peer_timeout_def algebra_simps)
  qed
  fix f g :: "peer_request \<Rightarrow> (string + topology) option"
  assume fg: "\<forall>r. rq_timeout_seconds r \<le> 24 \<and> rq_depth r < min depth MAX_DEPTH \<longrightarrow> f r = g r"
  show "describe now (inp\<lparr>in_describe := f\<rparr>) visible depth = describe now (inp\<lparr>in_describe := g\<rparr>) visible depth"
  proof (rule describe_cong)
    fix r :: peer_request assume r: "rq_depth r < min depth MAX_DEPTH" "rq_timeout_seconds r = peer_timeout (rq_depth r)"
    then have "unat (rq_depth r) < 3" by (simp add: word_less_nat_alt unat_min_depth)
    then have "rq_timeout_seconds r \<le> 24" by (simp add: r(2) peer_timeout_def PEER_TIMEOUT_SECONDS_def)
    with fg r(1) show "f r = g r" by blast
  qed
qed

theorem federation_asking_ends_witness:
  "answer (\<lambda>_. None) 0 7 \<lparr>rq_url = ''https://dc1'', rq_api_key = None, rq_insecure_tls = False, rq_timeout_seconds = 8, rq_depth = 255\<rparr>
     = Some (Inl ''unreachable'') \<and> peer_timeout 2 = 24"
proof -
  let ?r = "\<lparr>rq_url = ''https://dc1'', rq_api_key = None, rq_insecure_tls = False, rq_timeout_seconds = 8, rq_depth = 255\<rparr>"
  let ?inp = "\<lparr>in_sources = fmempty, in_cache = mc_new, in_health = hr_new, in_secret = (\<lambda>_. Inr fmempty), in_variable_part = (\<lambda>s. s),
    in_delivery_id = (\<lambda>s. s), in_describe = (\<lambda>_. None), in_push = (\<lambda>_ _. None), in_name = None, in_version = ''1''\<rparr>"
  note ends = federation_asking_ends [of "\<lambda>_. None" 0 ?r 3 ?inp "\<lambda>_. True"]
  from ends [THEN conjunct1, THEN spec, of 7] have "answer (\<lambda>_. None) 0 7 ?r = answer (\<lambda>_. None) 0 4 ?r" by simp
  moreover have "answer (\<lambda>_. None) 0 4 ?r = Some (Inl ''unreachable'')" by (simp add: numeral_eq_Suc)
  moreover from ends [THEN conjunct2, THEN conjunct1, THEN spec, of 2] have "peer_timeout 2 = 8 + peer_timeout 1"
    by (simp add: PEER_TIMEOUT_SECONDS_def)
  ultimately show ?thesis by (simp add: peer_timeout_def PEER_TIMEOUT_SECONDS_def)
qed

section \<open>What a restricted caller learns\<close>

text \<open>Two instances that look the same from the sources a caller may read.\<close>

definition same_for :: "(string \<Rightarrow> bool) \<Rightarrow> inputs \<Rightarrow> inputs \<Rightarrow> bool" where
  "same_for visible a b \<longleftrightarrow>
     (\<forall>i. visible i \<longrightarrow> fmlookup (in_sources a) i = fmlookup (in_sources b) i
        \<and> mc_get (in_cache a) i = mc_get (in_cache b) i
        \<and> (\<forall>now. health_get now (in_health a) i = health_get now (in_health b) i))
     \<and> in_name a = in_name b \<and> in_version a = in_version b
     \<and> in_variable_part a = in_variable_part b \<and> in_delivery_id a = in_delivery_id b"

lemma filter_fm_keys: "filter P (fm_keys m) = sorted_list_of_set {k \<in> fmdom' m. P k}"
proof (rule sorted_distinct_set_unique [THEN sym])
  show "sorted (sorted_list_of_set {k \<in> fmdom' m. P k})" "distinct (sorted_list_of_set {k \<in> fmdom' m. P k})" by simp_all
qed (auto simp: sorted_wrt_filter)

lemma peers_of_cong:
  assumes "\<And>i. visible i \<Longrightarrow> fmlookup ss i = fmlookup ss' i"
  shows "peers_of ss visible = peers_of ss' visible"
proof (rule fmap_ext)
  fix url
  have e: "{i \<in> fmdom' ss. visible i \<and> remote_url (the (fmlookup ss i)) = Some url}
      = {i \<in> fmdom' ss'. visible i \<and> remote_url (the (fmlookup ss' i)) = Some url}"
    using assms by (auto simp: fmlookup_dom'_iff)
  have "map (\<lambda>i. (i, the (fmlookup ss i))) (filter (\<lambda>i. visible i \<and> remote_url (the (fmlookup ss i)) = Some url) (fm_keys ss))
      = map (\<lambda>i. (i, the (fmlookup ss' i))) (filter (\<lambda>i. visible i \<and> remote_url (the (fmlookup ss' i)) = Some url) (fm_keys ss'))"
    unfolding filter_fm_keys e by (rule map_cong [OF refl]) (simp add: assms)
  then show "fmlookup (peers_of ss visible) url = fmlookup (peers_of ss' visible) url"
    unfolding peers_of_lookup by (auto split: list.splits)
qed

text \<open>Peer ports whose answers differ only in what lies behind a peer, and secret stores that differ only in why they fail.\<close>

definition same_answers :: "inputs \<Rightarrow> inputs \<Rightarrow> bool" where
  "same_answers a b \<longleftrightarrow>
     (\<forall>r. case (in_describe a r, in_describe b r) of
            (Some (Inr s), Some (Inr t)) \<Rightarrow> same_card (Some s) (Some t)
          | (x, y) \<Rightarrow> x = y)"

definition same_key :: "inputs \<Rightarrow> inputs \<Rightarrow> string list \<Rightarrow> bool" where
  "same_key a b ids \<longleftrightarrow>
     (case (resolve_credentials (in_secret a) (in_variable_part a) (in_delivery_id a) ids,
            resolve_credentials (in_secret b) (in_variable_part b) (in_delivery_id b) ids) of
        (Inr x, Inr y) \<Rightarrow> x = y
      | (Inl d, Inl e) \<Rightarrow> hides_reason (''not asked: '' @ credential_error_text d)
          \<and> hides_reason (''not asked: '' @ credential_error_text e)
      | _ \<Rightarrow> False)"

definition same_secrets :: "inputs \<Rightarrow> inputs \<Rightarrow> bool" where
  "same_secrets a b \<longleftrightarrow> (\<forall>i s. fmlookup (in_sources a) i = Some s \<longrightarrow> same_key a b (s_credential_ids s))"

lemma describe_peer_same:
  assumes "same_answers a b" "same_key a b (s_credential_ids (key_source ms))"
  shows "same_card (p_instance (describe_peer now a d url ms)) (p_instance (describe_peer now b d url ms))
    \<and> same_reason (p_error (describe_peer now a d url ms)) (p_error (describe_peer now b d url ms))"
proof -
  note sec = assms(2) [unfolded same_key_def]
  show ?thesis
  proof (cases "d = 0")
    case True
    then show ?thesis by (simp add: describe_peer_def same_card_def same_reason_def)
  next
    case False
    show ?thesis
    proof (cases "peer_request_for a url (key_source ms) (d - 1)")
      case (Inl e)
      with False sec show ?thesis
        by (auto simp: describe_peer_def peer_request_for_def same_card_def same_reason_def split: sum.splits)
    next
      case (Inr r)
      with sec have b: "peer_request_for b url (key_source ms) (d - 1) = Inr r"
        by (auto simp: peer_request_for_def split: sum.splits)
      from assms(1) [unfolded same_answers_def, rule_format, of r] False Inr b show ?thesis
        by (cases "in_describe a r"; cases "in_describe b r")
          (auto simp: describe_peer_def Let_def same_reason_def same_card_def split: sum.splits)
    qed
  qed
qed

lemma describe_same_public:
  assumes "\<And>i. visible i \<Longrightarrow> fmlookup (in_sources a) i = fmlookup (in_sources b) i"
    and "in_name a = in_name b" "in_version a = in_version b"
    and "\<And>i s. visible i \<Longrightarrow> R (link_of now a (i, s)) (link_of now b (i, s))"
    and "same_answers a b" "same_secrets a b"
  shows "same_public R (describe now a visible depth) (describe now b visible depth)"
proof -
  let ?g = "peers_of (in_sources a) visible"
  have g: "peers_of (in_sources b) visible = ?g" using peers_of_cong [of visible] assms(1) by metis
  have k: "filter visible (fm_keys (in_sources a)) = filter visible (fm_keys (in_sources b))"
    unfolding filter_fm_keys using assms(1)
    by (intro arg_cong [where f = sorted_list_of_set]) (auto simp: fmlookup_dom'_iff)
  have m: "fmlookup (in_sources a) (fst m) = Some (snd m) \<and> visible (fst m)"
    if "url \<in> fmdom' ?g" "m \<in> set (the (fmlookup ?g url))" for url m
  proof -
    from that(1) obtain ms where ms: "fmlookup ?g url = Some ms" by (auto simp: fmlookup_dom'_iff)
    with that(2) peers_members(4) [OF ms] show ?thesis by auto
  qed
  then have "R (link_of now a m) (link_of now b m)" if "url \<in> fmdom' ?g" "m \<in> set (the (fmlookup ?g url))" for url m
    using assms(4) [of "fst m" "snd m"] that by simp
  moreover have "same_key a b (s_credential_ids (key_source (the (fmlookup ?g url))))" if "url \<in> fmdom' ?g" for url
  proof -
    from that obtain ms where ms: "fmlookup ?g url = Some ms" by (auto simp: fmlookup_dom'_iff)
    then have "ms ! 0 \<in> set (the (fmlookup ?g url))" using peers_members(1) [OF ms] by (cases ms) simp_all
    with m [OF that this] have "fmlookup (in_sources a) (fst (ms ! 0)) = Some (snd (ms ! 0))" by (simp add: ms)
    with assms(6) show ?thesis unfolding same_secrets_def key_source_def ms option.sel by blast
  qed
  ultimately show ?thesis
    unfolding same_public_def describe_peers g
    using describe_peer_same [OF assms(5)] assms(2,3)
    by (simp add: list_all2_map1 list_all2_map2 describe_def Let_def g k) (intro list.rel_refl_strong conjI; simp)
qed

lemma link_of_same: "same_for visible a b \<Longrightarrow> visible i \<Longrightarrow> link_of now a (i, s) = link_of now b (i, s)"
  by (simp add: link_of_def same_for_def)

text \<open>
  C16. A restricted caller learns of the federation what it may read and no more: its map is the same whatever
  the configuration, the cache and the health say of other sources, whatever lies behind the peers it sees but
  their names and versions, and whatever the reason a key could not be read.
\<close>

theorem restricted_map_hides:
  assumes "\<not> is_admin perms" and "same_for (allows_source perms) a b" and "same_answers a b" and "same_secrets a b"
  shows "get_topology now a perms depth = get_topology now b perms depth"
proof -
  have "same_public (=) (describe now a (allows_source perms) d) (describe now b (allows_source perms) d)" for d
    using assms link_of_same [OF assms(2)] by (intro describe_same_public) (auto simp: same_for_def)
  from redacted_eq [OF this] assms(1) show ?thesis by (simp add: get_topology_def Let_def)
qed

text \<open>
  What is pushed to the peers does not depend on the texts of errors: two instances with the same sources and
  cached data whose links fail for other reasons, or whose keys cannot be read for other reasons, push the same map.
\<close>

theorem pushed_map_hides_errors:
  assumes "in_sources a = in_sources b" and "in_name a = in_name b" and "in_version a = in_version b"
    and "\<And>m. same_link (link_of now a m) (link_of now b m)" and "same_answers a b" and "same_secrets a b"
  shows "for_push (describe now a (\<lambda>_. True) PUSH_DEPTH) = for_push (describe now b (\<lambda>_. True) PUSH_DEPTH)"
  using assms by (intro for_push_eq describe_same_public) simp_all

section \<open>The maps an edge keeps\<close>

text \<open>The pushes an edge received, in order, each at its time.\<close>

definition received :: "(instant \<times> string \<times> federation_push) list \<Rightarrow> federation_store" where
  "received ps = fold (\<lambda>(now, by', push). fs_record now by' push) ps fmempty"

fun last_push :: "string \<Rightarrow> (instant \<times> string \<times> federation_push) list \<Rightarrow> (federation_push \<times> instant) option" where
  "last_push k [] = None"
| "last_push k ((now, by', push) # ps) =
     (case last_push k ps of Some x \<Rightarrow> Some x | None \<Rightarrow> if by' = k then Some (push, now) else None)"

lemma last_push_snoc: "last_push k (ps @ [(now, by', push)]) = (if by' = k then Some (push, now) else last_push k ps)"
  by (induction ps) (auto split: option.split)

lemma last_push_time: "last_push k ps = Some (push, at) \<Longrightarrow> \<exists>by'. (at, by', push) \<in> set ps"
  by (induction ps) (auto split: option.splits if_splits)

lemma received_lookup:
  assumes "sorted (map fst ps)" "\<forall>p \<in> set ps. fst p \<le> now"
  shows "(case fmlookup (received ps) k of Some (push, at) \<Rightarrow> if elapsed now at < FEDERATION_EXPIRES then Some (push, at) else None | None \<Rightarrow> None)
    = (case last_push k ps of Some (push, at) \<Rightarrow> if elapsed now at < FEDERATION_EXPIRES then Some (push, at) else None | None \<Rightarrow> None)"
  using assms
proof (induction ps arbitrary: now rule: rev_induct)
  case Nil
  then show ?case by (simp add: received_def)
next
  case (snoc p ps)
  obtain t by' push where p: "p = (t, by', push)" by (cases p)
  from snoc.prems have t: "t \<le> now" "sorted (map fst ps)" "\<forall>q \<in> set ps. fst q \<le> t"
    by (auto simp: p sorted_append)
  note IH = snoc.IH [OF t(2,3)]
  have r: "received (ps @ [(t, b, q)]) = fs_record t b q (received ps)" for b q by (simp add: received_def)
  show ?case
  proof (cases "by' = k")
    case True
    then show ?thesis by (simp add: r p fs_record_def last_push_snoc)
  next
    case False
    have mono: "elapsed now x < FEDERATION_EXPIRES \<Longrightarrow> elapsed t x < FEDERATION_EXPIRES" for x
      using t(1) by (simp add: elapsed_def)
    from False IH show ?thesis
      by (cases "fmlookup (received ps) k"; cases "last_push k ps")
        (auto simp: r p fs_record_def last_push_snoc dest: mono split: if_splits)
  qed
qed

text \<open>
  What an edge shows of the federations it is in: exactly one map per sender heard of in the last ten
  minutes, the last it pushed, with its age in seconds, the newest first and by the sender's name among equals.
\<close>

theorem federation_list_exact:
  assumes "sorted (map fst ps)" and "\<forall>p \<in> set ps. fst p \<le> now"
  shows "sorted (map (\<lambda>f. (fd_age_seconds f, fd_pushed_by f)) (fs_list now (received ps)))
    \<and> distinct (map fd_pushed_by (fs_list now (received ps)))
    \<and> (\<forall>f. f \<in> set (fs_list now (received ps)) \<longleftrightarrow>
         (\<exists>push at. last_push (fd_pushed_by f) ps = Some (push, at) \<and> elapsed now at < from_secs 600
            \<and> f = \<lparr>fd_pushed_by = fd_pushed_by f, fd_url = fp_url push, fd_sender_url = fp_sender_url push,
                   fd_sender = fp_sender push, fd_topology = fp_topology push, fd_age_seconds = as_secs (elapsed now at)\<rparr>))"
proof -
  let ?st = "received ps"
  define row where "row = (\<lambda>k (push :: federation_push, at). \<lparr>fd_pushed_by = k, fd_url = fp_url push, fd_sender_url = fp_sender_url push,
                  fd_sender = fp_sender push, fd_topology = fp_topology push,
                  fd_age_seconds = as_secs (elapsed now at)\<rparr> :: federation)"
  let ?ks = "filter (\<lambda>k. elapsed now (snd (the (fmlookup ?st k))) < FEDERATION_EXPIRES) (fm_keys ?st)"
  have l: "fs_list now ?st = sort_key (\<lambda>f. (fd_age_seconds f, fd_pushed_by f)) (map (\<lambda>k. row k (the (fmlookup ?st k))) ?ks)"
    by (simp add: fs_list_def row_def case_prod_beta Let_def)
  have by': "fd_pushed_by (row k x) = k" for k x by (cases x) (simp add: row_def)
  have sorted: "sorted (map (\<lambda>f. (fd_age_seconds f, fd_pushed_by f)) (fs_list now ?st))" by (simp add: l)
  let ?rows = "map (\<lambda>k. row k (the (fmlookup ?st k))) ?ks"
  have "distinct (map fd_pushed_by ?rows)" by (simp add: comp_def by')
  moreover have "mset (map fd_pushed_by (fs_list now ?st)) = mset (map fd_pushed_by ?rows)" by (simp only: l mset_map mset_sort)
  ultimately have distinct: "distinct (map fd_pushed_by (fs_list now ?st))" using mset_eq_imp_distinct_iff by blast
  have set: "set (fs_list now ?st) = {f. \<exists>k push at. fmlookup ?st k = Some (push, at) \<and> elapsed now at < FEDERATION_EXPIRES \<and> f = row k (push, at)}"
  proof -
    have "set (fs_list now ?st) = (\<lambda>k. row k (the (fmlookup ?st k))) ` {k \<in> fmdom' ?st. elapsed now (snd (the (fmlookup ?st k))) < FEDERATION_EXPIRES}"
      by (simp add: l)
    then show ?thesis
    proof (intro set_eqI iffI)
      fix f assume "f \<in> {f. \<exists>k push at. fmlookup ?st k = Some (push, at) \<and> elapsed now at < FEDERATION_EXPIRES \<and> f = row k (push, at)}"
      then obtain k push at where "fmlookup ?st k = Some (push, at)" "elapsed now at < FEDERATION_EXPIRES" "f = row k (push, at)" by blast
      then have "f \<in> (\<lambda>k. row k (the (fmlookup ?st k))) ` {k \<in> fmdom' ?st. elapsed now (snd (the (fmlookup ?st k))) < FEDERATION_EXPIRES}"
        by (intro image_eqI [of _ _ k]) (simp_all add: fmlookup_fmdom')
      then show "f \<in> set (fs_list now ?st)" by (simp add: l)
    next
      fix f assume "f \<in> set (fs_list now ?st)"
      then obtain k where "f = row k (the (fmlookup ?st k))" "k \<in> fmdom' ?st" "elapsed now (snd (the (fmlookup ?st k))) < FEDERATION_EXPIRES"
        by (auto simp: l)
      moreover from this obtain push at where "fmlookup ?st k = Some (push, at)" by (auto simp: fmlookup_dom'_iff)
      ultimately have "fmlookup ?st k = Some (push, at) \<and> elapsed now at < FEDERATION_EXPIRES \<and> f = row k (push, at)" by simp
      then show "f \<in> {f. \<exists>k push at. fmlookup ?st k = Some (push, at) \<and> elapsed now at < FEDERATION_EXPIRES \<and> f = row k (push, at)}"
        by blast
    qed
  qed
  have look: "(fmlookup ?st k = Some (push, at) \<and> elapsed now at < FEDERATION_EXPIRES)
      \<longleftrightarrow> (last_push k ps = Some (push, at) \<and> elapsed now at < FEDERATION_EXPIRES)" for k push at
    using received_lookup [OF assms, of k] by (auto split: option.splits if_splits)
  have "f \<in> set (fs_list now ?st) \<longleftrightarrow>
         (\<exists>push at. last_push (fd_pushed_by f) ps = Some (push, at) \<and> elapsed now at < FEDERATION_EXPIRES
            \<and> f = row (fd_pushed_by f) (push, at))" for f
  proof
    assume "f \<in> set (fs_list now ?st)"
    then obtain k push at where k: "fmlookup ?st k = Some (push, at)" "elapsed now at < FEDERATION_EXPIRES" "f = row k (push, at)"
      unfolding set by blast
    then have "last_push k ps = Some (push, at)" using look by blast
    moreover have "k = fd_pushed_by f" by (simp add: k(3) by')
    ultimately show "\<exists>push at. last_push (fd_pushed_by f) ps = Some (push, at) \<and> elapsed now at < FEDERATION_EXPIRES
            \<and> f = row (fd_pushed_by f) (push, at)" using k by blast
  next
    assume "\<exists>push at. last_push (fd_pushed_by f) ps = Some (push, at) \<and> elapsed now at < FEDERATION_EXPIRES
            \<and> f = row (fd_pushed_by f) (push, at)"
    then show "f \<in> set (fs_list now ?st)" unfolding set using look by blast
  qed
  with sorted distinct show ?thesis by (simp add: row_def FEDERATION_EXPIRES_def)
qed

definition sample_push :: federation_push where
  "sample_push = \<lparr>fp_url = ''https://dc1'', fp_sender_url = None,
     fp_sender = \<lparr>is_sources = [], is_hosts = 0, is_groups = 0, is_endpoints = 0, is_oldest_age_seconds = None\<rparr>,
     fp_topology = Topology None ''1'' None []\<rparr>"

theorem federation_list_exact_witness:
  "distinct (map fd_pushed_by (fs_list (from_secs 5) (received [(0, ''central'', sample_push), (from_secs 1, ''central'', sample_push)])))"
proof -
  have "sorted (map fst [(0, ''central'', sample_push), (from_secs 1, ''central'', sample_push)])" by simp
  moreover have "\<forall>p \<in> set [(0, ''central'', sample_push), (from_secs 1, ''central'', sample_push)]. fst p \<le> from_secs 5"
    by (simp add: from_secs_def)
  ultimately show ?thesis using federation_list_exact by blast
qed

definition edge_source :: source where
  "edge_source = sample_source\<lparr>s_connector_type := CT_remote, s_credential_ids := [''edge''],
     s_config := fmap_of_list [(''url'', ''https://dc1/'')]\<rparr>"

definition sample_inputs :: "string \<Rightarrow> nat \<Rightarrow> inputs" where
  "sample_inputs reason n = \<lparr>in_sources = fmap_of_list [(''edge'', edge_source)], in_cache = mc_new, in_health = hr_new,
     in_secret = (\<lambda>_. Inl reason), in_variable_part = (\<lambda>s. s), in_delivery_id = (\<lambda>s. s),
     in_describe = (\<lambda>_. Some (Inr (Topology None ''1'' (Some n) []))), in_push = (\<lambda>_ _. None), in_name = None, in_version = ''1''\<rparr>"

lemma sample_inputs_same:
  "same_answers (sample_inputs ''denied'' 1) (sample_inputs ''no TOKEN'' 2)"
  "same_secrets (sample_inputs ''denied'' 1) (sample_inputs ''no TOKEN'' 2)"
proof -
  show "same_answers (sample_inputs ''denied'' 1) (sample_inputs ''no TOKEN'' 2)"
    by (simp add: same_answers_def sample_inputs_def same_card_def)
  have "hides_reason (''not asked: '' @ credential_error_text (Not_resolved ''edge'' ''denied''))"
    "hides_reason (''not asked: '' @ credential_error_text (Not_resolved ''edge'' ''no TOKEN''))" by code_simp+
  then show "same_secrets (sample_inputs ''denied'' 1) (sample_inputs ''no TOKEN'' 2)"
    by (simp add: same_secrets_def same_key_def sample_inputs_def edge_source_def sample_source_def resolve_credentials_def resolve_one_def
        del: credential_error_text.simps append_Cons)
qed

theorem restricted_map_hides_witness:
  "get_topology 0 (sample_inputs ''denied'' 1) (Perm_scoped {''edge''} {}) None
     = get_topology 0 (sample_inputs ''no TOKEN'' 2) (Perm_scoped {''edge''} {}) None"
proof (rule restricted_map_hides [OF _ _ sample_inputs_same])
  show "same_for (allows_source (Perm_scoped {''edge''} {})) (sample_inputs ''denied'' 1) (sample_inputs ''no TOKEN'' 2)"
    by (simp add: same_for_def sample_inputs_def)
qed simp

theorem pushed_map_hides_errors_witness:
  "for_push (describe 0 (sample_inputs ''denied'' 1) (\<lambda>_. True) PUSH_DEPTH)
     = for_push (describe 0 (sample_inputs ''no TOKEN'' 2) (\<lambda>_. True) PUSH_DEPTH)"
proof (rule pushed_map_hides_errors [OF _ _ _ _ sample_inputs_same])
  have same: "link_of 0 (sample_inputs ''denied'' 1) m = link_of 0 (sample_inputs ''no TOKEN'' 2) m" for m
    by (cases m) (simp add: link_of_def sample_inputs_def)
  have "same_link x x" for x
    unfolding same_link_def by (rule exI [of _ "ps_last_error x"]) simp
  then show "same_link (link_of 0 (sample_inputs ''denied'' 1) m) (link_of 0 (sample_inputs ''no TOKEN'' 2) m)" for m
    unfolding same .
qed (simp_all add: sample_inputs_def)

theorem describe_accounts_for_peers_witness:
  "map p_url (t_peers (describe 0 (sample_inputs ''denied'' 1) (\<lambda>_. True) 2)) = [''https://dc1'']"
proof -
  have "remote_url edge_source = Some ''https://dc1''" by code_simp
  then have "fm_keys (peers_of (in_sources (sample_inputs ''denied'' 1)) (\<lambda>_. True)) = [''https://dc1'']"
    by (simp add: sample_inputs_def peers_of_def fm_fold_def fm_keys_def fm_or_default_def)
  with describe_accounts_for_peers [of 0 "sample_inputs ''denied'' 1" "\<lambda>_. True" 2] show ?thesis
    unfolding Let_def by metis
qed

end
