(* ===== verification/Runtime.thy ===== *)
theory Runtime
  imports Config Refresh Topology
begin

text \<open>
  The running configuration and its reload: \<open>src/src/state.rs\<close>, \<open>src/src/application/config.rs\<close> and
  the checks of \<open>src/src/adapters/in/http/config.rs\<close> before one is applied. Everything a reload swaps is a
  field of one state; the sessions are the ids behind them, and building the secrets chain is left out.
  The lemmas say that a reload reports every setting that changed, either as applied or as
  waiting for a restart, that it keeps data of configured sources only, and that it never turns authentication off.
\<close>

section \<open>State\<close>

record runtime_config =
  rc_sources :: sources
  rc_connectors :: "(string, connector) fmap"
  rc_credentials :: "(string, credential) fmap"
  rc_views :: "(string, view) fmap"
  rc_enrichers :: "(string, enricher) fmap"
  rc_endpoints :: "(string, endpoint) fmap"
  rc_projects :: "(string, git_project) fmap"
  rc_secrets :: "nat option \<times> nat option \<times> string"
  rc_readyz_require_all_sources :: bool
  rc_metrics_require_auth :: bool
  rc_max_body_bytes :: nat
  rc_cors_allowed_origins :: "string list"
  rc_shutdown_grace_seconds :: nat
  rc_refresh_timeout_seconds :: nat
  rc_refresh_max_concurrent :: nat
  rc_ldap :: "ldap_config option"
  rc_ui_home :: string
  rc_url :: "string option"
  rc_name :: "string option"

definition runtime_config_of :: "app_config \<Rightarrow> runtime_config" where
  "runtime_config_of c =
     \<lparr>rc_sources = ac_sources c, rc_connectors = ac_connectors c, rc_credentials = ac_credentials c,
      rc_views = ac_views c, rc_enrichers = ac_enrichers c, rc_endpoints = ac_endpoints c,
      rc_projects = ac_projects c,
      rc_secrets = (ac_secrets_cache_ttl c, ac_secrets_vault c, ac_secrets_other c),
      rc_readyz_require_all_sources = sv_readyz_require_all_sources (ac_server c),
      rc_metrics_require_auth = sv_metrics_require_auth (ac_server c),
      rc_max_body_bytes = sv_max_body_bytes (ac_server c),
      rc_cors_allowed_origins = sv_cors_allowed_origins (ac_server c),
      rc_shutdown_grace_seconds = sv_shutdown_grace_seconds (ac_server c),
      rc_refresh_timeout_seconds = sv_refresh_timeout_seconds (ac_server c),
      rc_refresh_max_concurrent = sv_refresh_max_concurrent (ac_server c),
      rc_ldap = ui_ldap (sv_ui (ac_server c)),
      rc_ui_home = ui_home_path (sv_ui (ac_server c)),
      rc_url = map_option (\<lambda>url. without_userinfo (trim_end_char (CHR ''/'') url)) (sv_url (ac_server c)),
      rc_name = sv_name (ac_server c)\<rparr>"

text \<open>
  The store of browser sessions belongs to the crate \<open>auth_rs\<close>: its operations are a parameter, and its state is
  read here as who opened each session, a key, by its id, or a directory account.
\<close>

datatype session = Key_session string | Directory_session string

record session_store =
  ss_end_directory :: "session list \<Rightarrow> session list"
  ss_retain_keys :: "string list \<Rightarrow> session list \<Rightarrow> session list"

record app_state =
  as_config :: runtime_config
  as_live :: "restart_only option"
  as_restart_pending :: "string list"
  as_generation :: u64
  as_cache :: mem_cache
  as_limiter :: limiter
  as_budget :: nat
  as_sessions :: "session list"
  as_keys :: "resolved_key list"

section \<open>The source a sync runs\<close>

definition source_for_sync ::
  "(string \<Rightarrow> bool) \<Rightarrow> (string \<Rightarrow> bool) \<Rightarrow> string \<Rightarrow> runtime_config \<Rightarrow> string \<Rightarrow> source option" where
  "source_for_sync is_file is_dir projects_dir c i =
     map_option
       (\<lambda>s. let reads_here = (case s_connector_type s of
                    CT_remote \<Rightarrow> False
                  | CT_ssh \<Rightarrow> s_ssh_location s = Some At_instance
                  | CT_script \<Rightarrow> True
                  | CT_static_inventory \<Rightarrow> True)
             in case s_project_id s of
                  None \<Rightarrow> s
                | Some project \<Rightarrow>
                    if \<not> reads_here then s
                    else
                      (let s = s\<lparr>s_script_path := resolve_script_path is_file projects_dir project (s_script_path s)\<rparr>
                       in if s_connector_type s = CT_ssh then s
                          else (case venv_bin_dir is_dir projects_dir project of
                                  None \<Rightarrow> s
                                | Some bin \<Rightarrow> s\<lparr>s_config := fmupd VENV_BIN_CONFIG_KEY bin (s_config s)\<rparr>)))
       (fmlookup (rc_sources c) i)"

section \<open>What changed\<close>

record section_delta =
  sd_added :: "string list"
  sd_removed :: "string list"
  sd_changed :: "string list"

definition between :: "(string, 'a) fmap \<Rightarrow> (string, 'a) fmap \<Rightarrow> section_delta" where
  "between old new =
     \<lparr>sd_added = filter (\<lambda>i. fmlookup old i = None) (fm_keys new),
      sd_removed = filter (\<lambda>i. fmlookup new i = None) (fm_keys old),
      sd_changed = filter (\<lambda>i. case fmlookup old i of None \<Rightarrow> False | Some x \<Rightarrow> fmlookup new i \<noteq> Some x) (fm_keys new)\<rparr>"

definition delta_is_empty :: "section_delta \<Rightarrow> bool" where
  "delta_is_empty d \<longleftrightarrow> sd_added d = [] \<and> sd_removed d = [] \<and> sd_changed d = []"

definition delta_total :: "section_delta \<Rightarrow> nat" where
  "delta_total d = length (sd_added d) + length (sd_removed d) + length (sd_changed d)"

record reload_report =
  rr_generation :: u64
  rr_applied :: "string list"
  rr_restart_required :: "string list"
  rr_sources :: section_delta
  rr_connectors :: section_delta
  rr_views :: section_delta
  rr_enrichers :: section_delta
  rr_endpoints :: section_delta
  rr_projects :: section_delta
  rr_credentials :: section_delta

definition changed_anything :: "reload_report \<Rightarrow> bool" where
  "changed_anything r \<longleftrightarrow> rr_applied r \<noteq> []"

definition diff :: "runtime_config \<Rightarrow> runtime_config \<Rightarrow> app_config \<Rightarrow> restart_only option \<Rightarrow> reload_report" where
  "diff previous next' cfg live =
     (let sources = between (rc_sources previous) (rc_sources next');
          connectors = between (rc_connectors previous) (rc_connectors next');
          views = between (rc_views previous) (rc_views next');
          enrichers = between (rc_enrichers previous) (rc_enrichers next');
          endpoints = between (rc_endpoints previous) (rc_endpoints next');
          projects = between (rc_projects previous) (rc_projects next');
          credentials = between (rc_credentials previous) (rc_credentials next');
          applied = set_keys
            [(''sources'', \<not> delta_is_empty sources), (''connectors'', \<not> delta_is_empty connectors),
             (''views'', \<not> delta_is_empty views), (''enrichers'', \<not> delta_is_empty enrichers),
             (''endpoints'', \<not> delta_is_empty endpoints), (''projects'', \<not> delta_is_empty projects),
             (''credentials'', \<not> delta_is_empty credentials),
             (''secrets'', rc_secrets previous \<noteq> rc_secrets next'),
             (''server.readyz_require_all_sources'', rc_readyz_require_all_sources previous \<noteq> rc_readyz_require_all_sources next'),
             (''server.metrics_require_auth'', rc_metrics_require_auth previous \<noteq> rc_metrics_require_auth next'),
             (''server.cors_allowed_origins'', rc_cors_allowed_origins previous \<noteq> rc_cors_allowed_origins next'),
             (''server.max_body_bytes'', rc_max_body_bytes previous \<noteq> rc_max_body_bytes next'),
             (''server.shutdown_grace_seconds'', rc_shutdown_grace_seconds previous \<noteq> rc_shutdown_grace_seconds next'),
             (''server.url'', rc_url previous \<noteq> rc_url next'),
             (''server.name'', rc_name previous \<noteq> rc_name next'),
             (''server.refresh_timeout_seconds'', rc_refresh_timeout_seconds previous \<noteq> rc_refresh_timeout_seconds next'),
             (''server.refresh_max_concurrent'', rc_refresh_max_concurrent previous \<noteq> rc_refresh_max_concurrent next'),
             (''server.ui.ldap'', rc_ldap previous \<noteq> rc_ldap next'),
             (''server.ui.home'', rc_ui_home previous \<noteq> rc_ui_home next')]
      in \<lparr>rr_generation = 0, rr_applied = sort applied,
          rr_restart_required = (case live of None \<Rightarrow> [] | Some l \<Rightarrow> changed_keys l (restart_only_of cfg)),
          rr_sources = sources, rr_connectors = connectors, rr_views = views, rr_enrichers = enrichers,
          rr_endpoints = endpoints, rr_projects = projects, rr_credentials = credentials\<rparr>)"

definition pending :: "app_state \<Rightarrow> app_config \<Rightarrow> reload_report" where
  "pending st cfg = diff (as_config st) (runtime_config_of cfg) cfg (as_live st)"

section \<open>Adopting a configuration\<close>

definition drop_unconfigured_entries :: "app_state \<Rightarrow> app_state \<times> string list" where
  "drop_unconfigured_entries st =
     (let dropped = filter (\<lambda>i. fmlookup (rc_sources (as_config st)) i = None) (mc_keys (as_cache st))
      in (st\<lparr>as_cache := fold mc_remove dropped (as_cache st)\<rparr>, dropped))"

text \<open>\<open>ReloadNotifier::bump\<close>; the counter is a \<open>u64\<close>, and the sum wraps as a release build's does.\<close>

definition bump :: "u64 \<Rightarrow> u64" where
  "bump g = g + 1"

definition apply_config :: "session_store \<Rightarrow> app_config \<Rightarrow> app_state \<Rightarrow> app_state \<times> reload_report" where
  "apply_config sst cfg st =
     (let next' = runtime_config_of cfg;
          previous = as_config st;
          st = st\<lparr>as_config := next'\<rparr>;
          st = (if rc_refresh_max_concurrent previous \<noteq> rc_refresh_max_concurrent next'
                   \<or> rc_refresh_timeout_seconds previous \<noteq> rc_refresh_timeout_seconds next'
                then st\<lparr>as_limiter := resize (rc_refresh_max_concurrent next') (as_limiter st),
                        as_budget := rc_refresh_timeout_seconds next'\<rparr>
                else st);
          st = (if rc_ldap previous \<noteq> rc_ldap next' then st\<lparr>as_sessions := ss_end_directory sst (as_sessions st)\<rparr> else st);
          st = fst (drop_unconfigured_entries st);
          report = diff previous next' cfg (as_live st);
          st = st\<lparr>as_restart_pending := rr_restart_required report, as_generation := bump (as_generation st)\<rparr>
      in (st, report\<lparr>rr_generation := as_generation st\<rparr>))"

section \<open>Before a reload is applied\<close>

datatype reload_refusal =
    Keys_unresolved key_error
  | Ldap_without_keys
  | Authentication_off

definition keys_for :: "(string \<Rightarrow> string option) \<Rightarrow> app_config \<Rightarrow> resolved_key list \<Rightarrow> reload_refusal + resolved_key list" where
  "keys_for getenv cfg current =
     (case resolve_api_keys getenv (ac_api_keys cfg) of
        Inl e \<Rightarrow> Inl (Keys_unresolved e)
      | Inr keys \<Rightarrow>
          if \<not> ldap_requires_keys (ui_ldap (sv_ui (ac_server cfg))) keys then Inl Ldap_without_keys
          else if keys = [] \<and> current \<noteq> [] then Inl Authentication_off
          else Inr keys)"

definition swap_keys :: "session_store \<Rightarrow> resolved_key list \<Rightarrow> app_state \<Rightarrow> app_state" where
  "swap_keys sst keys st = st\<lparr>as_keys := keys, as_sessions := ss_retain_keys sst (map rk_id keys) (as_sessions st)\<rparr>"

text \<open>\<open>prepare\<close> and then \<open>apply\<close> of the service, as the shared routes call them.\<close>

definition reload :: "session_store \<Rightarrow> (string \<Rightarrow> string option) \<Rightarrow> app_config \<Rightarrow> app_state \<Rightarrow> reload_refusal + app_state \<times> reload_report" where
  "reload sst getenv cfg st =
     (case keys_for getenv cfg (as_keys st) of
        Inl e \<Rightarrow> Inl e
      | Inr keys \<Rightarrow> (let (st, report) = apply_config sst cfg st in Inr (swap_keys sst keys st, report)))"


section \<open>A reload reports what it did and what it could not\<close>

lemma set_keys_iff: "k \<in> set (set_keys kvs) \<longleftrightarrow> (k, True) \<in> set kvs"
  by (force simp: set_keys_def)

lemma between_empty: "delta_is_empty (between old new) \<longleftrightarrow> old = new"
proof
  assume e: "delta_is_empty (between old new)"
  show "old = new"
  proof (rule fmap_ext)
    fix i
    show "fmlookup old i = fmlookup new i"
    proof (cases "fmlookup new i")
      case None
      show ?thesis
      proof (rule ccontr)
        assume "fmlookup old i \<noteq> fmlookup new i"
        with None have "i \<in> fmdom' old" by (auto simp: fmlookup_dom'_iff)
        with e None show False by (auto simp: delta_is_empty_def between_def filter_empty_conv)
      qed
    next
      case (Some x)
      then have "i \<in> fmdom' new" by (simp add: fmlookup_dom'_iff)
      with e Some show ?thesis
        by (cases "fmlookup old i") (auto simp: delta_is_empty_def between_def filter_empty_conv)
    qed
  qed
next
  assume "old = new"
  then show "delta_is_empty (between old new)"
    by (auto simp: delta_is_empty_def between_def filter_empty_conv fmlookup_dom'_iff split: option.splits)
qed

text \<open>
  What a reload reports of one section is exact: an id is added, removed or changed just when the two
  configurations say so of it, it is never two of these, the lists are sorted and name nothing twice, and
  the delta is empty only for equal sections.
\<close>

theorem between_exact:
  "(i \<in> set (sd_added (between old new)) \<longleftrightarrow> fmlookup old i = None \<and> fmlookup new i \<noteq> None)
   \<and> (i \<in> set (sd_removed (between old new)) \<longleftrightarrow> fmlookup old i \<noteq> None \<and> fmlookup new i = None)
   \<and> (i \<in> set (sd_changed (between old new)) \<longleftrightarrow>
        fmlookup old i \<noteq> None \<and> fmlookup new i \<noteq> None \<and> fmlookup old i \<noteq> fmlookup new i)
   \<and> sorted (sd_added (between old new)) \<and> distinct (sd_added (between old new))
   \<and> sorted (sd_removed (between old new)) \<and> distinct (sd_removed (between old new))
   \<and> sorted (sd_changed (between old new)) \<and> distinct (sd_changed (between old new))
   \<and> (delta_is_empty (between old new) \<longleftrightarrow> old = new)
   \<and> (delta_total (between old new) = 0 \<longleftrightarrow> old = new)"
proof -
  have total: "delta_total d = 0 \<longleftrightarrow> delta_is_empty d" for d
    by (auto simp: delta_total_def delta_is_empty_def)
  show ?thesis
    unfolding total between_empty
    by (auto simp: between_def fmlookup_dom'_iff sorted_wrt_filter split: option.splits)
qed

lemma sort_nil: "sort (xs :: string list) = [] \<longleftrightarrow> xs = []"
  by (cases xs) simp_all

lemma applied_nil: "rr_applied (diff a b c live) = [] \<longleftrightarrow> a = b"
proof -
  have "rr_applied (diff a b c live) = [] \<longleftrightarrow>
      rc_sources a = rc_sources b \<and> rc_connectors a = rc_connectors b \<and> rc_views a = rc_views b
      \<and> rc_enrichers a = rc_enrichers b \<and> rc_endpoints a = rc_endpoints b \<and> rc_projects a = rc_projects b
      \<and> rc_credentials a = rc_credentials b \<and> rc_secrets a = rc_secrets b
      \<and> rc_readyz_require_all_sources a = rc_readyz_require_all_sources b
      \<and> rc_metrics_require_auth a = rc_metrics_require_auth b
      \<and> rc_cors_allowed_origins a = rc_cors_allowed_origins b \<and> rc_max_body_bytes a = rc_max_body_bytes b
      \<and> rc_shutdown_grace_seconds a = rc_shutdown_grace_seconds b \<and> rc_url a = rc_url b \<and> rc_name a = rc_name b
      \<and> rc_refresh_timeout_seconds a = rc_refresh_timeout_seconds b
      \<and> rc_refresh_max_concurrent a = rc_refresh_max_concurrent b \<and> rc_ldap a = rc_ldap b
      \<and> rc_ui_home a = rc_ui_home b"
    by (simp add: diff_def Let_def set_keys_nil between_empty sort_nil)
  also have "\<dots> \<longleftrightarrow> a = b" by (cases a; cases b) auto
  finally show ?thesis .
qed

lemma restart_required_eq:
  "rr_restart_required (diff a b cfg live) = (case live of None \<Rightarrow> [] | Some l \<Rightarrow> changed_keys l (restart_only_of cfg))"
  by (simp add: diff_def Let_def)

definition same_settings :: "app_config \<Rightarrow> app_config \<Rightarrow> bool" where
  "same_settings c c' \<longleftrightarrow>
     (let s = ac_server c; s' = ac_server c'; u = sv_ui s; u' = sv_ui s'
      in ac_sources c = ac_sources c' \<and> ac_connectors c = ac_connectors c' \<and> ac_credentials c = ac_credentials c'
         \<and> ac_views c = ac_views c' \<and> ac_enrichers c = ac_enrichers c' \<and> ac_endpoints c = ac_endpoints c'
         \<and> ac_projects c = ac_projects c' \<and> ac_persistence c = ac_persistence c'
         \<and> ac_projects_dir c = ac_projects_dir c' \<and> ac_config_api_enabled c = ac_config_api_enabled c'
         \<and> ac_secrets_cache_ttl c = ac_secrets_cache_ttl c' \<and> ac_secrets_vault c = ac_secrets_vault c'
         \<and> ac_secrets_other c = ac_secrets_other c'
         \<and> sv_host s = sv_host s' \<and> sv_port s = sv_port s' \<and> sv_cors_allowed_origins s = sv_cors_allowed_origins s'
         \<and> sv_readyz_require_all_sources s = sv_readyz_require_all_sources s'
         \<and> sv_metrics_require_auth s = sv_metrics_require_auth s'
         \<and> sv_refresh_timeout_seconds s = sv_refresh_timeout_seconds s'
         \<and> sv_refresh_max_concurrent s = sv_refresh_max_concurrent s'
         \<and> sv_shutdown_grace_seconds s = sv_shutdown_grace_seconds s' \<and> sv_max_body_bytes s = sv_max_body_bytes s'
         \<and> (sv_url s = None \<longleftrightarrow> sv_url s' = None) \<and> sv_name s = sv_name s'
         \<and> ui_enabled u = ui_enabled u' \<and> ui_session_ttl_seconds u = ui_session_ttl_seconds u' \<and> ui_ldap u = ui_ldap u'
         \<and> ui_assets_dir u = ui_assets_dir u' \<and> ui_home_path u = ui_home_path u')"


definition booted :: "app_config \<Rightarrow> app_state" where
  "booted c =
     \<lparr>as_config = runtime_config_of c, as_live = Some (restart_only_of c), as_restart_pending = [], as_generation = 0,
      as_cache = mc_new, as_limiter = limiter_new (sv_refresh_max_concurrent (ac_server c)),
      as_budget = sv_refresh_timeout_seconds (ac_server c), as_sessions = [], as_keys = []\<rparr>"


lemma get_after_removals: "mc_get (fold mc_remove ks c) i = (if i \<in> set ks then None else mc_get c i)"
  by (induction ks arbitrary: c) (auto simp: mc_defs)

lemma drop_unconfigured_fields [simp]:
  "as_config (fst (drop_unconfigured_entries st)) = as_config st"
  "as_live (fst (drop_unconfigured_entries st)) = as_live st"
  "as_generation (fst (drop_unconfigured_entries st)) = as_generation st"
  "as_limiter (fst (drop_unconfigured_entries st)) = as_limiter st"
  "as_budget (fst (drop_unconfigured_entries st)) = as_budget st"
  "as_sessions (fst (drop_unconfigured_entries st)) = as_sessions st"
  "as_keys (fst (drop_unconfigured_entries st)) = as_keys st"
  by (simp_all add: drop_unconfigured_entries_def Let_def)

lemma drop_unconfigured_get:
  "mc_get (as_cache (fst (drop_unconfigured_entries st))) i =
     (if fmlookup (rc_sources (as_config st)) i = None then None else mc_get (as_cache st) i)"
proof -
  have "i \<in> set (mc_keys (as_cache st)) \<longleftrightarrow> mc_get (as_cache st) i \<noteq> None"
    by (simp add: mc_keys_def mc_get_def fmlookup_dom'_iff)
  then show ?thesis by (auto simp: drop_unconfigured_entries_def Let_def get_after_removals)
qed

lemma resize_ok: "limiter_ok l \<Longrightarrow> limiter_ok (resize n l)"
  using limiter_step_ok [of l "Resize n"] by simp

lemma bump_changes: "bump g \<noteq> g"
  by (simp add: bump_def)

definition documented_store :: "session_store \<Rightarrow> bool" where
  "documented_store sst \<longleftrightarrow>
     (\<forall>ss s. s \<in> set (ss_end_directory sst ss) \<longleftrightarrow> s \<in> set ss \<and> (\<exists>i. s = Key_session i))
     \<and> (\<forall>live ss s. s \<in> set (ss_retain_keys sst live ss) \<longleftrightarrow>
          s \<in> set ss \<and> (case s of Key_session i \<Rightarrow> i \<in> set live | Directory_session _ \<Rightarrow> True))"

definition sample_store :: session_store where
  "sample_store = \<lparr>ss_end_directory = filter (\<lambda>s. case s of Key_session _ \<Rightarrow> True | Directory_session _ \<Rightarrow> False),
     ss_retain_keys = (\<lambda>live. filter (\<lambda>s. case s of Key_session i \<Rightarrow> i \<in> set live | Directory_session _ \<Rightarrow> True))\<rparr>"

lemma sample_store_documented: "documented_store sample_store"
  by (auto simp: documented_store_def sample_store_def split: session.splits)

definition refresh_follows :: "app_state \<Rightarrow> bool" where
  "refresh_follows st \<longleftrightarrow> as_budget st = rc_refresh_timeout_seconds (as_config st)
     \<and> lm_capacity (as_limiter st) = max (rc_refresh_max_concurrent (as_config st)) 1"

lemma resize_capacity: "lm_capacity (resize n l) = max n 1"
  by (simp add: resize_def add_permits_def settle_def Let_def)

lemma apply_config_fields:
  assumes "apply_config sst cfg st = (st', report)"
  shows "report = (pending st cfg)\<lparr>rr_generation := as_generation st'\<rparr>"
    and "as_generation st' = bump (as_generation st)" and "as_config st' = runtime_config_of cfg"
    and "as_live st' = as_live st" and "as_restart_pending st' = rr_restart_required report"
    and "as_keys st' = as_keys st"
    and "mc_get (as_cache st') i = (if fmlookup (ac_sources cfg) i = None then None else mc_get (as_cache st) i)"
    and "as_limiter st' = as_limiter st \<or> (\<exists>n. as_limiter st' = resize n (as_limiter st))"
    and "as_sessions st' = (if rc_ldap (as_config st) = ui_ldap (sv_ui (ac_server cfg)) then as_sessions st
                         else ss_end_directory sst (as_sessions st))"
    and "refresh_follows st \<Longrightarrow> refresh_follows st'"
  using assms drop_unconfigured_get [of _ i]
  by (auto simp: apply_config_def pending_def Let_def runtime_config_of_def
      refresh_follows_def resize_capacity split: if_splits)

text \<open>
  C25. A reload adopts the configuration once: what \<open>apply\<close> reports is what \<open>pending\<close> said it would be, afterwards
  nothing is left to apply and what waits for a restart is still reported; the scheduler is told (a new
  generation); the cache keeps the entries of the sources the new configuration has, untouched, and no others;
  the permits in flight stay accounted for; and the session store is told to end the sessions of directory
  accounts just when the directory settings changed.
\<close>

theorem apply_config_exact:
  assumes a: "apply_config sst cfg st = (st', report)"
  shows "report\<lparr>rr_generation := 0\<rparr> = pending st cfg
     \<and> rr_generation report = as_generation st' \<and> as_generation st' \<noteq> as_generation st
     \<and> as_config st' = runtime_config_of cfg
     \<and> \<not> changed_anything (pending st' cfg)
     \<and> rr_restart_required (pending st' cfg) = rr_restart_required report
     \<and> as_restart_pending st' = rr_restart_required report
     \<and> mc_get (as_cache st') i = (if fmlookup (ac_sources cfg) i = None then None else mc_get (as_cache st) i)
     \<and> (limiter_ok (as_limiter st) \<longrightarrow> limiter_ok (as_limiter st'))
     \<and> as_sessions st' = (if rc_ldap (as_config st) = ui_ldap (sv_ui (ac_server cfg)) then as_sessions st
                         else ss_end_directory sst (as_sessions st))
     \<and> (refresh_follows st \<longrightarrow> refresh_follows st')
     \<and> as_keys st' = as_keys st"
proof -
  note f = apply_config_fields [OF a]
  have "rr_generation (pending st cfg) = 0" by (simp add: pending_def diff_def Let_def)
  then have "report\<lparr>rr_generation := 0\<rparr> = pending st cfg" by (simp add: f(1))
  moreover have "limiter_ok (as_limiter st')" if "limiter_ok (as_limiter st)"
    using f(8) that resize_ok by auto
  moreover have "\<not> changed_anything (pending st' cfg)"
    by (simp add: changed_anything_def pending_def applied_nil f(3))
  moreover have "rr_restart_required (pending st' cfg) = rr_restart_required report"
    by (simp add: f(1,4) pending_def restart_required_eq)
  moreover have "rr_generation report = as_generation st'" by (simp add: f(1))
  ultimately show ?thesis
    using f(2,3,5,6,9,10) f(7) [of i] by (simp add: bump_changes)
qed

theorem apply_config_exact_witness:
  "as_config (fst (apply_config sample_store (sample_config\<lparr>ac_sources := fmempty\<rparr>) (booted sample_config))) =
     runtime_config_of (sample_config\<lparr>ac_sources := fmempty\<rparr>)
   \<and> refresh_follows (fst (apply_config sample_store (sample_config\<lparr>ac_sources := fmempty\<rparr>) (booted sample_config)))"
proof -
  have "refresh_follows (booted sample_config)"
    by (simp add: booted_def refresh_follows_def limiter_new_def runtime_config_of_def)
  then show ?thesis
    using apply_config_exact [OF prod.collapse [symmetric]] by blast
qed

text \<open>
  C3. A reload never turns authentication off or leaves a revoked login working: it is refused exactly when
  the keys of the new configuration do not resolve, or there would be none while the process has some or a
  directory needs one; when it is not, the keys in force are those of the new configuration, every session is
  one that was open and belongs to a key that still exists or, the directory settings being unchanged, to a
  directory account, and no such session is lost.
\<close>

theorem reload_keeps_authentication:
  assumes "documented_store sst"
  shows "case reload sst getenv cfg st of
     Inl e \<Rightarrow> (case resolve_api_keys getenv (ac_api_keys cfg) of
                Inl k \<Rightarrow> e = Keys_unresolved k
              | Inr keys \<Rightarrow> keys = [] \<and> (as_keys st \<noteq> [] \<or> ui_ldap (sv_ui (ac_server cfg)) \<noteq> None))
   | Inr (st', report) \<Rightarrow>
       Inr (as_keys st') = resolve_api_keys getenv (ac_api_keys cfg)
       \<and> (as_keys st \<noteq> [] \<or> ui_ldap (sv_ui (ac_server cfg)) \<noteq> None \<longrightarrow> as_keys st' \<noteq> [])
       \<and> (Key_session i \<in> set (as_sessions st') \<longleftrightarrow>
            Key_session i \<in> set (as_sessions st) \<and> i \<in> set (map rk_id (as_keys st')))
       \<and> (Directory_session a \<in> set (as_sessions st') \<longleftrightarrow>
            Directory_session a \<in> set (as_sessions st) \<and> rc_ldap (as_config st) = ui_ldap (sv_ui (ac_server cfg)))"
proof (cases "keys_for getenv cfg (as_keys st)")
  case (Inl e)
  then show ?thesis
    by (auto simp: reload_def keys_for_def ldap_requires_keys_def split: sum.splits if_splits)
next
  case (Inr keys)
  obtain s r where a: "apply_config sst cfg st = (s, r)" by (cases "apply_config sst cfg st")
  have res: "resolve_api_keys getenv (ac_api_keys cfg) = Inr keys"
    and some: "as_keys st \<noteq> [] \<or> ui_ldap (sv_ui (ac_server cfg)) \<noteq> None \<longrightarrow> keys \<noteq> []"
    using Inr by (auto simp: keys_for_def ldap_requires_keys_def split: sum.splits if_splits)
  show ?thesis
    using apply_config_fields(9) [OF a] res some Inr a assms
    by (auto simp: reload_def swap_keys_def documented_store_def)
qed

theorem reload_keeps_authentication_witness:
  "case reload sample_store (\<lambda>v. if v = ''UNIFIED_API_KEY'' then Some ''s3cret'' else None) (sample_config\<lparr>ac_api_keys := fmempty\<rparr>)
     ((booted sample_config)\<lparr>as_sessions := [Key_session ''default'', Key_session ''gone'']\<rparr>) of
     Inl e \<Rightarrow> False
   | Inr (st', report) \<Rightarrow> Key_session ''default'' \<in> set (as_sessions st') \<and> Key_session ''gone'' \<notin> set (as_sessions st')"
proof -
  let ?env = "\<lambda>v. if v = ''UNIFIED_API_KEY'' then Some ''s3cret'' else None"
  let ?c = "sample_config\<lparr>ac_api_keys := fmempty\<rparr>"
  let ?st = "(booted sample_config)\<lparr>as_sessions := [Key_session ''default'', Key_session ''gone'']\<rparr>"
  have r: "resolve_api_keys ?env fmempty = Inr [\<lparr>rk_id = ''default'', rk_name = ''default'',
      rk_secret = ''s3cret'', rk_permissions = Perm_admin\<rparr>]"
    by (simp add: resolve_api_keys_def fm_keys_def)
  show ?thesis
    using reload_keeps_authentication [OF sample_store_documented, where getenv = ?env and cfg = ?c and st = ?st and i = "''default''" and a = "[]"]
      reload_keeps_authentication [OF sample_store_documented, where getenv = ?env and cfg = ?c and st = ?st and i = "''gone''" and a = "[]"]
    by (cases "reload sample_store ?env ?c ?st") (auto simp: r split: prod.splits)
qed

text \<open>A configuration that adds the built UI: its home page is adopted at once, the page itself at the next restart.\<close>

lemma home_adopted_before_its_assets:
  assumes "ui_home (sv_ui (ac_server c)) = None" and "ui_assets_dir (sv_ui (ac_server c)) = None"
    and "ui_home (sv_ui (ac_server c')) = None" and "ui_assets_dir (sv_ui (ac_server c')) = Some dir"
    and "as_config st = runtime_config_of c" and "as_live st = Some (restart_only_of c)"
    and "apply_config sst c' st = (st', report)"
  shows "rc_ui_home (as_config st') = ''/'' \<and> ''server.ui.home'' \<in> set (rr_applied report)
    \<and> ''server.ui.assets_dir'' \<in> set (rr_restart_required report)"
proof -
  note f = apply_config_fields(1,3) [OF assms(7)]
  have homes: "ui_home_path (sv_ui (ac_server c)) = ''/api/v1/''" "ui_home_path (sv_ui (ac_server c')) = ''/''"
    using assms by (simp_all add: ui_home_path_def)
  have r: "rc_ui_home (runtime_config_of c) \<noteq> rc_ui_home (runtime_config_of c')"
    by (simp add: runtime_config_of_def homes)
  have "rc_ui_home (as_config st') = ''/''" by (simp add: f(2) runtime_config_of_def homes)
  moreover have "''server.ui.home'' \<in> set (rr_applied report)"
    by (simp add: f(1) pending_def diff_def Let_def assms(5) set_keys_iff r)
  moreover have "''server.ui.assets_dir'' \<in> set (rr_restart_required report)"
    using assms by (simp add: f(1) pending_def restart_required_eq changed_keys_def set_keys_iff restart_only_of_def)
  ultimately show ?thesis by simp
qed

end
