(* ===== verification/Projects.thy ===== *)
theory Projects
  imports Credential_Rules Credentials Scripts Enrich Sync_Health
begin

text \<open>
  Bringing a project's checkout up to date: \<open>src/src/application/projects.rs\<close> and \<open>remote\<close> of
  \<open>src/src/domain/project.rs\<close>. The git and virtualenv ports act on a world the model passes along; which of them
  ran into the project's timeout is their answer. Pulls that overlap are a step relation over a state with one
  lock per checkout directory.
\<close>

section \<open>One pull\<close>

record remote =
  rm_url :: string
  rm_branch :: string

definition remote_of :: "git_project \<Rightarrow> remote" where
  "remote_of p = \<lparr>rm_url = gp_git_url p, rm_branch = gp_branch p\<rparr>"

datatype venv_outcome = Venv_installed | Venv_unchanged | No_requirements

record 'w project_env =
  pe_resolve :: "string \<Rightarrow> string + fields"
  pe_ensure :: "string \<Rightarrow> remote \<Rightarrow> fields \<Rightarrow> 'w \<Rightarrow> unit run_result \<times> 'w"
  pe_revision :: "string \<Rightarrow> 'w \<Rightarrow> string option"
  pe_venv :: "string \<Rightarrow> string \<Rightarrow> 'w \<Rightarrow> venv_outcome run_result \<times> 'w"

datatype project_error =
    Project_credential string string
  | Git_failed string
  | Git_timed_out nat
  | Venv_failed string
  | Venv_timed_out nat

fun project_error_text :: "project_error \<Rightarrow> string" where
  "project_error_text (Project_credential c m) = ''credential '' @ quoted c @ '': '' @ m"
| "project_error_text (Git_failed m) = m"
| "project_error_text (Git_timed_out n) = ''git operation timed out after '' @ show_nat n @ ''s''"
| "project_error_text (Venv_failed m) = ''venv: '' @ m"
| "project_error_text (Venv_timed_out n) = ''venv install timed out after '' @ show_nat n @ ''s''"

definition project_credentials :: "'w project_env \<Rightarrow> git_project \<Rightarrow> project_error + fields" where
  "project_credentials env p =
     (case credential_id p of
        None \<Rightarrow> Inr fmempty
      | Some c \<Rightarrow> (case pe_resolve env c of Inl m \<Rightarrow> Inl (Project_credential c m) | Inr f \<Rightarrow> Inr f))"

definition run_project ::
  "'w project_env \<Rightarrow> string \<Rightarrow> git_project \<Rightarrow> string \<Rightarrow> 'w \<Rightarrow> (project_error + unit) \<times> 'w" where
  "run_project env i p projects_dir w =
     (case project_credentials env p of
        Inl e \<Rightarrow> (Inl e, w)
      | Inr credentials \<Rightarrow>
          (case pe_ensure env (path_join projects_dir i) (remote_of p) credentials w of
             (Run_failed m, w) \<Rightarrow> (Inl (Git_failed m), w)
           | (Run_timed_out, w) \<Rightarrow> (Inl (Git_timed_out (gp_timeout_seconds p)), w)
           | (Run_ok _, w) \<Rightarrow>
               if \<not> gp_python_venv p then (Inr (), w)
               else (case pe_venv env projects_dir i w of
                       (Run_ok _, w) \<Rightarrow> (Inr (), w)
                     | (Run_failed m, w) \<Rightarrow> (Inl (Venv_failed m), w)
                     | (Run_timed_out, w) \<Rightarrow> (Inl (Venv_timed_out (gp_timeout_seconds p)), w))))"

record run_origin =
  og_trigger :: run_trigger
  og_by :: "string option"

definition origin_of :: "run_trigger \<Rightarrow> run_origin" where
  "origin_of t = \<lparr>og_trigger = t, og_by = None\<rparr>"

text \<open>What is written down when the pull is over, \<open>before\<close> and \<open>after\<close> being the commits read around it.\<close>

definition record_pull ::
  "instant \<Rightarrow> nat \<Rightarrow> nat \<Rightarrow> string \<Rightarrow> run_origin \<Rightarrow> string option \<Rightarrow> string option \<Rightarrow> project_error + unit
     \<Rightarrow> health_registry \<Rightarrow> health_registry" where
  "record_pull now ms unix_now i origin' before after result health =
     (let health = (case result of
            Inr _ \<Rightarrow> record_success now i health
          | Inl e \<Rightarrow> record_failure now i (project_error_text e) health)
      in record_run i
           \<lparr>started_at = unix_now, duration_ms = ms, trigger = og_trigger origin', run_by = og_by origin',
            run_scope = None, run_error = (case result of Inl e \<Rightarrow> Some (project_error_text e) | Inr _ \<Rightarrow> None),
            run_hosts = None, run_groups = None, revision_before = before, revision = after\<rparr> health)"

definition sync_project ::
  "'w project_env \<Rightarrow> instant \<Rightarrow> nat \<Rightarrow> nat \<Rightarrow> string \<Rightarrow> git_project \<Rightarrow> string \<Rightarrow> run_origin \<Rightarrow> 'w \<times> health_registry
     \<Rightarrow> ('w \<times> health_registry) \<times> (project_error + unit)" where
  "sync_project env now ms unix_now i p projects_dir origin' = (\<lambda>(w, health).
     let dir = path_join projects_dir i;
         before = pe_revision env dir w;
         (result, w) = run_project env i p projects_dir w;
         after = pe_revision env dir w
     in ((w, record_pull now ms unix_now i origin' before after result health), result))"

section \<open>What a pull does\<close>

lemma history_record_run:
  "history (record_run key r h) key' =
     (if key' = key then take HISTORY (r\<lparr>run_error := map_option cut_error (run_error r)\<rparr> # history h key)
      else history h key')"
  by (simp add: record_run_def history_def Let_def)

lemma history_frame [simp]:
  "history (record_success now i h) k = history h k" "history (record_failure now i e h) k = history h k"
  by (simp_all add: history_def record_success_def record_failure_def)

text \<open>
  A pull runs git only with the credential it names resolved, builds a virtualenv only when git succeeded and
  the project asked for one, fails exactly when the credential, git or the virtualenv does, and is one new row
  in the project's history, and in no other's, with its cause, its error and the commits before and after.
\<close>

theorem pull_is_recorded:
  "let ((w', health'), result) = sync_project env now ms unix_now i p dir origin' (w, health);
       asked = project_credentials env p;
       git = (\<lambda>f. pe_ensure env (path_join dir i) (remote_of p) f w);
       venv = pe_venv env dir i
   in (result = Inr () \<longleftrightarrow>
         (\<exists>f w1. asked = Inr f \<and> git f = (Run_ok (), w1)
            \<and> (if gp_python_venv p then \<exists>o'. venv w1 = (Run_ok o', w') else w' = w1)))
      \<and> (\<forall>c m. result = Inl (Project_credential c m) \<longleftrightarrow> asked = Inl (Project_credential c m))
      \<and> ((\<exists>e. asked = Inl e) \<longrightarrow> w' = w)
      \<and> ((\<exists>f. asked = Inr f \<and> (\<nexists>w1. git f = (Run_ok (), w1))) \<longrightarrow> (\<exists>f r. asked = Inr f \<and> git f = (r, w')))
      \<and> (\<exists>row. history health' i = take HISTORY (row # history health i)
           \<and> trigger row = og_trigger origin' \<and> run_by row = og_by origin'
           \<and> revision_before row = pe_revision env (path_join dir i) w
           \<and> revision row = pe_revision env (path_join dir i) w'
           \<and> (run_error row = None \<longleftrightarrow> result = Inr ()))
      \<and> (j \<noteq> i \<longrightarrow> history health' j = history health j)"
proof -
  obtain result w' where run: "run_project env i p dir w = (result, w')" by (cases "run_project env i p dir w")
  have cred: "(\<forall>c m. result = Inl (Project_credential c m) \<longleftrightarrow> asked = Inl (Project_credential c m))
      \<and> ((\<exists>e. asked = Inl e) \<longrightarrow> w' = w)"
    if "asked = project_credentials env p" for asked
    using run that
    by (auto simp: run_project_def project_credentials_def split: option.splits sum.splits prod.splits run_result.splits if_splits)
  have res: "result = Inr () \<longleftrightarrow>
         (\<exists>f w1. project_credentials env p = Inr f \<and> pe_ensure env (path_join dir i) (remote_of p) f w = (Run_ok (), w1)
            \<and> (if gp_python_venv p then \<exists>o'. pe_venv env dir i w1 = (Run_ok o', w') else w' = w1))"
    using run
    by (auto simp: run_project_def split: sum.splits prod.splits run_result.splits if_splits)
  have failed: "(\<exists>f. project_credentials env p = Inr f \<and> (\<nexists>w1. pe_ensure env (path_join dir i) (remote_of p) f w = (Run_ok (), w1)))
      \<longrightarrow> (\<exists>f r. project_credentials env p = Inr f \<and> pe_ensure env (path_join dir i) (remote_of p) f w = (r, w'))"
    using run
    by (auto simp: run_project_def split: sum.splits prod.splits run_result.splits if_splits)
  have row: "\<exists>row. history (record_pull now ms unix_now i origin' b a result health) i = take HISTORY (row # history health i)
      \<and> trigger row = og_trigger origin' \<and> run_by row = og_by origin' \<and> revision_before row = b \<and> revision row = a
      \<and> (run_error row = None \<longleftrightarrow> result = Inr ())" for b a
    by (cases result) (auto simp: record_pull_def Let_def history_record_run)
  have other: "history (record_pull now ms unix_now i origin' b a result health) j = history health j" if "j \<noteq> i" for b a
    using that by (cases result) (auto simp: record_pull_def Let_def history_record_run)
  show ?thesis
    unfolding sync_project_def Let_def run split_conv
    using cred [OF refl] res failed row other by simp
qed


text \<open>A witness: a project with a virtualenv whose install fails.\<close>

definition sample_project :: git_project where
  "sample_project =
     \<lparr>gp_name = ''Scripts'', gp_git_url = ''https://git.example/scripts.git'', gp_branch = ''main'', gp_credentials = [],
      gp_credential = None, gp_sync_interval_seconds = Some 600, gp_schedule = None, gp_timeout_seconds = 300,
      gp_python_venv = True, gp_sync_on_boot = True\<rparr>"

text \<open>The world is the directories pulled so far, a pull adding one commit to its own.\<close>

definition sample_project_env :: "string list project_env" where
  "sample_project_env =
     \<lparr>pe_resolve = (\<lambda>c. Inl ''unknown credential''), pe_ensure = (\<lambda>dir r f w. (Run_ok (), dir # w)),
      pe_revision = (\<lambda>dir w. Some (show_nat (length (filter ((=) dir) w)))),
      pe_venv = (\<lambda>dir i w. (Run_failed ''no such package'', w))\<rparr>"

lemma sample_pull:
  "run_project sample_project_env ''p'' sample_project ''projects'' w =
     (Inl (Venv_failed ''no such package''), path_join ''projects'' ''p'' # w)"
  by (simp add: run_project_def sample_project_def sample_project_env_def project_credentials_def credential_id_def)

theorem pull_is_recorded_witness:
  "\<exists>row. history (snd (fst (sync_project sample_project_env 0 5 1000 ''p'' sample_project ''projects'' (origin_of Startup) ([], hr_new)))) ''p''
      = [row] \<and> trigger row = Startup \<and> run_error row \<noteq> None"
proof -
  obtain w h where r: "sync_project sample_project_env 0 5 1000 ''p'' sample_project ''projects'' (origin_of Startup) ([], hr_new) =
      ((w, h), Inl (Venv_failed ''no such package''))"
    by (simp add: sync_project_def sample_pull Let_def)
  show ?thesis
    using pull_is_recorded [of sample_project_env 0 5 1000 "''p''" sample_project "''projects''" "origin_of Startup" "[]" hr_new "''q''"]
    unfolding r Let_def split_conv
    by (auto simp: origin_of_def history_def hr_new_def HISTORY_def)
qed

section \<open>Overlapping pulls\<close>

text \<open>
  A pull waits for the lock of its checkout directory, reads the commit, runs, reads the commit again and writes its
  row, and only then lets the lock go. Pulls of different directories interleave freely.
\<close>

datatype phase =
    Queued
  | Pulling "string option"
  | Pulled "string option" "project_error + unit"
  | Over

record pull =
  pu_project :: string
  pu_origin :: run_origin
  pu_phase :: phase

record 'w checkouts =
  co_world :: 'w
  co_health :: health_registry
  co_locks :: "(string, nat) fmap"
  co_pulls :: "(nat, pull) fmap"

inductive pull_step ::
  "'w project_env \<Rightarrow> (string, git_project) fmap \<Rightarrow> string \<Rightarrow> 'w checkouts \<Rightarrow> 'w checkouts \<Rightarrow> bool"
  for env projects dir where
  Ask: "fmlookup projects i \<noteq> None \<Longrightarrow> fmlookup (co_pulls s) n = None \<Longrightarrow>
    pull_step env projects dir s
      (s\<lparr>co_pulls := fmupd n \<lparr>pu_project = i, pu_origin = origin', pu_phase = Queued\<rparr> (co_pulls s)\<rparr>)"
| Begin: "fmlookup (co_pulls s) n = Some u \<Longrightarrow> pu_phase u = Queued \<Longrightarrow> d = path_join dir (pu_project u) \<Longrightarrow>
    fmlookup (co_locks s) d = None \<Longrightarrow>
    pull_step env projects dir s
      (s\<lparr>co_locks := fmupd d n (co_locks s),
         co_pulls := fmupd n (u\<lparr>pu_phase := Pulling (pe_revision env d (co_world s))\<rparr>) (co_pulls s)\<rparr>)"
| Work: "fmlookup (co_pulls s) n = Some u \<Longrightarrow> pu_phase u = Pulling before \<Longrightarrow>
    fmlookup projects (pu_project u) = Some p \<Longrightarrow> run_project env (pu_project u) p dir (co_world s) = (result, w) \<Longrightarrow>
    pull_step env projects dir s
      (s\<lparr>co_world := w, co_pulls := fmupd n (u\<lparr>pu_phase := Pulled before result\<rparr>) (co_pulls s)\<rparr>)"
| Finish: "fmlookup (co_pulls s) n = Some u \<Longrightarrow> pu_phase u = Pulled before result \<Longrightarrow>
    d = path_join dir (pu_project u) \<Longrightarrow>
    pull_step env projects dir s
      (s\<lparr>co_health := record_pull now ms unix_now (pu_project u) (pu_origin u) before (pe_revision env d (co_world s))
           result (co_health s),
         co_locks := fmdrop d (co_locks s), co_pulls := fmupd n (u\<lparr>pu_phase := Over\<rparr>) (co_pulls s)\<rparr>)"

definition pulls_start :: "'w \<Rightarrow> 'w checkouts" where
  "pulls_start w = \<lparr>co_world = w, co_health = hr_new, co_locks = fmempty, co_pulls = fmempty\<rparr>"

definition pulls_reach ::
  "'w project_env \<Rightarrow> (string, git_project) fmap \<Rightarrow> string \<Rightarrow> 'w \<Rightarrow> 'w checkouts \<Rightarrow> bool" where
  "pulls_reach env projects dir w = (pull_step env projects dir)\<^sup>*\<^sup>* (pulls_start w)"

text \<open>The port's contract: git and the virtualenv of one project leave the commits of the others' checkouts alone.\<close>

definition isolated :: "'w project_env \<Rightarrow> (string, git_project) fmap \<Rightarrow> string \<Rightarrow> bool" where
  "isolated env projects dir \<longleftrightarrow>
     (\<forall>i j p w. i \<noteq> j \<longrightarrow> fmlookup projects j = Some p \<longrightarrow>
        pe_revision env (path_join dir i) (snd (run_project env j p dir w)) = pe_revision env (path_join dir i) w)"

fun working :: "phase \<Rightarrow> bool" where
  "working (Pulling b) = True"
| "working (Pulled b r) = True"
| "working p = False"

text \<open>Each row starts at the commit the row before it (the next of the list) ended at.\<close>

fun chained :: "run_record list \<Rightarrow> bool" where
  "chained (newer # older # rows) \<longleftrightarrow> revision_before newer = revision older \<and> chained (older # rows)"
| "chained rows \<longleftrightarrow> True"

text \<open>The commit the next row has to start at: what the pull at work read, or what is checked out.\<close>

definition pulled :: "string \<Rightarrow> 'w checkouts \<Rightarrow> string option \<Rightarrow> bool" where
  "pulled i s b \<longleftrightarrow> (\<exists>n u x. fmlookup (co_pulls s) n = Some u \<and> pu_project u = i \<and> pu_phase u = Pulled b x)"

definition at_commit :: "'w project_env \<Rightarrow> string \<Rightarrow> string \<Rightarrow> 'w checkouts \<Rightarrow> string option \<Rightarrow> bool" where
  "at_commit env dir i s r \<longleftrightarrow>
     (\<forall>b. pulled i s b \<longrightarrow> r = b) \<and> ((\<nexists>b. pulled i s b) \<longrightarrow> r = pe_revision env (path_join dir i) (co_world s))"

definition locks_ok :: "(string, git_project) fmap \<Rightarrow> string \<Rightarrow> 'w checkouts \<Rightarrow> bool" where
  "locks_ok projects dir s \<longleftrightarrow>
     (\<forall>n u. fmlookup (co_pulls s) n = Some u \<longrightarrow> fmlookup projects (pu_project u) \<noteq> None
        \<and> (working (pu_phase u) \<longrightarrow> fmlookup (co_locks s) (path_join dir (pu_project u)) = Some n))
     \<and> (\<forall>d n. fmlookup (co_locks s) d = Some n \<longrightarrow>
          (\<exists>u. fmlookup (co_pulls s) n = Some u \<and> working (pu_phase u) \<and> d = path_join dir (pu_project u)))"

definition reads_ok :: "'w project_env \<Rightarrow> string \<Rightarrow> 'w checkouts \<Rightarrow> bool" where
  "reads_ok env dir s \<longleftrightarrow>
     (\<forall>n u b. fmlookup (co_pulls s) n = Some u \<and> pu_phase u = Pulling b
        \<longrightarrow> b = pe_revision env (path_join dir (pu_project u)) (co_world s))"

definition rows_ok :: "'w project_env \<Rightarrow> string \<Rightarrow> 'w checkouts \<Rightarrow> bool" where
  "rows_ok env dir s \<longleftrightarrow>
     (\<forall>i. chained (history (co_health s) i)
        \<and> (\<forall>row rows. history (co_health s) i = row # rows \<longrightarrow> at_commit env dir i s (revision row)))"

lemma one_worker:
  assumes "locks_ok projects dir s" and "fmlookup (co_pulls s) n = Some u" and "working (pu_phase u)"
    and "fmlookup (co_pulls s) m = Some v" and "working (pu_phase v)" and "pu_project v = pu_project u"
  shows "m = n"
  using assms unfolding locks_ok_def by (metis option.inject)

lemma locks_step: "pull_step env projects dir s s' \<Longrightarrow> locks_ok projects dir s \<Longrightarrow> locks_ok projects dir s'"
proof (induction rule: pull_step.induct)
  case (Ask i s n origin')
  then show ?case by (fastforce simp: locks_ok_def)
next
  case (Begin s n u d)
  then show ?case by (fastforce simp: locks_ok_def)
next
  case (Work s n u before p result w)
  then show ?case by (fastforce simp: locks_ok_def)
next
  case (Finish s n u before result d now ms unix_now)
  from Finish.prems have a: "\<And>m v. fmlookup (co_pulls s) m = Some v \<Longrightarrow> fmlookup projects (pu_project v) \<noteq> None"
    and l: "\<And>m v. fmlookup (co_pulls s) m = Some v \<Longrightarrow> working (pu_phase v)
        \<Longrightarrow> fmlookup (co_locks s) (path_join dir (pu_project v)) = Some m"
    and k: "\<And>c m. fmlookup (co_locks s) c = Some m
        \<Longrightarrow> \<exists>v. fmlookup (co_pulls s) m = Some v \<and> working (pu_phase v) \<and> c = path_join dir (pu_project v)"
    by (auto simp: locks_ok_def)
  have d: "fmlookup (co_locks s) d = Some n" using l [OF Finish.hyps(1)] Finish.hyps by simp
  have "c \<noteq> d \<Longrightarrow> fmlookup (co_locks s) c = Some m \<Longrightarrow> m \<noteq> n" for c m
    using k [of c m] Finish.hyps by auto
  moreover have "path_join dir (pu_project v) \<noteq> d"
    if "fmlookup (co_pulls s) m = Some v" "working (pu_phase v)" "m \<noteq> n" for m v
    using l [OF that(1,2)] d that(3) by auto
  ultimately show ?case
    using a l k Finish.hyps(1) by (auto simp: locks_ok_def)
qed

lemma isolated_run:
  assumes "isolated env projects dir" and "fmlookup projects j = Some p"
    and "run_project env j p dir w = (result, w')" and "i \<noteq> j"
  shows "pe_revision env (path_join dir i) w' = pe_revision env (path_join dir i) w"
  using assms unfolding isolated_def by (metis snd_conv)

lemma reads_step:
  "pull_step env projects dir s s' \<Longrightarrow> isolated env projects dir \<Longrightarrow> locks_ok projects dir s \<Longrightarrow> reads_ok env dir s
     \<Longrightarrow> reads_ok env dir s'"
proof (induction rule: pull_step.induct)
  case (Work s n u before p result w)
  have "b = pe_revision env (path_join dir (pu_project v)) w"
    if v: "fmlookup (co_pulls s) m = Some v" "pu_phase v = Pulling b" "m \<noteq> n" for m v b
  proof -
    have "pu_project v \<noteq> pu_project u"
      using one_worker [OF Work.prems(2) Work.hyps(1) _ v(1)] Work.hyps(2) v by auto
    with isolated_run [OF Work.prems(1) Work.hyps(3,4)]
    have "pe_revision env (path_join dir (pu_project v)) w = pe_revision env (path_join dir (pu_project v)) (co_world s)" .
    with Work.prems(3) v show ?thesis by (simp add: reads_ok_def)
  qed
  then show ?case by (auto simp: reads_ok_def)
qed (auto simp: reads_ok_def)

lemma history_record_pull:
  "history (record_pull now ms unix_now k o' b a result h) i =
     (if i = k then take HISTORY (\<lparr>started_at = unix_now, duration_ms = ms, trigger = og_trigger o', run_by = og_by o',
            run_scope = None,
            run_error = (case result of Inl e \<Rightarrow> Some (cut_error (project_error_text e)) | Inr _ \<Rightarrow> None),
            run_hosts = None, run_groups = None, revision_before = b, revision = a\<rparr> # history h k)
      else history h i)"
  by (cases result) (simp_all add: record_pull_def Let_def history_record_run)

lemma chained_Cons: "chained (x # rows) \<longleftrightarrow> chained rows \<and> (\<forall>y ys. rows = y # ys \<longrightarrow> revision_before x = revision y)"
  by (cases rows) auto

lemma chained_take: "chained rows \<Longrightarrow> chained (take k rows)"
proof (induction rows arbitrary: k)
  case (Cons x rows)
  show ?case
  proof (cases k)
    case (Suc m)
    have "chained rows" and "\<And>y ys. rows = y # ys \<Longrightarrow> revision_before x = revision y"
      using Cons.prems by (simp_all add: chained_Cons)
    then show ?thesis using Cons.IH [of m] Suc by (cases rows; cases m) (auto simp: chained_Cons)
  qed simp
qed simp

lemma pulled_quiet:
  assumes "co_pulls s' = fmupd n v (co_pulls s)" and "\<And>b x. pu_project v = k \<Longrightarrow> pu_phase v \<noteq> Pulled b x"
    and "\<And>u b x. fmlookup (co_pulls s) n = Some u \<Longrightarrow> pu_project u = k \<Longrightarrow> pu_phase u \<noteq> Pulled b x"
  shows "pulled k s' b \<longleftrightarrow> pulled k s b"
proof
  assume "pulled k s' b"
  then obtain m u x where "fmlookup (co_pulls s') m = Some u" "pu_project u = k" "pu_phase u = Pulled b x"
    by (auto simp: pulled_def)
  with assms show "pulled k s b" by (cases "m = n") (auto simp: pulled_def)
next
  assume "pulled k s b"
  then obtain m u x where "fmlookup (co_pulls s) m = Some u" "pu_project u = k" "pu_phase u = Pulled b x"
    by (auto simp: pulled_def)
  moreover from this assms(3) have "m \<noteq> n" by blast
  ultimately show "pulled k s' b" using assms(1) by (auto simp: pulled_def)
qed

lemma rows_step:
  "pull_step env projects dir s s' \<Longrightarrow> isolated env projects dir \<Longrightarrow> locks_ok projects dir s \<Longrightarrow> reads_ok env dir s
     \<Longrightarrow> rows_ok env dir s \<Longrightarrow> rows_ok env dir s'"
proof (induction rule: pull_step.induct)
  case (Ask i s n origin')
  have "pulled k (s\<lparr>co_pulls := fmupd n \<lparr>pu_project = i, pu_origin = origin', pu_phase = Queued\<rparr> (co_pulls s)\<rparr>) b
      \<longleftrightarrow> pulled k s b" for k b
    by (rule pulled_quiet) (use Ask.hyps in auto)
  with Ask.prems show ?case by (simp add: rows_ok_def at_commit_def)
next
  case (Begin s n u d)
  have "pulled k (s\<lparr>co_locks := l, co_pulls := fmupd n (u\<lparr>pu_phase := Pulling x\<rparr>) (co_pulls s)\<rparr>) b
      \<longleftrightarrow> pulled k s b" for k b x l
    by (rule pulled_quiet) (use Begin.hyps in auto)
  with Begin.prems show ?case by (simp add: rows_ok_def at_commit_def)
next
  case (Work s n u before p result w)
  let ?s' = "s\<lparr>co_world := w, co_pulls := fmupd n (u\<lparr>pu_phase := Pulled before result\<rparr>) (co_pulls s)\<rparr>"
  have none: "\<not> pulled (pu_project u) s b" for b
    using one_worker [OF Work.prems(2) Work.hyps(1)] Work.hyps(1,2) unfolding pulled_def
    by (metis option.inject phase.distinct(7) working.simps(1,2))
  have own: "pulled (pu_project u) ?s' b \<longleftrightarrow> b = before" for b
    using none [of b] by (auto simp: pulled_def split: if_splits)
  have others: "pulled k ?s' b \<longleftrightarrow> pulled k s b" if "k \<noteq> pu_project u" for k b
    by (rule pulled_quiet) (use that Work.hyps(1) in auto)
  have before: "before = pe_revision env (path_join dir (pu_project u)) (co_world s)"
    using Work.prems(3) Work.hyps(1,2) by (simp add: reads_ok_def)
  have "at_commit env dir k ?s' r" if "at_commit env dir k s r" for k r
  proof (cases "k = pu_project u")
    case True
    with that none own before show ?thesis by (simp add: at_commit_def)
  next
    case False
    with that others isolated_run [OF Work.prems(1) Work.hyps(3,4) False] show ?thesis
      by (simp add: at_commit_def)
  qed
  with Work.prems(4) show ?case by (simp add: rows_ok_def)
next
  case (Finish s n u before result d now ms unix_now)
  let ?i = "pu_project u"
  let ?h = "record_pull now ms unix_now ?i (pu_origin u) before (pe_revision env d (co_world s)) result (co_health s)"
  let ?s' = "s\<lparr>co_health := ?h, co_locks := fmdrop d (co_locks s), co_pulls := fmupd n (u\<lparr>pu_phase := Over\<rparr>) (co_pulls s)\<rparr>"
  have one: "pulled ?i s before" using Finish.hyps by (auto simp: pulled_def)
  have "m = n" if "fmlookup (co_pulls s) m = Some v" "pu_project v = ?i" "pu_phase v = Pulled b x" for m v b x
    using one_worker [OF Finish.prems(2) Finish.hyps(1) _ that(1)] that Finish.hyps(2) by simp
  then have own: "\<not> pulled ?i ?s' b" for b by (auto simp: pulled_def split: if_splits)
  have others: "pulled k ?s' b \<longleftrightarrow> pulled k s b" if "k \<noteq> ?i" for k b
    by (rule pulled_quiet) (use that Finish.hyps(1) in auto)
  show ?case
    unfolding rows_ok_def
  proof (intro allI conjI impI)
    fix k
    have old: "chained (history (co_health s) k)"
      "\<And>row rows. history (co_health s) k = row # rows \<Longrightarrow> at_commit env dir k s (revision row)"
      using Finish.prems(4) by (auto simp: rows_ok_def)
    show "chained (history (co_health ?s') k)"
    proof (cases "k = ?i")
      case True
      have "revision row = before" if "history (co_health s) k = row # rows" for row rows
        using old(2) [OF that] one True by (simp add: at_commit_def)
      then show ?thesis using old(1) True by (simp add: history_record_pull chained_take chained_Cons)
    qed (simp add: history_record_pull old(1))
    fix row rows
    assume rows: "history (co_health ?s') k = row # rows"
    show "at_commit env dir k ?s' (revision row)"
    proof (cases "k = ?i")
      case True
      with rows have "revision row = pe_revision env d (co_world s)"
        by (auto simp: history_record_pull HISTORY_def)
      with own True Finish.hyps(3) show ?thesis by (simp add: at_commit_def)
    next
      case False
      with rows old(2) others show ?thesis by (simp add: at_commit_def history_record_pull)
    qed
  qed
qed


lemma pulls_start_ok: "locks_ok projects dir (pulls_start w)" "reads_ok env dir (pulls_start w)" "rows_ok env dir (pulls_start w)"
  by (simp_all add: pulls_start_def locks_ok_def reads_ok_def rows_ok_def history_def hr_new_def)

lemma pulls_reach_ok:
  assumes "pulls_reach env projects dir w s"
  shows "locks_ok projects dir s" and "isolated env projects dir \<Longrightarrow> reads_ok env dir s \<and> rows_ok env dir s"
proof -
  have "(pull_step env projects dir)\<^sup>*\<^sup>* (pulls_start w) s" using assms by (simp add: pulls_reach_def)
  then have "locks_ok projects dir s \<and> (isolated env projects dir \<longrightarrow> reads_ok env dir s \<and> rows_ok env dir s)"
  proof (induction rule: rtranclp_induct)
    case base
    then show ?case by (simp add: pulls_start_ok)
  next
    case (step s s')
    then show ?case using locks_step reads_step rows_step by blast
  qed
  then show "locks_ok projects dir s" "isolated env projects dir \<Longrightarrow> reads_ok env dir s \<and> rows_ok env dir s" by auto
qed

lemma phase_changed: "pu_phase v \<noteq> p \<Longrightarrow> v\<lparr>pu_phase := p\<rparr> \<noteq> (v :: pull)"
  by (cases v) auto

lemma unfinished_steps:
  assumes ok: "locks_ok projects dir s" and u: "fmlookup (co_pulls s) n = Some u" "pu_phase u \<noteq> Over"
  shows "\<exists>m v s'. fmlookup (co_pulls s) m = Some v \<and> path_join dir (pu_project v) = path_join dir (pu_project u)
           \<and> pull_step env projects dir s s' \<and> fmlookup (co_pulls s') m \<noteq> Some v"
proof -
  have works: "\<exists>s'. pull_step env projects dir s s' \<and> fmlookup (co_pulls s') m \<noteq> Some v"
    if v: "fmlookup (co_pulls s) m = Some v" "working (pu_phase v)" for m v
  proof (cases "pu_phase v")
    case (Pulling b)
    obtain p where p: "fmlookup projects (pu_project v) = Some p" using ok v(1) by (fastforce simp: locks_ok_def)
    obtain r w where "run_project env (pu_project v) p dir (co_world s) = (r, w)" by fastforce
    from Work [OF v(1) Pulling p this] show ?thesis using Pulling by (intro exI conjI) (auto simp: phase_changed)
  next
    case (Pulled b r)
    from Finish [OF v(1) Pulled refl, where now = 0 and ms = 0 and unix_now = 0] show ?thesis using Pulled by (intro exI conjI) (auto simp: phase_changed)
  qed (use v in auto)
  show ?thesis
  proof (cases "fmlookup (co_locks s) (path_join dir (pu_project u))")
    case None
    then have "pu_phase u = Queued" using ok u by (cases "pu_phase u") (auto simp: locks_ok_def)
    from Begin [OF u(1) this refl None] show ?thesis using u(1) \<open>pu_phase u = Queued\<close>
      by (intro exI conjI) (auto simp: phase_changed)
  next
    case (Some m)
    then obtain v where "fmlookup (co_pulls s) m = Some v" "working (pu_phase v)"
      "path_join dir (pu_project u) = path_join dir (pu_project v)"
      using ok unfolding locks_ok_def by blast
    with works show ?thesis by metis
  qed
qed


text \<open>
  Two pulls never work in one checkout directory at once, and no pull waits for ever on a lock nobody will
  release: while one is unfinished, some pull of its directory can take its next step.
\<close>

theorem pulls_exclusive_and_progress:
  assumes "pulls_reach env projects dir w s" and "fmlookup (co_pulls s) n = Some u"
  shows "(working (pu_phase u) \<and> fmlookup (co_pulls s) m = Some v \<and> working (pu_phase v)
            \<and> path_join dir (pu_project v) = path_join dir (pu_project u) \<longrightarrow> m = n)
     \<and> (pu_phase u \<noteq> Over \<longrightarrow>
          (\<exists>k x s'. fmlookup (co_pulls s) k = Some x \<and> path_join dir (pu_project x) = path_join dir (pu_project u)
             \<and> pull_step env projects dir s s' \<and> fmlookup (co_pulls s') k \<noteq> Some x))"
proof (intro conjI impI)
  have ok: "locks_ok projects dir s" using pulls_reach_ok(1) [OF assms(1)] .
  show "m = n" if "working (pu_phase u) \<and> fmlookup (co_pulls s) m = Some v \<and> working (pu_phase v)
            \<and> path_join dir (pu_project v) = path_join dir (pu_project u)"
  proof -
    have "fmlookup (co_locks s) (path_join dir (pu_project x)) = Some k"
      if "fmlookup (co_pulls s) k = Some x" "working (pu_phase x)" for k x
      using ok that unfolding locks_ok_def by blast
    from this [of n u] this [of m v] assms(2) that show ?thesis by simp
  qed
  show "\<exists>k x s'. fmlookup (co_pulls s) k = Some x \<and> path_join dir (pu_project x) = path_join dir (pu_project u)
             \<and> pull_step env projects dir s s' \<and> fmlookup (co_pulls s') k \<noteq> Some x" if "pu_phase u \<noteq> Over"
    by (rule unfinished_steps [OF ok assms(2) that])
qed


text \<open>
  A pull that nothing overlaps is \<open>sync_project\<close>: from any reachable state whose checkout is free, asking, taking
  the lock, running and writing the row leaves the world and the health \<open>sync_project\<close> leaves, and the locks as
  they were.
\<close>

lemma whole_pull:
  assumes reach: "pulls_reach env projects dir w s" and n: "fmlookup (co_pulls s) n = None"
    and p: "fmlookup projects i = Some p" and free: "fmlookup (co_locks s) (path_join dir i) = None"
  shows "\<exists>s'. pulls_reach env projects dir w s'
    \<and> (co_world s', co_health s') = fst (sync_project env now ms unix_now i p dir origin' (co_world s, co_health s))
    \<and> co_locks s' = co_locks s \<and> co_pulls s' = fmupd n \<lparr>pu_project = i, pu_origin = origin', pu_phase = Over\<rparr> (co_pulls s)"
proof -
  let ?d = "path_join dir i"
  let ?u = "\<lambda>ph. \<lparr>pu_project = i, pu_origin = origin', pu_phase = ph\<rparr>"
  let ?before = "pe_revision env ?d (co_world s)"
  obtain result w1 where run: "run_project env i p dir (co_world s) = (result, w1)" by fastforce
  let ?s1 = "s\<lparr>co_pulls := fmupd n (?u Queued) (co_pulls s)\<rparr>"
  let ?s2 = "?s1\<lparr>co_locks := fmupd ?d n (co_locks s), co_pulls := fmupd n (?u (Pulling ?before)) (co_pulls ?s1)\<rparr>"
  let ?s3 = "?s2\<lparr>co_world := w1, co_pulls := fmupd n (?u (Pulled ?before result)) (co_pulls ?s2)\<rparr>"
  let ?s4 = "?s3\<lparr>co_health := record_pull now ms unix_now i origin' ?before (pe_revision env ?d w1) result (co_health s),
      co_locks := fmdrop ?d (co_locks ?s3), co_pulls := fmupd n (?u Over) (co_pulls ?s3)\<rparr>"
  have "pull_step env projects dir s ?s1" using Ask [of projects i s n] p n by simp
  moreover have "pull_step env projects dir ?s1 ?s2"
    using Begin [of ?s1 n "?u Queued" ?d dir env projects] free by simp
  moreover have "pull_step env projects dir ?s2 ?s3"
    using Work [of ?s2 n "?u (Pulling ?before)" ?before projects p env dir result w1] p run by simp
  moreover have "pull_step env projects dir ?s3 ?s4"
    using Finish [of ?s3 n "?u (Pulled ?before result)" ?before result ?d dir env projects now ms unix_now] by simp
  ultimately have "pulls_reach env projects dir w ?s4"
    using reach unfolding pulls_reach_def by (meson rtranclp.rtrancl_into_rtrancl)
  moreover have "fmdrop ?d (fmupd ?d n (co_locks s)) = co_locks s"
    by (rule fmap_ext) (auto simp: free)
  moreover have "fmupd n (?u Over) (co_pulls ?s3) = fmupd n (?u Over) (co_pulls s)"
    by (rule fmap_ext) simp
  ultimately show ?thesis
    by (intro exI [of _ ?s4]) (simp add: sync_project_def run Let_def)
qed

lemma sample_isolated: "isolated sample_project_env (fmap_of_list [(''p'', sample_project)]) ''projects''"
  by (auto simp: isolated_def sample_pull) (auto simp: sample_project_env_def path_join_def is_absolute_def split: if_splits)


lemma history_new [simp]: "history hr_new i = []"
  by (simp add: history_def hr_new_def)

lemma two_pulls:
  obtains s where "pulls_reach sample_project_env (fmap_of_list [(''p'', sample_project)]) ''projects'' [] s"
    and "length (history (co_health s) ''p'') = 2" and "fmlookup (co_pulls s) 1 = Some \<lparr>pu_project = ''p'', pu_origin = origin_of Manual, pu_phase = Over\<rparr>"
    and "\<forall>n u. fmlookup (co_pulls s) n = Some u \<longrightarrow> pu_phase u = Over"
proof -
  let ?ps = "fmap_of_list [(''p'', sample_project)]"
  let ?reach = "pulls_reach sample_project_env ?ps ''projects'' []"
  have start: "?reach (pulls_start [])" by (simp add: pulls_reach_def)
  obtain s1 where s1: "?reach s1"
    "(co_world s1, co_health s1) = fst (sync_project sample_project_env 0 0 0 ''p'' sample_project ''projects'' (origin_of Startup) ([], hr_new))"
    "co_locks s1 = fmempty" "co_pulls s1 = fmupd 0 \<lparr>pu_project = ''p'', pu_origin = origin_of Startup, pu_phase = Over\<rparr> fmempty"
    using whole_pull [OF start, of 0 "''p''" sample_project 0 0 0 "origin_of Startup"] by (auto simp: pulls_start_def)
  obtain s2 where s2: "?reach s2"
    "(co_world s2, co_health s2) = fst (sync_project sample_project_env 0 0 0 ''p'' sample_project ''projects'' (origin_of Manual) (co_world s1, co_health s1))"
    "co_pulls s2 = fmupd 1 \<lparr>pu_project = ''p'', pu_origin = origin_of Manual, pu_phase = Over\<rparr> (co_pulls s1)"
    using whole_pull [OF s1(1), of 1 "''p''" sample_project 0 0 0 "origin_of Manual"] by (auto simp: s1(3,4))
  have "length (history (co_health s1) ''p'') = 1"
    using s1(2) by (simp add: sync_project_def sample_pull Let_def history_record_pull HISTORY_def history_new)
  then have "length (history (co_health s2) ''p'') = 2"
    using s2(2) by (simp add: sync_project_def sample_pull Let_def history_record_pull HISTORY_def)
  with s2 s1(4) show thesis by (intro that [of s2]) auto
qed


theorem pulls_exclusive_and_progress_witness:
  "\<exists>s s'. pull_step sample_project_env (fmap_of_list [(''p'', sample_project)]) ''projects'' s s'
     \<and> fmlookup (co_pulls s) 0 = Some \<lparr>pu_project = ''p'', pu_origin = origin_of Manual, pu_phase = Queued\<rparr>"
proof -
  let ?ps = "fmap_of_list [(''p'', sample_project)]"
  let ?u = "\<lparr>pu_project = ''p'', pu_origin = origin_of Manual, pu_phase = Queued\<rparr>"
  let ?s = "(pulls_start [] :: string list checkouts)\<lparr>co_pulls := fmupd 0 ?u fmempty\<rparr>"
  have "pull_step sample_project_env ?ps ''projects'' (pulls_start []) ?s"
    using Ask [of ?ps "''p''" "pulls_start []" 0 sample_project_env "''projects''" "origin_of Manual"]
    by (simp add: pulls_start_def)
  then have "pulls_reach sample_project_env ?ps ''projects'' [] ?s"
    by (auto simp: pulls_reach_def)
  from pulls_exclusive_and_progress [OF this, of 0 ?u]
  obtain s' where "pull_step sample_project_env ?ps ''projects'' ?s s'" by auto
  then show ?thesis by (intro exI [of _ ?s] exI [of _ s']) simp
qed

end
