(* ===== verification/Scheduler.thy ===== *)
theory Scheduler
  imports Runtime Projects Federation Sync Enrich
begin

text \<open>
  The periodic tasks: \<open>src/src/adapters/in/scheduler/mod.rs\<close>. Which tasks a configuration has and how each paces
  itself, one tick of a task with its backoff, the three jobs a tick runs, and the log of the federation pushes.
  A task is followed through the worlds its ticks find, whatever else writes in between. Parsing a cron expression, the hash
  behind the jitter and the timers themselves are not part of it.
\<close>

section \<open>Cadences\<close>

definition DEPENDENCY_WAIT_SECONDS :: nat where "DEPENDENCY_WAIT_SECONDS = 300"
definition MAX_JITTER_SECONDS :: nat where "MAX_JITTER_SECONDS = 30"
definition MAX_BACKOFF_INTERVALS :: u32 where "MAX_BACKOFF_INTERVALS = 8"
definition FEDERATION_PUSH_SECONDS :: nat where "FEDERATION_PUSH_SECONDS = 60"

datatype 'c cadence = Interval nat | Cron 'c

definition cadence_of :: "(string \<Rightarrow> string + 'c) \<Rightarrow> string option \<Rightarrow> nat option \<Rightarrow> 'c cadence option" where
  "cadence_of parse_cron schedule interval =
     (case schedule of
        Some expression \<Rightarrow> (case parse_cron expression of Inr cron \<Rightarrow> Some (Cron cron) | Inl e \<Rightarrow> None)
      | None \<Rightarrow> (case interval of
                   Some secs \<Rightarrow> if 0 < secs then Some (Interval secs) else None
                 | None \<Rightarrow> None))"

fun restart_delay :: "'c cadence \<Rightarrow> nat" where
  "restart_delay (Interval secs) = secs"
| "restart_delay (Cron cron) = 60"

text \<open>In milliseconds; the hash of the standard library is a parameter.\<close>

definition startup_jitter :: "(string \<Rightarrow> u64) \<Rightarrow> string \<Rightarrow> nat \<Rightarrow> nat" where
  "startup_jitter hash i interval_seconds =
     (let window_ms = min interval_seconds MAX_JITTER_SECONDS * 1000
      in if window_ms = 0 then 0 else unat (hash i) mod window_ms)"

definition first_delay :: "(string \<Rightarrow> u64) \<Rightarrow> string \<Rightarrow> 'c cadence \<Rightarrow> nat" where
  "first_delay hash i c = (case c of Interval secs \<Rightarrow> startup_jitter hash i secs | Cron cron \<Rightarrow> 0)"

section \<open>Backing off\<close>

definition saturating_pow2 :: "u32 \<Rightarrow> u32" where
  "saturating_pow2 k = (if k < 32 then push_bit (unat k) 1 else - 1)"

definition ticks_to_skip :: "u32 \<Rightarrow> u32" where
  "ticks_to_skip n =
     (if n = 0 then 0
      else min (saturating_pow2 (n - 1)) MAX_BACKOFF_INTERVALS - 1)"

record pace =
  pc_failures :: u32
  pc_skip :: u32

definition pace_start :: pace where
  "pace_start = \<lparr>pc_failures = 0, pc_skip = 0\<rparr>"

definition after_attempt :: "bool \<Rightarrow> pace \<Rightarrow> pace" where
  "after_attempt failed p =
     (if failed then (let n = saturating_inc (pc_failures p) in p\<lparr>pc_failures := n, pc_skip := ticks_to_skip n\<rparr>)
      else p\<lparr>pc_failures := 0\<rparr>)"

definition tick :: "('w \<Rightarrow> pace \<Rightarrow> 'w \<times> pace) \<Rightarrow> 'w \<Rightarrow> pace \<Rightarrow> 'w \<times> pace" where
  "tick job w p = (if 0 < pc_skip p then (w, p\<lparr>pc_skip := pc_skip p - 1\<rparr>) else job w p)"

section \<open>The jobs\<close>

text \<open>What a scheduled sync finds: its configuration, the state and the instants, and the counter it read before queueing.\<close>

record sync_world =
  sw_config :: runtime_config
  sw_env :: sync_env
  sw_enrich :: enricher_env
  sw_is_file :: "string \<Rightarrow> bool"
  sw_is_dir :: "string \<Rightarrow> bool"
  sw_projects_dir :: string
  sw_now :: instant
  sw_ms :: nat
  sw_unix_now :: nat
  sw_before :: u64
  sw_state :: "u64 \<times> sync_state"

definition scheduled_request :: sync_request where
  "scheduled_request = with_run_trigger Scheduled (with_trigger ''scheduled'' (plain_request Scope_full))"

definition scheduled_outcome :: "string \<Rightarrow> source \<Rightarrow> sync_world \<Rightarrow> (u64 \<times> sync_state) \<times> sync_outcome" where
  "scheduled_outcome i fallback w =
     (let src = (case source_for_sync (sw_is_file w) (sw_is_dir w) (sw_projects_dir w) (sw_config w) i of
                   None \<Rightarrow> fallback | Some s \<Rightarrow> s)
      in sync_source (sw_env w) (Some (sw_enrich w, rc_enrichers (sw_config w))) (sw_now w) (sw_ms w) (sw_unix_now w)
           i src scheduled_request (sw_before w) (sw_state w))"

definition scheduled_sync :: "string \<Rightarrow> source \<Rightarrow> sync_world \<Rightarrow> pace \<Rightarrow> sync_world \<times> pace" where
  "scheduled_sync i fallback w p =
     (let (st, outcome) = scheduled_outcome i fallback w
      in (w\<lparr>sw_state := st\<rparr>,
          case so_error outcome of
            None \<Rightarrow> p\<lparr>pc_failures := 0\<rparr>
          | Some e \<Rightarrow> (let n = saturating_inc (pc_failures p) in p\<lparr>pc_failures := n, pc_skip := ticks_to_skip n\<rparr>)))"

record enrich_world =
  ew_env :: enricher_env
  ew_now :: instant
  ew_ms :: nat
  ew_state :: "mem_cache \<times> health_registry"

definition scheduled_enrichment :: "string \<Rightarrow> enricher \<Rightarrow> enrich_world \<Rightarrow> pace \<Rightarrow> enrich_world \<times> pace" where
  "scheduled_enrichment i en w p =
     (let (st, result) = run_enricher (ew_env w) (ew_now w) (ew_ms w) i en (Some ''scheduled'') (ew_state w);
          error = (case result of
                     None \<Rightarrow> True
                   | Some outcome \<Rightarrow> (case eo_error outcome of None \<Rightarrow> False | Some e \<Rightarrow> True))
      in (w\<lparr>ew_state := st\<rparr>,
          if error then (let n = saturating_inc (pc_failures p) in p\<lparr>pc_failures := n, pc_skip := ticks_to_skip n\<rparr>)
          else p\<lparr>pc_failures := 0\<rparr>))"

record 'w project_world =
  pw_env :: "'w project_env"
  pw_now :: instant
  pw_ms :: nat
  pw_unix_now :: nat
  pw_projects_dir :: string
  pw_state :: "'w \<times> health_registry"

definition scheduled_project_pull ::
  "string \<Rightarrow> git_project \<Rightarrow> 'w project_world \<Rightarrow> pace \<Rightarrow> 'w project_world \<times> pace" where
  "scheduled_project_pull i p w pace =
     (let (st, result) = sync_project (pw_env w) (pw_now w) (pw_ms w) (pw_unix_now w) i p (pw_projects_dir w)
            (origin_of Scheduled) (pw_state w)
      in (w\<lparr>pw_state := st\<rparr>,
          case result of
            Inr _ \<Rightarrow> pace\<lparr>pc_failures := 0\<rparr>
          | Inl e \<Rightarrow> (let n = saturating_inc (pc_failures pace) in pace\<lparr>pc_failures := n, pc_skip := ticks_to_skip n\<rparr>)))"

section \<open>The tasks of a generation\<close>

datatype task_kind = Sync_task | Enrich_task | Project_task

definition start_sync_tasks :: "(string \<Rightarrow> string + 'c) \<Rightarrow> runtime_config \<Rightarrow> (task_kind \<times> string \<times> 'c cadence) list" where
  "start_sync_tasks parse_cron c =
     fm_flat (\<lambda>i s. case cadence_of parse_cron (s_schedule s) (s_sync_interval_seconds s) of
                None \<Rightarrow> [] | Some cad \<Rightarrow> [(Sync_task, i, cad)]) (rc_sources c)
     @ fm_flat (\<lambda>i e. case cadence_of parse_cron (en_schedule e) (en_sync_interval_seconds e) of
                None \<Rightarrow> [] | Some cad \<Rightarrow> [(Enrich_task, i, cad)]) (rc_enrichers c)"

definition start_project_tasks :: "(string \<Rightarrow> string + 'c) \<Rightarrow> runtime_config \<Rightarrow> (task_kind \<times> string \<times> 'c cadence) list" where
  "start_project_tasks parse_cron c =
     fm_flat (\<lambda>i p. case cadence_of parse_cron (gp_schedule p) (gp_sync_interval_seconds p) of
                None \<Rightarrow> [] | Some cad \<Rightarrow> [(Project_task, i, cad)]) (rc_projects c)"

definition has_federation_task :: "runtime_config \<Rightarrow> bool" where
  "has_federation_task c \<longleftrightarrow> (\<exists>i \<in> fmdom' (rc_sources c). remote_url (the (fmlookup (rc_sources c) i)) \<noteq> None)"

text \<open>The checkouts a generation after the first clones: the projects with no \<open>.git\<close> on disk.\<close>

definition clone_missing_checkouts :: "(string \<Rightarrow> bool) \<Rightarrow> string \<Rightarrow> runtime_config \<Rightarrow> string list" where
  "clone_missing_checkouts path_exists projects_dir c =
     filter (\<lambda>i. \<not> path_exists (path_join (path_join projects_dir i) ''.git'')) (fm_keys (rc_projects c))"

definition generation_tasks ::
  "(string \<Rightarrow> string + 'c) \<Rightarrow> (string \<Rightarrow> bool) \<Rightarrow> string \<Rightarrow> u64 \<Rightarrow> runtime_config
     \<Rightarrow> (task_kind \<times> string \<times> 'c cadence) list \<times> bool \<times> string list" where
  "generation_tasks parse_cron path_exists projects_dir gen c =
     (start_sync_tasks parse_cron c @ start_project_tasks parse_cron c, has_federation_task c,
      if 0 < gen then clone_missing_checkouts path_exists projects_dir c else [])"

section \<open>The log of the federation pushes\<close>

datatype push_log = Push_recovered string | Push_started_failing string string | Push_still_failing string string

definition note_push ::
  "string \<times> (push_error + unit) \<Rightarrow> string set \<times> push_log list \<Rightarrow> string set \<times> push_log list" where
  "note_push o' = (\<lambda>(failing, log).
     let url = fst o'
     in case snd o' of
          Inl (Push_failed reason) \<Rightarrow>
            (insert url failing, log @ [if url \<in> failing then Push_still_failing url reason else Push_started_failing url reason])
        | _ \<Rightarrow> (failing - {url}, if url \<in> failing then log @ [Push_recovered url] else log))"


section \<open>How long a failing job waits\<close>

lemma unat_min: "unat (min a b :: 'a::len word) = min (unat a) (unat b)"
  by (simp add: min_def word_le_nat_alt)

lemma unat_saturating_pow2: "unat (saturating_pow2 k) = min (2 ^ unat k) (2 ^ 32 - 1)"
proof (cases "k < 32")
  case True
  then have u: "unat k < 32" using word_less_nat_alt [of k 32] by simp
  then have "(2 :: nat) ^ unat k < 2 ^ 32" by (rule power_strict_increasing) simp
  moreover have "unat (push_bit (unat k) 1 :: u32) = take_bit 32 (2 ^ unat k)"
    by (simp only: unsigned_push_bit_eq unsigned_1) (simp add: push_bit_eq_mult)
  ultimately show ?thesis using True u unfolding saturating_pow2_def by (simp add: take_bit_nat_eq_self)
next
  case False
  then have u: "32 \<le> unat k" using word_less_nat_alt [of k 32] by simp
  then have "(2 :: nat) ^ 32 \<le> 2 ^ unat k" by (rule power_increasing) simp
  moreover have "unat (- 1 :: u32) = 2 ^ 32 - 1" by (simp add: unsigned_minus_1_eq_mask mask_eq_exp_minus_1)
  ultimately show ?thesis using False unfolding saturating_pow2_def by simp
qed

lemma unat_ticks_to_skip: "unat (ticks_to_skip n) = (if n = 0 then 0 else min (2 ^ (unat n - 1)) 8 - 1)"
proof (cases "n = 0")
  case False
  then have n: "unat (n - 1) = unat n - 1" by (simp add: unat_minus_one)
  let ?m = "min (saturating_pow2 (n - 1)) MAX_BACKOFF_INTERVALS"
  have m: "unat ?m = min (2 ^ (unat n - 1)) 8"
    by (simp add: unat_min unat_saturating_pow2 n MAX_BACKOFF_INTERVALS_def)
  then have "?m \<noteq> 0" by (metis min_def power_eq_0_iff unat_0 zero_neq_numeral)
  then have "unat (?m - 1) = unat ?m - 1" by (simp add: unat_minus_one)
  with False m show ?thesis by (simp add: ticks_to_skip_def)
qed (simp add: ticks_to_skip_def)

lemma ticks_to_skip_less: "unat (ticks_to_skip n) < 8"
proof -
  have "min x 8 - 1 < 8" for x :: nat by linarith
  then show ?thesis by (simp add: unat_ticks_to_skip)
qed

text \<open>The ticks of a task over the worlds they find: which of them ran the job, and the pace they leave.\<close>

fun run_ticks :: "('w \<Rightarrow> pace \<Rightarrow> 'w \<times> pace) \<Rightarrow> 'w list \<Rightarrow> pace \<Rightarrow> bool list \<times> pace" where
  "run_ticks job [] p = ([], p)"
| "run_ticks job (w # ws) p =
     (let (attempts, p') = run_ticks job ws (snd (tick job w p)) in ((pc_skip p = 0) # attempts, p'))"

lemma run_ticks_append:
  "run_ticks job (ws @ vs) p =
     (fst (run_ticks job ws p) @ fst (run_ticks job vs (snd (run_ticks job ws p))),
      snd (run_ticks job vs (snd (run_ticks job ws p))))"
  by (induction ws arbitrary: p) (auto simp: case_prod_beta Let_def)

lemma run_ticks_length [simp]: "length (fst (run_ticks job ws p)) = length ws"
  by (induction ws arbitrary: p) (auto simp: case_prod_beta Let_def)

lemma run_ticks_waits:
  "unat (pc_skip p) = length ws \<Longrightarrow> run_ticks job ws p = (replicate (length ws) False, p\<lparr>pc_skip := 0\<rparr>)"
proof (induction ws arbitrary: p)
  case Nil
  then show ?case by (simp add: unat_eq_0)
next
  case (Cons w ws)
  then have pos: "0 < pc_skip p" by (metis length_0_conv list.distinct(1) unat_0 word_gt_0)
  then have "unat (pc_skip p - 1) = length ws"
    using Cons.prems by (simp add: unat_minus_one word_neq_0_conv)
  from Cons.IH [of "p\<lparr>pc_skip := pc_skip p - 1\<rparr>"] this pos show ?case
    by (simp add: tick_def word_neq_0_conv)
qed

definition pace_ok :: "pace \<Rightarrow> bool" where
  "pace_ok p \<longleftrightarrow> unat (pc_skip p) < 8"

lemma saturated_power: "min (2 ^ min n 4294967294) 8 = (min (2 ^ n) 8 :: nat)"
proof (cases "n < 3")
  case False
  then have "(2 :: nat) ^ 3 \<le> 2 ^ n" "(2 :: nat) ^ 3 \<le> 2 ^ min n 4294967294"     using False power_increasing [of 3 n "2 :: nat"] power_increasing [of 3 "min n 4294967294" "2 :: nat"] by simp_all
  then show ?thesis by simp
qed simp

lemma inc_positive: "0 < unat (saturating_inc n)"
  by (simp add: unat_saturating_inc)

definition failing_at :: "nat \<Rightarrow> pace \<Rightarrow> bool" where
  "failing_at i p \<longleftrightarrow>
     unat (pc_skip p) = (if i \<le> 1 then 0 else if i \<le> 3 then 3 - i else 7 - i mod 8)
     \<and> (if i \<le> 3 then unat (pc_failures p) = min i 2 else 3 \<le> unat (pc_failures p))"

lemma failing_at_attempts:
  assumes "failing_at i p"
  shows "pc_skip p = 0 \<longleftrightarrow> i \<in> {0, 1, 3} \<or> i mod 8 = 7"
proof -
  have "pc_skip p = 0 \<longleftrightarrow> unat (pc_skip p) = 0" by (simp add: unat_eq_0)
  also have "\<dots> \<longleftrightarrow> i \<in> {0, 1, 3} \<or> i mod 8 = 7"
  proof (cases "i \<le> 3")
    case True
    then have "i \<in> {0, 1, 2, 3}" by auto
    with assms show ?thesis by (auto simp: failing_at_def)
  next
    case False
    with assms mod_less_divisor [of 8 i] show ?thesis by (auto simp: failing_at_def)
  qed
  finally show ?thesis .
qed

lemma failing_tick:
  assumes at: "failing_at i p" and job: "snd (job w p) = after_attempt True p"
  shows "failing_at (Suc i) (snd (tick job w p))"
proof (cases "pc_skip p = 0")
  case False
  then have "unat (pc_skip p - 1) = unat (pc_skip p) - 1" "0 < unat (pc_skip p)"
    by (simp_all add: unat_minus_one word_neq_0_conv unat_gt_0)
  moreover have "2 \<le> i" "i \<noteq> 3" "i mod 8 \<noteq> 7" using False failing_at_attempts [OF at] by auto
  moreover have "Suc i mod 8 = Suc (i mod 8)" if "i mod 8 \<noteq> 7" using that mod_Suc [of i 8] by auto
  ultimately show ?thesis
    using at False by (auto simp: failing_at_def tick_def word_neq_0_conv)
next
  case True
  let ?n = "saturating_inc (pc_failures p)"
  have n: "unat ?n = min (unat (pc_failures p) + 1) (2 ^ 32 - 1)" by (rule unat_saturating_inc)
  have nz: "?n \<noteq> 0" using inc_positive [of "pc_failures p"] by (metis less_numeral_extra(3) unat_0)
  have t: "snd (tick job w p) = p\<lparr>pc_failures := ?n, pc_skip := ticks_to_skip ?n\<rparr>"
    using True job by (simp add: tick_def after_attempt_def Let_def)
  consider "i = 0" | "i = 1" | "i = 3" | "7 \<le> i" "i mod 8 = 7"
    using True failing_at_attempts [OF at] by (auto; presburger)
  then show ?thesis
  proof cases
    case 4
    then have f: "3 \<le> unat (pc_failures p)" using at by (simp add: failing_at_def)
    then have "(2 :: nat) ^ 3 \<le> 2 ^ (unat ?n - 1)" using n by (intro power_increasing) auto
    with 4 f n nz show ?thesis by (simp add: t failing_at_def unat_ticks_to_skip mod_Suc)
  qed (use at n nz in \<open>auto simp: t failing_at_def unat_ticks_to_skip\<close>)
qed

text \<open>The contract of a scheduled job: whatever it runs, it keeps the books of its failures.\<close>

locale scheduled_job =
  fixes job :: "'w \<Rightarrow> pace \<Rightarrow> 'w \<times> pace" and failed :: "'w \<Rightarrow> bool"
  assumes job_pace: "snd (job w p) = after_attempt (failed w) p"
begin

lemma pace_ok_tick: "pace_ok p \<Longrightarrow> pace_ok (snd (tick job w p))"
proof (cases "0 < pc_skip p")
  case True
  assume "pace_ok p"
  moreover have "unat (pc_skip p - 1) = unat (pc_skip p) - 1" using True by (simp add: unat_minus_one word_neq_0_conv)
  ultimately show ?thesis using True by (simp add: tick_def pace_ok_def)
qed (simp add: tick_def job_pace pace_ok_def after_attempt_def Let_def ticks_to_skip_less)

lemma pace_ok_ticks: "pace_ok p \<Longrightarrow> pace_ok (snd (run_ticks job ws p))"
  by (induction ws arbitrary: p) (auto simp: case_prod_beta Let_def pace_ok_tick)

lemma attempt_within:
  assumes "unat (pc_skip p) < length ws"
  shows "fst (run_ticks job ws p) ! unat (pc_skip p)"
proof -
  let ?k = "unat (pc_skip p)"
  obtain us w rest where ws: "ws = us @ w # rest" "length us = ?k"
    using id_take_nth_drop [OF assms] assms by (metis length_take min.absorb4)
  then have "run_ticks job us p = (replicate ?k False, p\<lparr>pc_skip := 0\<rparr>)"
    using run_ticks_waits [of p us job] by simp
  then have "fst (run_ticks job ws p) = replicate ?k False @ True # fst (run_ticks job rest (snd (tick job w (p\<lparr>pc_skip := 0\<rparr>))))"
    by (simp add: ws(1) run_ticks_append case_prod_beta Let_def)
  then show ?thesis by (simp add: nth_append)
qed

lemma never_starves:
  assumes "pace_ok p" and "8 \<le> length ws"
  shows "\<exists>k < 8. fst (run_ticks job ws p) ! k"
  using attempt_within [of p ws] assms by (auto simp: pace_ok_def)

lemma backs_off:
  assumes "pc_skip p = 0" and "failed w" and "length ws = min (2 ^ unat (pc_failures p)) 8 - 1"
  shows "fst (run_ticks job (w # ws @ [v]) p) = True # replicate (length ws) False @ [True]"
proof -
  let ?p = "snd (tick job w p)"
  have n: "saturating_inc (pc_failures p) \<noteq> 0"
    using inc_positive [of "pc_failures p"] by (metis less_numeral_extra(3) unat_0)
  have "?p = after_attempt True p" using assms(1,2) by (simp add: tick_def job_pace)
  then have "unat (pc_skip ?p) = length ws"
    using assms(3) n by (simp add: after_attempt_def Let_def unat_ticks_to_skip unat_saturating_inc saturated_power)
  from run_ticks_waits [OF this] assms(1) show ?thesis
    by (simp add: run_ticks_append case_prod_beta Let_def)
qed

lemma recovers:
  assumes "pc_skip p = 0" and "\<not> failed w"
  shows "fst (run_ticks job [w, v] p) = [True, True] \<and> pc_failures (snd (run_ticks job [w] p)) = 0"
  using assms by (simp add: tick_def job_pace after_attempt_def Let_def case_prod_beta)

text \<open>Where a job that has failed all along stands after \<open>i\<close> ticks.\<close>

lemma failing_pace:
  assumes "\<forall>w \<in> set ws. failed w"
  shows "failing_at (length ws) (snd (run_ticks job ws pace_start))"
  using assms
proof (induction ws rule: rev_induct)
  case Nil
  then show ?case by (simp add: failing_at_def pace_start_def)
next
  case (snoc w ws)
  let ?p = "snd (run_ticks job ws pace_start)"
  have "failing_at (length ws) ?p" using snoc by simp
  moreover have "snd (job w ?p) = after_attempt True ?p" using snoc.prems by (simp add: job_pace)
  ultimately have "failing_at (Suc (length ws)) (snd (tick job w ?p))" by (rule failing_tick)
  then show ?case by (simp add: run_ticks_append case_prod_beta Let_def)
qed

lemma failing_attempts:
  assumes "\<forall>w \<in> set ws. failed w" and "i < length ws"
  shows "fst (run_ticks job ws pace_start) ! i \<longleftrightarrow> i \<in> {0, 1, 3} \<or> i mod 8 = 7"
proof -
  obtain us w rest where ws: "ws = us @ w # rest" "length us = i"
    using id_take_nth_drop [OF assms(2)] assms(2) by (metis length_take min.absorb4)
  let ?p = "snd (run_ticks job us pace_start)"
  have "failing_at i ?p" using failing_pace [of us] assms(1) ws by auto
  then have "pc_skip ?p = 0 \<longleftrightarrow> i \<in> {0, 1, 3} \<or> i mod 8 = 7" by (rule failing_at_attempts)
  moreover have "fst (run_ticks job ws pace_start) ! i \<longleftrightarrow> pc_skip ?p = 0"
    using ws(2) run_ticks_length [of job us pace_start]
    by (simp add: ws(1) run_ticks_append case_prod_beta Let_def nth_append)
  ultimately show ?thesis by simp
qed

end


section \<open>The three jobs keep the contract\<close>

definition scheduled_sync_failed :: "string \<Rightarrow> source \<Rightarrow> sync_world \<Rightarrow> bool" where
  "scheduled_sync_failed i fallback w \<longleftrightarrow> so_error (snd (scheduled_outcome i fallback w)) \<noteq> None"

definition enrichment_failed :: "string \<Rightarrow> enricher \<Rightarrow> enrich_world \<Rightarrow> bool" where
  "enrichment_failed i en w \<longleftrightarrow>
     (case snd (run_enricher (ew_env w) (ew_now w) (ew_ms w) i en (Some ''scheduled'') (ew_state w)) of
        None \<Rightarrow> True | Some outcome \<Rightarrow> eo_error outcome \<noteq> None)"

definition pull_failed :: "string \<Rightarrow> git_project \<Rightarrow> 'w project_world \<Rightarrow> bool" where
  "pull_failed i p w \<longleftrightarrow>
     (\<exists>e. snd (sync_project (pw_env w) (pw_now w) (pw_ms w) (pw_unix_now w) i p (pw_projects_dir w)
        (origin_of Scheduled) (pw_state w)) = Inl e)"

interpretation sync_job: scheduled_job "scheduled_sync i fallback" "scheduled_sync_failed i fallback" for i fallback
  by unfold_locales
     (auto simp: scheduled_sync_def scheduled_sync_failed_def after_attempt_def Let_def case_prod_beta split: option.splits)

interpretation enrich_job: scheduled_job "scheduled_enrichment i en" "enrichment_failed i en" for i en
  by unfold_locales
     (auto simp: scheduled_enrichment_def enrichment_failed_def after_attempt_def Let_def case_prod_beta split: option.splits)

interpretation pull_job: scheduled_job "scheduled_project_pull i p" "pull_failed i p" for i p
  by unfold_locales
     (auto simp: scheduled_project_pull_def pull_failed_def after_attempt_def Let_def case_prod_beta split: sum.splits)

lemma pace_start_ok: "pace_ok (snd (run_ticks job [] pace_start))"
  by (simp add: pace_ok_def pace_start_def)


text \<open>A world in which the sync of \<open>vm\<close> fails: its script does.\<close>

definition failing_world :: sync_world where
  "failing_world =
     \<lparr>sw_config = runtime_config_of (sample_config\<lparr>ac_sources := fmempty\<rparr>), sw_env = sample_env (Run_failed ''exit 1''),
      sw_enrich = \<lparr>ee_execute = (\<lambda>_ _ _ _. Run_failed ''no script''), ee_is_file = (\<lambda>_. False), ee_is_dir = (\<lambda>_. False),
        ee_projects_dir = ''projects''\<rparr>,
      sw_is_file = (\<lambda>_. False), sw_is_dir = (\<lambda>_. False), sw_projects_dir = ''projects'', sw_now = 9, sw_ms = 3,
      sw_unix_now = 100, sw_before = 0, sw_state = (0, sample_state)\<rparr>"

lemma failing_world_fails: "scheduled_sync_failed ''vm'' sample_source failing_world"
  by (auto simp: scheduled_sync_failed_def scheduled_outcome_def failing_world_def source_for_sync_def runtime_config_of_def
      sync_source_def run_sync_def sample_sync_call sync_landed_def sync_failed_def Let_def case_prod_beta)


text \<open>
  No job is given up: however its earlier runs went, a source, an enricher and a project each run at least once in any
  eight consecutive ticks; after a failure at \<open>n\<close> failures in a row the next run comes exactly \<open>min (2 ^ n) 8\<close> ticks
  later, and after a success at the very next tick.
\<close>

theorem jobs_keep_trying:
  fixes projects :: "'w project_world list"
  shows "(8 \<le> length ws \<longrightarrow> (\<exists>k < 8. fst (run_ticks (scheduled_sync i src) ws (snd (run_ticks (scheduled_sync i src) before pace_start))) ! k))
   \<and> (8 \<le> length es \<longrightarrow> (\<exists>k < 8. fst (run_ticks (scheduled_enrichment i en) es (snd (run_ticks (scheduled_enrichment i en) before' pace_start))) ! k))
   \<and> (8 \<le> length projects \<longrightarrow>
        (\<exists>k < 8. fst (run_ticks (scheduled_project_pull i p) projects (snd (run_ticks (scheduled_project_pull i p) earlier pace_start))) ! k))
   \<and> (pc_skip q = 0 \<and> scheduled_sync_failed i src w \<and> length vs = min (2 ^ unat (pc_failures q)) 8 - 1 \<longrightarrow>
        fst (run_ticks (scheduled_sync i src) (w # vs @ [v]) q) = True # replicate (length vs) False @ [True])
   \<and> (pc_skip q = 0 \<and> \<not> scheduled_sync_failed i src w \<longrightarrow> fst (run_ticks (scheduled_sync i src) [w, v] q) = [True, True])"
proof -
  have start: "pace_ok pace_start" by (simp add: pace_ok_def pace_start_def)
  show ?thesis
    using sync_job.never_starves [OF sync_job.pace_ok_ticks [OF start]] enrich_job.never_starves [OF enrich_job.pace_ok_ticks [OF start]]
      pull_job.never_starves [OF pull_job.pace_ok_ticks [OF start]] sync_job.backs_off [of q i src w vs v]
      sync_job.recovers [of q i src w v]
    by blast
qed

theorem jobs_keep_trying_witness:
  "\<exists>k < 8. fst (run_ticks (scheduled_sync ''vm'' sample_source) (replicate 8 failing_world)
     (snd (run_ticks (scheduled_sync ''vm'' sample_source) (replicate 100 failing_world) pace_start))) ! k"
  using jobs_keep_trying [where ws = "replicate 8 failing_world" and i = "''vm''" and src = sample_source
      and before = "replicate 100 failing_world" and es = "[]" and projects = "[]"] by simp

text \<open>
  C28. The first tick is spread by less than the interval and less than thirty seconds, not at all for a cron schedule,
  and a backoff, whatever the 32-bit count of failures, is the doubling one capped at eight intervals.
\<close>

theorem pacing_bounds:
  fixes cron :: 'c
  shows "(0 < n \<longrightarrow> first_delay hash i (Interval n :: 'c cadence) < min n 30 * 1000)
   \<and> first_delay hash i (Cron cron) = 0
   \<and> unat (ticks_to_skip f) + 1 = (if f = 0 then 1 else min (2 ^ (unat f - 1)) 8)"
proof (intro conjI impI)
  show "first_delay hash i (Interval n :: 'c cadence) < min n 30 * 1000" if "0 < n"
    using that by (simp add: first_delay_def startup_jitter_def MAX_JITTER_SECONDS_def Let_def)
  show "first_delay hash i (Cron cron) = 0" by (simp add: first_delay_def)
  have "1 \<le> min (2 ^ (unat f - 1)) (8 :: nat)" by simp
  then show "unat (ticks_to_skip f) + 1 = (if f = 0 then 1 else min (2 ^ (unat f - 1)) 8)"
    by (simp add: unat_ticks_to_skip)
qed

theorem pacing_bounds_witness:
  "first_delay (\<lambda>_. 123456) ''vm'' (Interval 10 :: nat cadence) < 10 * 1000 \<and> unat (ticks_to_skip 3) = 3"
  using pacing_bounds [of 10 "\<lambda>_. 123456" "''vm''" "0 :: nat" 3] by simp

section \<open>An accepted configuration is scheduled as written\<close>

lemma in_fm_flat: "x \<in> set (fm_flat f m) \<longleftrightarrow> (\<exists>i v. fmlookup m i = Some v \<and> x \<in> set (f i v))"
proof
  assume "x \<in> set (fm_flat f m)"
  then obtain i where "i \<in> fmdom' m" "x \<in> set (f i (the (fmlookup m i)))" by (auto simp: fm_flat_def)
  then show "\<exists>i v. fmlookup m i = Some v \<and> x \<in> set (f i v)"
    by (intro exI [of _ i] exI [of _ "the (fmlookup m i)"]) (auto simp: fmlookup_dom'_iff)
next
  assume "\<exists>i v. fmlookup m i = Some v \<and> x \<in> set (f i v)"
  then obtain i v where "fmlookup m i = Some v" "x \<in> set (f i v)" by auto
  then show "x \<in> set (fm_flat f m)"
    by (auto simp: fm_flat_def fmlookup_dom'_iff intro!: bexI [of _ i])
qed

definition paced_as :: "(string \<Rightarrow> string + 'c) \<Rightarrow> string option \<Rightarrow> nat option \<Rightarrow> 'c cadence \<Rightarrow> bool" where
  "paced_as parse_cron schedule interval cad \<longleftrightarrow>
     (case cad of
        Interval n \<Rightarrow> schedule = None \<and> interval = Some n \<and> 0 < n
      | Cron cron \<Rightarrow> (\<exists>e. schedule = Some e \<and> parse_cron e = Inr cron) \<and> \<not> (\<exists>n > 0. interval = Some n))"

definition has_cadence :: "string option \<Rightarrow> nat option \<Rightarrow> bool" where
  "has_cadence schedule interval \<longleftrightarrow> schedule \<noteq> None \<or> (\<exists>n > 0. interval = Some n)"

definition same_parser :: "config_env \<Rightarrow> (string \<Rightarrow> string + 'c) \<Rightarrow> bool" where
  "same_parser env parse_cron \<longleftrightarrow> (\<forall>e. cv_cron_error env e = (case parse_cron e of Inl m \<Rightarrow> Some m | Inr _ \<Rightarrow> None))"

lemma cadence_accepted:
  assumes "cadence_errors env kind i schedule interval = []" and "same_parser env parse_cron"
  shows "cadence_of parse_cron schedule interval = Some cad \<longleftrightarrow> paced_as parse_cron schedule interval cad"
    and "(\<exists>cad. cadence_of parse_cron schedule interval = Some cad) \<longleftrightarrow> has_cadence schedule interval"
proof -
  have "\<exists>cron. parse_cron e = Inr cron" "\<not> (\<exists>n > 0. interval = Some n)" if "schedule = Some e" for e
    using assms that by (auto simp: same_parser_def cadence_errors_def err_if_def split: option.splits sum.splits if_splits)
  then show "cadence_of parse_cron schedule interval = Some cad \<longleftrightarrow> paced_as parse_cron schedule interval cad"
    and "(\<exists>cad. cadence_of parse_cron schedule interval = Some cad) \<longleftrightarrow> has_cadence schedule interval"
    by (cases schedule; cases cad; auto simp: cadence_of_def paced_as_def has_cadence_def split: option.splits sum.splits)+
qed

lemma task_of_flat:
  "(k, i, cad) \<in> set (fm_flat (\<lambda>i v. case c v of None \<Rightarrow> [] | Some cad \<Rightarrow> [(k', i, cad)]) m)
     \<longleftrightarrow> k = k' \<and> (\<exists>v. fmlookup m i = Some v \<and> c v = Some cad)"
  by (auto simp: in_fm_flat split: option.splits)

lemma distinct_flat:
  "distinct (map (\<lambda>(k, i, cad). (k, i)) (fm_flat (\<lambda>i v. case c v of None \<Rightarrow> [] | Some cad \<Rightarrow> [(k', i, cad)]) m))"
proof -
  have "distinct (map (\<lambda>(k, i, cad). (k, i)) (concat (map (\<lambda>i. case c (the (fmlookup m i)) of None \<Rightarrow> [] | Some cad \<Rightarrow> [(k', i, cad)]) is)))"
    if "distinct is" for "is"
    using that by (induction "is") (auto split: option.splits)
  then show ?thesis by (simp add: fm_flat_def)
qed

lemma start_tasks_distinct:
  "distinct (map (\<lambda>(k, i, cad). (k, i)) (start_sync_tasks parse_cron c @ start_project_tasks parse_cron c))"
  unfolding start_sync_tasks_def start_project_tasks_def map_append distinct_append set_append set_map
  by (intro conjI distinct_flat) (auto simp: task_of_flat)

text \<open>
  An accepted configuration is scheduled as it is written, when the scheduler parses what the validation parsed: each
  source, enricher and project with a cron schedule or an interval has exactly one task, paced by just that
  cadence, none without one has a task, and a schedule is never overridden by an interval.
\<close>

theorem accepted_work_is_scheduled:
  assumes "accepted env cfg" and "same_parser env parse_cron"
  shows "let tasks = start_sync_tasks parse_cron (runtime_config_of cfg) @ start_project_tasks parse_cron (runtime_config_of cfg)
     in distinct (map (\<lambda>(k, i, cad). (k, i)) tasks)
      \<and> (\<forall>s. fmlookup (ac_sources cfg) i = Some s \<longrightarrow>
           ((Sync_task, i, cad) \<in> set tasks \<longleftrightarrow> paced_as parse_cron (s_schedule s) (s_sync_interval_seconds s) cad)
           \<and> ((\<exists>cad. (Sync_task, i, cad) \<in> set tasks) \<longleftrightarrow> has_cadence (s_schedule s) (s_sync_interval_seconds s)))
      \<and> (\<forall>e. fmlookup (ac_enrichers cfg) i = Some e \<longrightarrow>
           ((Enrich_task, i, cad) \<in> set tasks \<longleftrightarrow> paced_as parse_cron (en_schedule e) (en_sync_interval_seconds e) cad)
           \<and> ((\<exists>cad. (Enrich_task, i, cad) \<in> set tasks) \<longleftrightarrow> has_cadence (en_schedule e) (en_sync_interval_seconds e)))
      \<and> (\<forall>p. fmlookup (ac_projects cfg) i = Some p \<longrightarrow>
           ((Project_task, i, cad) \<in> set tasks \<longleftrightarrow> paced_as parse_cron (gp_schedule p) (gp_sync_interval_seconds p) cad)
           \<and> ((\<exists>cad. (Project_task, i, cad) \<in> set tasks) \<longleftrightarrow> has_cadence (gp_schedule p) (gp_sync_interval_seconds p)))"
proof -
  have s: "cadence_errors env ''Source'' i (s_schedule s) (s_sync_interval_seconds s) = []"
    if "fmlookup (ac_sources cfg) i = Some s" for s
    using accepted_source [OF assms(1) that] by simp
  have e: "cadence_errors env ''Enricher'' i (en_schedule e) (en_sync_interval_seconds e) = []"
    if "fmlookup (ac_enrichers cfg) i = Some e" for e
    using accepted_enricher [OF assms(1) that] by simp
  have p: "cadence_errors env ''Project'' i (gp_schedule p) (gp_sync_interval_seconds p) = []"
    if "fmlookup (ac_projects cfg) i = Some p" for p
    using assms(1) that unfolding accepted_parts by simp
  show ?thesis
    unfolding Let_def
    using start_tasks_distinct [of parse_cron "runtime_config_of cfg"]
      cadence_accepted [OF s assms(2)] cadence_accepted [OF e assms(2)] cadence_accepted [OF p assms(2)]
    by (auto simp: start_sync_tasks_def start_project_tasks_def task_of_flat runtime_config_of_def)
qed


theorem accepted_work_is_scheduled_witness:
  "(Sync_task, ''vm'', Interval 600) \<in> set (start_sync_tasks (Inr :: string \<Rightarrow> string + string) (runtime_config_of sample_config)
      @ start_project_tasks Inr (runtime_config_of sample_config))"
proof -
  have "same_parser sample_config_env (Inr :: string \<Rightarrow> string + string)" by (simp add: same_parser_def sample_config_env_def)
  moreover have "\<exists>s. fmlookup (ac_sources sample_config) ''vm'' = Some s \<and> s_schedule s = None \<and> s_sync_interval_seconds s = Some 600"
    by (simp add: sample_config_def)
  ultimately show ?thesis
    using accepted_work_is_scheduled [OF sample_accepted, of "Inr :: string \<Rightarrow> string + string" "''vm''" "Interval 600"]
    by (auto simp: Let_def paced_as_def)
qed

end
