(* ===== verification/Generations.thy ===== *)
theory Generations
  imports Scheduler
begin

text \<open>
  Reloads over running tasks: \<open>start_supervisor\<close> of \<open>src/src/adapters/in/scheduler/mod.rs\<close> and the \<open>apply\<close> of
  \<open>src/src/application/config.rs\<close> it answers to, as a step relation. A generation of tasks is replaced, never cut: its
  runs in flight land later, and what they wrote for a source that is gone is pruned when the last has landed. Runs that
  no generation owns, a manual sync or a refresh, are the steps beside it.
\<close>

section \<open>State and steps\<close>

text \<open>
  The runs in flight are named by the source they gather: those of the generation at work, those of the
  generations draining, and those asked for by requests. \<open>gn_sources\<close> are the sources the generation's tasks were
  spawned for, and \<open>gn_notified\<close> says that a reload happened the supervisor has not seen yet.
\<close>

record generations =
  gn_app :: app_state
  gn_notified :: bool
  gn_sources :: "string list"
  gn_runs :: "string list"
  gn_draining :: "string list list"
  gn_requested :: "string list"

definition configured :: "app_state \<Rightarrow> string \<Rightarrow> bool" where
  "configured st i \<longleftrightarrow> fmlookup (rc_sources (as_config st)) i \<noteq> None"

text \<open>A run of a source touches its own entry only.\<close>

definition writes_only :: "string \<Rightarrow> mem_cache \<Rightarrow> mem_cache \<Rightarrow> bool" where
  "writes_only i c c' \<longleftrightarrow> (\<forall>j. j \<noteq> i \<longrightarrow> mc_get c' j = mc_get c j)"

definition landed :: "mem_cache \<Rightarrow> generations \<Rightarrow> generations" where
  "landed c s = s\<lparr>gn_app := (gn_app s)\<lparr>as_cache := c\<rparr>\<rparr>"

definition drop_at :: "nat \<Rightarrow> 'a list \<Rightarrow> 'a list" where
  "drop_at k xs = take k xs @ drop (Suc k) xs"

inductive gen_step :: "generations \<Rightarrow> generations \<Rightarrow> bool" where
  Start_run: "i \<in> set (gn_sources s) \<Longrightarrow> gen_step s (s\<lparr>gn_runs := i # gn_runs s\<rparr>)"
| Land_run: "i \<in> set (gn_runs s) \<Longrightarrow> writes_only i (as_cache (gn_app s)) c \<Longrightarrow>
    gen_step s ((landed c s)\<lparr>gn_runs := remove1 i (gn_runs s)\<rparr>)"
| Land_draining: "k < length (gn_draining s) \<Longrightarrow> i \<in> set (gn_draining s ! k) \<Longrightarrow> writes_only i (as_cache (gn_app s)) c \<Longrightarrow>
    gen_step s ((landed c s)\<lparr>gn_draining := (gn_draining s)[k := remove1 i (gn_draining s ! k)]\<rparr>)"
| Reload: "apply_config sst cfg (gn_app s) = (app, report) \<Longrightarrow> gen_step s (s\<lparr>gn_app := app, gn_notified := True\<rparr>)"
| Restart: "gn_notified s \<Longrightarrow>
    gen_step s (s\<lparr>gn_notified := False, gn_sources := fm_keys (rc_sources (as_config (gn_app s))), gn_runs := [],
                  gn_draining := gn_draining s @ [gn_runs s]\<rparr>)"
| Prune: "k < length (gn_draining s) \<Longrightarrow> gn_draining s ! k = [] \<Longrightarrow>
    gen_step s (s\<lparr>gn_app := fst (drop_unconfigured_entries (gn_app s)), gn_draining := drop_at k (gn_draining s)\<rparr>)"
| Ask_run: "configured (gn_app s) i \<Longrightarrow> gen_step s (s\<lparr>gn_requested := i # gn_requested s\<rparr>)"
| Land_asked: "i \<in> set (gn_requested s) \<Longrightarrow> configured (gn_app s) i \<Longrightarrow> writes_only i (as_cache (gn_app s)) c \<Longrightarrow>
    gen_step s ((landed c s)\<lparr>gn_requested := remove1 i (gn_requested s)\<rparr>)"

text \<open>What the code allows besides: a requested run landing after its source is gone.\<close>

inductive late_step :: "generations \<Rightarrow> generations \<Rightarrow> bool" where
  Land_late: "i \<in> set (gn_requested s) \<Longrightarrow> \<not> configured (gn_app s) i \<Longrightarrow> writes_only i (as_cache (gn_app s)) c \<Longrightarrow>
    late_step s ((landed c s)\<lparr>gn_requested := remove1 i (gn_requested s)\<rparr>)"

text \<open>The first generation of a process, over a cache restored and pruned.\<close>

definition gen_boot :: "app_state \<Rightarrow> generations" where
  "gen_boot st =
     \<lparr>gn_app = fst (drop_unconfigured_entries st), gn_notified = False,
      gn_sources = fm_keys (rc_sources (as_config st)), gn_runs = [], gn_draining = [], gn_requested = []\<rparr>"

definition no_orphans :: "app_state \<Rightarrow> bool" where
  "no_orphans st \<longleftrightarrow> (\<forall>i. mc_get (as_cache st) i \<noteq> None \<longrightarrow> configured st i)"

definition settled :: "generations \<Rightarrow> bool" where
  "settled s \<longleftrightarrow> \<not> gn_notified s \<and> gn_draining s = []"

section \<open>What stays in the cache\<close>

lemma pruned_clean: "no_orphans (fst (drop_unconfigured_entries st))"
  by (auto simp: no_orphans_def configured_def drop_unconfigured_get split: if_splits)

lemma configured_pruned [simp]: "configured (fst (drop_unconfigured_entries st)) = configured st"
  by (simp add: configured_def fun_eq_iff)

lemma landed_fields [simp]:
  "gn_notified (landed c s) = gn_notified s" "gn_sources (landed c s) = gn_sources s" "gn_runs (landed c s) = gn_runs s"
  "gn_draining (landed c s) = gn_draining s" "as_config (gn_app (landed c s)) = as_config (gn_app s)"
  "as_cache (gn_app (landed c s)) = c" "configured (gn_app (landed c s)) = configured (gn_app s)"
  by (simp_all add: landed_def configured_def fun_eq_iff)

lemma landed_clean:
  "no_orphans (gn_app s) \<Longrightarrow> configured (gn_app s) i \<Longrightarrow> writes_only i (as_cache (gn_app s)) c \<Longrightarrow> no_orphans (gn_app (landed c s))"
  unfolding no_orphans_def writes_only_def by (auto; metis option.distinct(1))

definition gens_ok :: "generations \<Rightarrow> bool" where
  "gens_ok s \<longleftrightarrow>
     (\<not> gn_notified s \<longrightarrow> (\<forall>i \<in> set (gn_sources s) \<union> set (gn_runs s). configured (gn_app s) i))
     \<and> (settled s \<longrightarrow> no_orphans (gn_app s))"

lemma gens_step: "gen_step s s' \<Longrightarrow> gens_ok s \<Longrightarrow> gens_ok s'"
proof (induction rule: gen_step.induct)
  case (Land_run i s c)
  then show ?case
    using landed_clean [of s i c] by (auto simp: gens_ok_def settled_def dest: set_remove1_subset [THEN subsetD])
next
  case (Land_draining k s i c)
  then show ?case by (auto simp: gens_ok_def settled_def)
next
  case (Restart s)
  then show ?case by (auto simp: gens_ok_def settled_def configured_def fmlookup_dom'_iff)
next
  case (Land_asked i s c)
  then show ?case using landed_clean [of s i c] by (auto simp: gens_ok_def settled_def)
qed (auto simp: gens_ok_def settled_def pruned_clean)

lemma gen_boot_ok: "gens_ok (gen_boot st)"
  by (auto simp: gens_ok_def gen_boot_def pruned_clean configured_def fmlookup_dom'_iff)

lemma gens_reach_ok: "gen_step\<^sup>*\<^sup>* (gen_boot st) s \<Longrightarrow> gens_ok s"
  by (induction rule: rtranclp_induct) (auto simp: gen_boot_ok gens_step)

text \<open>Every run of a draining generation lands, and then it is pruned: a measure that only goes down.\<close>

lemma drain_one:
  assumes "gn_draining s \<noteq> []"
  shows "\<exists>s'. gen_step s s' \<and> gn_notified s' = gn_notified s
     \<and> length (concat (gn_draining s')) + length (gn_draining s') < length (concat (gn_draining s)) + length (gn_draining s)"
proof -
  obtain runs rest where d: "gn_draining s = runs # rest" using assms by (cases "gn_draining s") auto
  show ?thesis
  proof (cases runs)
    case Nil
    let ?t = "s\<lparr>gn_app := fst (drop_unconfigured_entries (gn_app s)), gn_draining := rest\<rparr>"
    have "gen_step s ?t" using Prune [of 0 s] d Nil by (simp add: drop_at_def)
    then show ?thesis using d by (intro exI [of _ ?t]) auto
  next
    case (Cons i more)
    let ?t = "(landed (as_cache (gn_app s)) s)\<lparr>gn_draining := more # rest\<rparr>"
    have "gen_step s ?t"
      using Land_draining [of 0 s i "as_cache (gn_app s)"] d Cons by (simp add: writes_only_def)
    then show ?thesis using d Cons by (intro exI [of _ ?t]) auto
  qed
qed

lemma drains:
  "\<exists>s'. gen_step\<^sup>*\<^sup>* s s' \<and> gn_notified s' = gn_notified s \<and> gn_draining s' = []"
proof (induction "length (concat (gn_draining s)) + length (gn_draining s)" arbitrary: s rule: less_induct)
  case less
  show ?case
  proof (cases "gn_draining s = []")
    case False
    from drain_one [OF this] less show ?thesis by (metis converse_rtranclp_into_rtranclp)
  qed auto
qed




text \<open>
  A synced source, a reload, and the manual sync of it that was in flight: the comment of \<open>apply\<close> has the scheduler prune
  what a sync of a removed source writes back, but only the runs of its own generations are waited for. The state
  is settled and the entry stays until the next reload.
\<close>

lemma orphan_after_reload:
  assumes "configured st i" and "apply_config sst cfg (fst (drop_unconfigured_entries st)) = (app, report)" and "\<not> configured app i"
  shows "\<exists>s1 s2. gen_step\<^sup>*\<^sup>* (gen_boot st) s1 \<and> late_step s1 s2 \<and> settled s1 \<and> settled s2
    \<and> mc_get (as_cache (gn_app s2)) i = Some e \<and> \<not> configured (gn_app s2) i"
proof -
  let ?b = "gen_boot st"
  let ?a = "?b\<lparr>gn_requested := [i]\<rparr>"
  let ?r = "?a\<lparr>gn_app := app, gn_notified := True\<rparr>"
  have "gen_step ?b ?a" using Ask_run [of ?b i] assms(1) by (simp add: gen_boot_def)
  moreover have "gen_step ?a ?r" using Reload [of sst cfg ?a app report] assms(2) by (simp add: gen_boot_def)
  moreover obtain s1 where "gen_step\<^sup>*\<^sup>* ?r s1" "settled s1" "gn_requested s1 = [i]" "configured (gn_app s1) = configured app"
  proof -
    let ?n = "?r\<lparr>gn_notified := False, gn_sources := fm_keys (rc_sources (as_config app)), gn_runs := [], gn_draining := [[]]\<rparr>"
    let ?q = "?n\<lparr>gn_app := fst (drop_unconfigured_entries app), gn_draining := []\<rparr>"
    have "gen_step ?r ?n" using Restart [of ?r] by (simp add: gen_boot_def)
    moreover have "gen_step ?n ?q" using Prune [of 0 ?n] by (simp add: drop_at_def)
    ultimately have "gen_step\<^sup>*\<^sup>* ?r ?q" by (meson converse_rtranclp_into_rtranclp rtranclp.rtrancl_refl)
    then show thesis by (rule that) (simp_all add: settled_def)
  qed
  moreover have "late_step s1 ((landed (mc_set i e (as_cache (gn_app s1))) s1)\<lparr>gn_requested := []\<rparr>)"
    if "gn_requested s1 = [i]" "configured (gn_app s1) = configured app" for s1
    using Land_late [of i s1 "mc_set i e (as_cache (gn_app s1))"] that assms(3) by (simp add: writes_only_def mc_defs)
  ultimately show ?thesis
    by (intro exI [of _ s1] exI [of _ "(landed (mc_set i e (as_cache (gn_app s1))) s1)\<lparr>gn_requested := []\<rparr>"] conjI)
       (auto simp: settled_def mc_defs assms(3) intro: converse_rtranclp_into_rtranclp)
qed

end
