(* ===== verification/Yaml.thy ===== *)
theory Yaml
  imports Var_Path
begin

text \<open>
  The reader of YAML whose shape is not known in advance: \<open>to_json\<close> and \<open>to_text_json\<close> of
  \<open>src/src/domain/yaml.rs\<close>. The events of a document are the parser's, a parameter, as is the text serde writes for
  a finite float. The lemmas say that what a tree is written as is read back, that a plain scalar is resolved one way,
  and that aliases cannot make a document larger than a bound that its events set.
\<close>

section \<open>Events\<close>

datatype scalar_style = Plain | Single_quoted | Double_quoted | Literal | Folded

record yaml_tag =
  tg_handle :: string
  tg_suffix :: string

datatype event =
    Stream_start
  | Stream_end
  | Document_start
  | Document_end
  | Alias nat
  | Scalar string scalar_style nat "yaml_tag option"
  | Sequence_start nat
  | Sequence_end
  | Mapping_start nat
  | Mapping_end
  | Other_event

datatype yaml_error =
    Parser_error string
  | Unexpected_end
  | Several_documents
  | Outside_document
  | Too_deep
  | Unknown_anchor
  | Too_many_nodes
  | Vault_value
  | Keys_must_be_scalars
  | Duplicate_key string
  | Unexpected_event
  | Out_of_fuel

definition MAX_DEPTH :: nat where "MAX_DEPTH = 128"
definition MIN_ALIAS_BUDGET :: nat where "MIN_ALIAS_BUDGET = 1000000"

definition CORE_TAG :: string where "CORE_TAG = ''tag:yaml.org,2002:''"

section \<open>Scalars\<close>

definition is_vault :: "yaml_tag \<Rightarrow> bool" where
  "is_vault t \<longleftrightarrow> tg_handle t \<noteq> CORE_TAG \<and> tg_suffix t = ''vault''"

definition ascii_digit :: "char \<Rightarrow> bool" where
  "ascii_digit c \<longleftrightarrow> 48 \<le> (of_char c :: nat) \<and> (of_char c :: nat) \<le> 57"

definition strip_sign :: "string \<Rightarrow> string" where
  "strip_sign t = (case t of c # cs \<Rightarrow> if c = CHR ''-'' \<or> c = CHR ''+'' then cs else t | [] \<Rightarrow> t)"

definition digits_but_not_number :: "string \<Rightarrow> bool" where
  "digits_but_not_number t =
     (let digits = strip_sign t
      in 1 < length digits \<and> starts_with digits ''0'' \<and> list_all ascii_digit (drop 1 digits))"

text \<open>\<open>char::to_digit\<close> and \<open>u64::from_str_radix\<close> on a text without a sign.\<close>

definition digit_value :: "nat \<Rightarrow> char \<Rightarrow> nat option" where
  "digit_value radix c =
     (let n = of_char c :: nat;
          d = (if 48 \<le> n \<and> n \<le> 57 then Some (n - 48)
               else if 97 \<le> n \<and> n \<le> 122 then Some (n - 87)
               else if 65 \<le> n \<and> n \<le> 90 then Some (n - 55) else None)
      in case d of None \<Rightarrow> None | Some d \<Rightarrow> if d < radix then Some d else None)"

fun radix_value :: "nat \<Rightarrow> string \<Rightarrow> nat \<Rightarrow> nat option" where
  "radix_value radix [] n = Some n"
| "radix_value radix (c # cs) n =
     (case digit_value radix c of
        None \<Rightarrow> None
      | Some d \<Rightarrow> (let n = n * radix + d in if n < 2 ^ 64 then radix_value radix cs n else None))"

definition from_str_radix :: "nat \<Rightarrow> string \<Rightarrow> nat option" where
  "from_str_radix radix t = (if t = [] then None else radix_value radix t 0)"

definition signed :: "string \<Rightarrow> bool" where
  "signed t \<longleftrightarrow> starts_with t ''+'' \<or> starts_with t ''-''"

text \<open>The number an integer scalar is, as serde writes it.\<close>

definition yaml_int :: "string \<Rightarrow> string option" where
  "yaml_int t =
     (let negative = starts_with t ''-'';
          unsigned' = (if negative \<or> starts_with t ''+'' then drop 1 t else t)
      in if signed unsigned' then None
         else
           (let pair = (if starts_with unsigned' ''0x'' then Some (16, drop 2 unsigned')
                        else if starts_with unsigned' ''0o'' then Some (8, drop 2 unsigned')
                        else if starts_with unsigned' ''0b'' then Some (2, drop 2 unsigned')
                        else if digits_but_not_number t then None
                        else Some (10 :: nat, unsigned'))
            in case pair of
                 None \<Rightarrow> None
               | Some (radix, digits) \<Rightarrow>
                   if signed digits then None
                   else (case from_str_radix radix digits of
                           None \<Rightarrow> None
                         | Some magnitude \<Rightarrow>
                             if \<not> negative then Some (show_nat magnitude)
                             else if 2 ^ 63 < magnitude then None
                             else if magnitude = 0 then Some ''0''
                             else Some (''-'' @ show_nat magnitude))))"

datatype float_value = Finite string | Not_finite

text \<open>\<open>parse_f64\<close> is the standard library's reading of a float: the text of a finite one, or none.\<close>

definition yaml_float :: "(string \<Rightarrow> string option) \<Rightarrow> string \<Rightarrow> float_value option" where
  "yaml_float parse_f64 t =
     (let unsigned' = (if starts_with t ''+'' then drop 1 t else t)
      in if signed unsigned' \<and> starts_with t ''+'' then None
         else if unsigned' \<in> set [''.inf'', ''.Inf'', ''.INF'', ''-.inf'', ''-.Inf'', ''-.INF'', ''.nan'', ''.NaN'', ''.NAN'']
         then Some Not_finite
         else map_option Finite (parse_f64 unsigned'))"

definition scalar :: "(string \<Rightarrow> string option) \<Rightarrow> string \<Rightarrow> scalar_style \<Rightarrow> yaml_tag option \<Rightarrow> json" where
  "scalar parse_f64 t style tag =
     (if (case tag of None \<Rightarrow> False | Some g \<Rightarrow> tg_handle g = CORE_TAG \<and> tg_suffix g = ''str'') then JStr t
      else if style \<noteq> Plain then JStr t
      else if t \<in> set ['''', ''~'', ''null'', ''Null'', ''NULL''] then JNull
      else if t \<in> set [''true'', ''True'', ''TRUE''] then JBool True
      else if t \<in> set [''false'', ''False'', ''FALSE''] then JBool False
      else
        (case yaml_int t of
           Some n \<Rightarrow> JNum n
         | None \<Rightarrow>
             (if digits_but_not_number t then JStr t
              else (case yaml_float parse_f64 t of
                      Some (Finite n) \<Rightarrow> JNum n
                    | Some Not_finite \<Rightarrow> JNull
                    | None \<Rightarrow> JStr t))))"

section \<open>The reader\<close>

record reader =
  rd_input :: "(string + event) list"
  rd_anchors :: "(nat, json \<times> nat) fmap"
  rd_events :: nat
  rd_copied :: nat

record reader_mode =
  md_f64 :: "string \<Rightarrow> string option"
  md_verbatim :: bool

definition next_event :: "reader \<Rightarrow> yaml_error + event \<times> reader" where
  "next_event r =
     (let r = r\<lparr>rd_events := rd_events r + 1\<rparr>
      in case rd_input r of
           [] \<Rightarrow> Inl Unexpected_end
         | Inl e # rest \<Rightarrow> Inl (Parser_error e)
         | Inr ev # rest \<Rightarrow> Inr (ev, r\<lparr>rd_input := rest\<rparr>))"

definition anchored :: "nat \<Rightarrow> json \<Rightarrow> nat \<Rightarrow> reader \<Rightarrow> reader" where
  "anchored anchor v sz r = (if anchor \<noteq> 0 then r\<lparr>rd_anchors := fmupd anchor (v, sz) (rd_anchors r)\<rparr> else r)"

text \<open>The text serde writes for a scalar, which an aliased mapping key takes.\<close>

fun key_text :: "json \<Rightarrow> string option" where
  "key_text (JStr s) = Some s"
| "key_text JNull = Some ''null''"
| "key_text (JBool b) = Some (if b then ''true'' else ''false'')"
| "key_text (JNum n) = Some n"
| "key_text (JArr vs) = None"
| "key_text (JObj m) = None"

definition read_scalar :: "reader_mode \<Rightarrow> string \<Rightarrow> scalar_style \<Rightarrow> yaml_tag option \<Rightarrow> json" where
  "read_scalar md t style tag =
     (case scalar (md_f64 md) t style tag of
        JNum n \<Rightarrow> if md_verbatim md then JStr t else JNum n
      | JBool b \<Rightarrow> if md_verbatim md then JStr t else JBool b
      | v \<Rightarrow> v)"

fun node :: "nat \<Rightarrow> reader_mode \<Rightarrow> event \<Rightarrow> nat \<Rightarrow> reader \<Rightarrow> yaml_error + (json \<times> nat) \<times> reader"
  and items :: "nat \<Rightarrow> reader_mode \<Rightarrow> nat \<Rightarrow> json list \<Rightarrow> nat \<Rightarrow> reader \<Rightarrow> yaml_error + (json list \<times> nat) \<times> reader"
  and entries :: "nat \<Rightarrow> reader_mode \<Rightarrow> nat \<Rightarrow> (string, json) fmap \<Rightarrow> nat \<Rightarrow> reader
                    \<Rightarrow> yaml_error + ((string, json) fmap \<times> nat) \<times> reader" where
  "node 0 md ev depth r = Inl Out_of_fuel"
| "node (Suc n) md ev depth r =
     (if MAX_DEPTH < depth then Inl Too_deep
      else
        (case ev of
           Alias i \<Rightarrow>
             (case fmlookup (rd_anchors r) i of
                None \<Rightarrow> Inl Unknown_anchor
              | Some (v, sz) \<Rightarrow>
                  (let r = r\<lparr>rd_copied := rd_copied r + sz\<rparr>
                   in if max MIN_ALIAS_BUDGET (rd_events r * 100) < rd_copied r then Inl Too_many_nodes
                      else Inr ((v, sz), r)))
         | Scalar t style anchor tag \<Rightarrow>
             (if (case tag of None \<Rightarrow> False | Some g \<Rightarrow> is_vault g) then Inl Vault_value
              else (let v = read_scalar md t style tag in Inr ((v, 1), anchored anchor v 1 r)))
         | Sequence_start anchor \<Rightarrow>
             (case items n md depth [] 1 r of
                Inl e \<Rightarrow> Inl e
              | Inr ((vs, sz), r) \<Rightarrow> Inr ((JArr vs, sz), anchored anchor (JArr vs) sz r))
         | Mapping_start anchor \<Rightarrow>
             (case entries n md depth fmempty 1 r of
                Inl e \<Rightarrow> Inl e
              | Inr ((m, sz), r) \<Rightarrow> Inr ((JObj m, sz), anchored anchor (JObj m) sz r))
         | _ \<Rightarrow> Inl Unexpected_event))"
| "items 0 md depth vs sz r = Inl Out_of_fuel"
| "items (Suc n) md depth vs sz r =
     (case next_event r of
        Inl e \<Rightarrow> Inl e
      | Inr (ev, r) \<Rightarrow>
          if ev = Sequence_end then Inr ((vs, sz), r)
          else
            (case node n md ev (depth + 1) r of
               Inl e \<Rightarrow> Inl e
             | Inr ((v, k), r) \<Rightarrow> items n md depth (vs @ [v]) (sz + k) r))"
| "entries 0 md depth m sz r = Inl Out_of_fuel"
| "entries (Suc n) md depth m sz r =
     (case next_event r of
        Inl e \<Rightarrow> Inl e
      | Inr (ev, r) \<Rightarrow>
          if ev = Mapping_end then Inr ((m, sz), r)
          else
            (case (case ev of
                     Scalar t style anchor tag \<Rightarrow> Some t
                   | Alias i \<Rightarrow> (case fmlookup (rd_anchors r) i of None \<Rightarrow> None | Some (v, k) \<Rightarrow> key_text v)
                   | _ \<Rightarrow> None) of
               None \<Rightarrow> Inl Keys_must_be_scalars
             | Some key \<Rightarrow>
                 (case next_event r of
                    Inl e \<Rightarrow> Inl e
                  | Inr (ev, r) \<Rightarrow>
                      (case node n md ev (depth + 1) r of
                         Inl e \<Rightarrow> Inl e
                       | Inr ((v, k), r) \<Rightarrow>
                           if fmlookup m key \<noteq> None then Inl (Duplicate_key key)
                           else entries n md depth (fmupd key v m) (sz + k) r))))"

fun stream :: "nat \<Rightarrow> reader_mode \<Rightarrow> json \<Rightarrow> nat \<Rightarrow> reader \<Rightarrow> yaml_error + json" where
  "stream 0 md v documents r = Inl Out_of_fuel"
| "stream (Suc n) md v documents r =
     (case next_event r of
        Inl e \<Rightarrow> Inl e
      | Inr (ev, r) \<Rightarrow>
          (case ev of
             Stream_start \<Rightarrow> stream n md v documents r
           | Stream_end \<Rightarrow> Inr v
           | Document_start \<Rightarrow>
               (if 1 < documents + 1 then Inl Several_documents
                else
                  (case next_event r of
                     Inl e \<Rightarrow> Inl e
                   | Inr (ev, r) \<Rightarrow>
                       (case node n md ev 0 r of
                          Inl e \<Rightarrow> Inl e
                        | Inr ((v, k), r) \<Rightarrow> stream n md v (documents + 1) r)))
           | Document_end \<Rightarrow> stream n md v documents r
           | _ \<Rightarrow> Inl Outside_document))"

text \<open>Every step of the reader takes an event or descends below one, so twice their number is fuel enough.\<close>

definition read :: "reader_mode \<Rightarrow> (string + event) list \<Rightarrow> yaml_error + json" where
  "read md evs =
     stream (2 * length evs + 3) md JNull 0 \<lparr>rd_input = evs, rd_anchors = fmempty, rd_events = 0, rd_copied = 0\<rparr>"

definition to_json :: "(string \<Rightarrow> string option) \<Rightarrow> (string \<Rightarrow> (string + event) list) \<Rightarrow> string \<Rightarrow> yaml_error + json" where
  "to_json parse_f64 events doc = read \<lparr>md_f64 = parse_f64, md_verbatim = False\<rparr> (events doc)"

definition to_text_json :: "(string \<Rightarrow> string option) \<Rightarrow> (string \<Rightarrow> (string + event) list) \<Rightarrow> string \<Rightarrow> yaml_error + json" where
  "to_text_json parse_f64 events doc = read \<lparr>md_f64 = parse_f64, md_verbatim = True\<rparr> (events doc)"


section \<open>The reader ends\<close>

lemma next_event_Inr:
  "next_event r = Inr (ev, r') \<longleftrightarrow>
     (\<exists>rest. rd_input r = Inr ev # rest \<and> r' = r\<lparr>rd_events := rd_events r + 1, rd_input := rest\<rparr>)"
  by (auto simp: next_event_def Let_def split: list.splits sum.splits)

lemma next_event_fuel [simp]: "next_event r \<noteq> Inl Out_of_fuel"
  by (auto simp: next_event_def Let_def split: list.splits sum.splits)

lemma anchored_fields [simp]:
  "rd_input (anchored a v k r) = rd_input r" "rd_events (anchored a v k r) = rd_events r"
  "rd_copied (anchored a v k r) = rd_copied r"
  by (simp_all add: anchored_def)

text \<open>What a successful call of each of the three leaves, given what their own calls leave.\<close>

lemma node_Inr:
  assumes "node (Suc n) md ev d r = Inr ((v, k), r')"
  obtains (Alias) i where "ev = Alias i" "fmlookup (rd_anchors r) i = Some (v, k)"
      "r' = r\<lparr>rd_copied := rd_copied r + k\<rparr>" "rd_copied r' \<le> max MIN_ALIAS_BUDGET (rd_events r * 100)"
    | (Scalar) t style a tag where "ev = Scalar t style a tag" "v = read_scalar md t style tag" "k = 1" "r' = anchored a v 1 r"
    | (Sequence) a vs r1 where "ev = Sequence_start a" "items n md d [] 1 r = Inr ((vs, k), r1)" "v = JArr vs" "r' = anchored a v k r1"
    | (Mapping) a m r1 where "ev = Mapping_start a" "entries n md d fmempty 1 r = Inr ((m, k), r1)" "v = JObj m" "r' = anchored a v k r1"
  using assms
  by (cases ev) (auto simp: Let_def split: if_splits option.splits sum.splits prod.splits)

lemma items_Inr:
  assumes "items (Suc n) md d vs sz r = Inr ((vs', sz'), r')"
  obtains (End) r1 where "next_event r = Inr (Sequence_end, r1)" "vs' = vs" "sz' = sz" "r' = r1"
    | (Item) ev r1 v k r2 where "next_event r = Inr (ev, r1)" "node n md ev (d + 1) r1 = Inr ((v, k), r2)"
        "items n md d (vs @ [v]) (sz + k) r2 = Inr ((vs', sz'), r')"
  using assms by (auto split: if_splits sum.splits prod.splits)

lemma entries_Inr:
  assumes "entries (Suc n) md d m sz r = Inr ((m', sz'), r')"
  obtains (End) r1 where "next_event r = Inr (Mapping_end, r1)" "m' = m" "sz' = sz" "r' = r1"
    | (Entry) kev r0 key ev r1 v k r2 where "next_event r = Inr (kev, r0)" "next_event r0 = Inr (ev, r1)"
        "node n md ev (d + 1) r1 = Inr ((v, k), r2)" "fmlookup m key = None"
        "entries n md d (fmupd key v m) (sz + k) r2 = Inr ((m', sz'), r')"
  using assms by (auto split: if_splits sum.splits prod.splits option.splits)

lemma reader_progress:
  "(\<forall>md ev d r x r'. node n md ev d r = Inr (x, r') \<longrightarrow> length (rd_input r') \<le> length (rd_input r))
   \<and> (\<forall>md d vs sz r x r'. items n md d vs sz r = Inr (x, r') \<longrightarrow> length (rd_input r') < length (rd_input r))
   \<and> (\<forall>md d m sz r x r'. entries n md d m sz r = Inr (x, r') \<longrightarrow> length (rd_input r') < length (rd_input r))"
proof (induction n)
  case (Suc n)
  then have I: "items n md d vs sz r = Inr (x, r') \<Longrightarrow> length (rd_input r') < length (rd_input r)"
    and E: "entries n md d m sz r = Inr (x', r') \<Longrightarrow> length (rd_input r') < length (rd_input r)"
    and N: "node n md ev d r = Inr (x'', r') \<Longrightarrow> length (rd_input r') \<le> length (rd_input r)" for md ev d r r' vs sz m x x' x''
    by blast+
  show ?case
  proof (intro conjI allI impI)
    fix md ev d r x r' assume "node (Suc n) md ev d r = Inr (x, r')"
    then show "length (rd_input r') \<le> length (rd_input r)"
      by (cases x, hypsubst) (erule node_Inr; auto dest: I E)
  next
    fix md d vs sz r x r' assume "items (Suc n) md d vs sz r = Inr (x, r')"
    then show "length (rd_input r') < length (rd_input r)"
      by (cases x, hypsubst) (erule items_Inr; force simp: next_event_Inr dest: I N)
  next
    fix md d m sz r x r' assume "entries (Suc n) md d m sz r = Inr (x, r')"
    then show "length (rd_input r') < length (rd_input r)"
      by (cases x, hypsubst) (erule entries_Inr; force simp: next_event_Inr dest: E N)
  qed
qed simp

lemmas node_progress = reader_progress [THEN conjunct1, rule_format]
lemmas items_progress = reader_progress [THEN conjunct2, THEN conjunct1, rule_format]
lemmas entries_progress = reader_progress [THEN conjunct2, THEN conjunct2, rule_format]


lemma fuel_enough:
  "(\<forall>md ev d r. 2 * length (rd_input r) + 2 \<le> n \<longrightarrow> node n md ev d r \<noteq> Inl Out_of_fuel)
   \<and> (\<forall>md d vs sz r. 2 * length (rd_input r) + 1 \<le> n \<longrightarrow> items n md d vs sz r \<noteq> Inl Out_of_fuel)
   \<and> (\<forall>md d m sz r. 2 * length (rd_input r) + 1 \<le> n \<longrightarrow> entries n md d m sz r \<noteq> Inl Out_of_fuel)"
proof (induction n)
  case (Suc n)
  then have N: "2 * length (rd_input r) + 2 \<le> n \<Longrightarrow> node n md ev d r \<noteq> Inl Out_of_fuel"
    and I: "2 * length (rd_input r) + 1 \<le> n \<Longrightarrow> items n md d vs sz r \<noteq> Inl Out_of_fuel"
    and E: "2 * length (rd_input r) + 1 \<le> n \<Longrightarrow> entries n md d m sz r \<noteq> Inl Out_of_fuel" for md ev d r vs sz m
    by blast+
  show ?case
  proof (intro conjI allI impI)
    fix md ev d r assume n: "2 * length (rd_input (r :: reader)) + 2 \<le> Suc n"
    have "items n md d [] 1 r \<noteq> Inl Out_of_fuel" "entries n md d fmempty 1 r \<noteq> Inl Out_of_fuel"
      using I E n by auto
    then show "node (Suc n) md ev d r \<noteq> Inl Out_of_fuel"
      by (cases ev) (auto simp: Let_def split: option.splits sum.splits)
  next
    fix md d vs sz r assume n: "2 * length (rd_input (r :: reader)) + 1 \<le> Suc n"
    show "items (Suc n) md d vs sz r \<noteq> Inl Out_of_fuel"
    proof (cases "next_event r")
      case (Inr er)
      then obtain ev r1 where e: "next_event r = Inr (ev, r1)" "length (rd_input r) = Suc (length (rd_input r1))"
        by (cases er) (auto simp: next_event_Inr)
      then have "node n md ev (d + 1) r1 \<noteq> Inl Out_of_fuel" using n by (intro N) auto
      moreover have "items n md d (vs @ [v]) (sz + k) r2 \<noteq> Inl Out_of_fuel" if "node n md ev (d + 1) r1 = Inr ((v, k), r2)" for v k r2
        using node_progress [OF that] e(2) n by (intro I) auto
      ultimately show ?thesis using e(1) by (auto split: sum.splits)
    next
      case (Inl e)
      then have "e \<noteq> Out_of_fuel" using next_event_fuel [of r] by auto
      with Inl show ?thesis by simp
    qed
  next
    fix md d m sz r assume n: "2 * length (rd_input (r :: reader)) + 1 \<le> Suc n"
    show "entries (Suc n) md d m sz r \<noteq> Inl Out_of_fuel"
    proof (cases "next_event r")
      case (Inr er)
      then obtain kev r0 where e: "next_event r = Inr (kev, r0)" "length (rd_input r) = Suc (length (rd_input r0))"
        by (cases er) (auto simp: next_event_Inr)
      have "node n md ev (d + 1) r1 \<noteq> Inl Out_of_fuel" if "next_event r0 = Inr (ev, r1)" for ev r1
        using that e(2) n by (intro N) (auto simp: next_event_Inr)
      moreover have "entries n md d m' sz' r2 \<noteq> Inl Out_of_fuel"
        if "next_event r0 = Inr (ev, r1)" "node n md ev (d + 1) r1 = Inr ((v, k), r2)" for ev r1 v k r2 m' sz'
        using that(1) node_progress [OF that(2)] e(2) n by (intro E) (auto simp: next_event_Inr)
      moreover have "next_event r0 \<noteq> Inl Out_of_fuel" by simp
      ultimately show ?thesis using e(1)
        by (cases "next_event r0") (auto split: sum.splits option.splits if_splits)
    next
      case (Inl e)
      then have "e \<noteq> Out_of_fuel" using next_event_fuel [of r] by auto
      with Inl show ?thesis by simp
    qed
  qed
qed simp

lemma node_fuel: "2 * length (rd_input r) + 2 \<le> n \<Longrightarrow> node n md ev d r \<noteq> Inl Out_of_fuel"
  using fuel_enough by blast

lemma stream_fuel: "2 * length (rd_input r) + 3 \<le> n \<Longrightarrow> stream n md v docs r \<noteq> Inl Out_of_fuel"
proof (induction n arbitrary: v docs r)
  case (Suc n)
  show ?case
  proof (cases "next_event r")
    case (Inr er)
    then obtain ev r0 where e: "next_event r = Inr (ev, r0)" "length (rd_input r) = Suc (length (rd_input r0))"
      by (cases er) (auto simp: next_event_Inr)
    have more: "stream n md v docs r0 \<noteq> Inl Out_of_fuel" for v docs using Suc e(2) by simp
    have "next_event r0 \<noteq> Inl Out_of_fuel" by simp
    moreover have "node n md ev' 0 r1 \<noteq> Inl Out_of_fuel" if "next_event r0 = Inr (ev', r1)" for ev' r1
      using that e(2) Suc.prems by (intro node_fuel) (auto simp: next_event_Inr)
    moreover have "stream n md v' docs' r2 \<noteq> Inl Out_of_fuel"
      if "next_event r0 = Inr (ev', r1)" "node n md ev' 0 r1 = Inr (x, r2)" for ev' r1 x r2 v' docs'
      using that(1) node_progress [OF that(2)] e(2) Suc by (auto simp: next_event_Inr)
    ultimately show ?thesis using e(1) more
      by (cases ev) (auto split: sum.splits)
  next
    case (Inl e)
    then have "e \<noteq> Out_of_fuel" using next_event_fuel [of r] by auto
    with Inl show ?thesis by simp
  qed
qed simp

section \<open>How large a document can become\<close>

text \<open>The nodes of a value.\<close>

definition fm_total :: "('k, nat) fmap \<Rightarrow> nat" where
  "fm_total m = (\<Sum>k \<in> fmdom' m. the (fmlookup m k))"

primrec nodes :: "json \<Rightarrow> nat" where
  "nodes JNull = 1"
| "nodes (JBool b) = 1"
| "nodes (JNum n) = 1"
| "nodes (JStr s) = 1"
| "nodes (JArr vs) = 1 + sum_list (map nodes vs)"
| "nodes (JObj m) = 1 + fm_total (fmmap nodes m)"

lemma fm_total_upd: "fmlookup m k = None \<Longrightarrow> fm_total (fmupd k v m) = fm_total m + v"
proof -
  assume a: "fmlookup m k = None"
  then have "k \<notin> fmdom' m" by (simp add: fmlookup_dom'_iff)
  moreover have "finite (fmdom' m)" by simp
  moreover have "(\<Sum>j \<in> fmdom' m. the (fmlookup (fmupd k v m) j)) = (\<Sum>j \<in> fmdom' m. the (fmlookup m j))"
    using \<open>k \<notin> fmdom' m\<close> by (intro sum.cong) auto
  ultimately show ?thesis by (simp add: fm_total_def)
qed

definition anchors_sized :: "reader \<Rightarrow> bool" where
  "anchors_sized r \<longleftrightarrow> (\<forall>i v k. fmlookup (rd_anchors r) i = Some (v, k) \<longrightarrow> k = nodes v)"

definition within_budget :: "reader \<Rightarrow> bool" where
  "within_budget r \<longleftrightarrow> rd_copied r \<le> max MIN_ALIAS_BUDGET (rd_events r * 100)"

definition cost :: "reader \<Rightarrow> nat" where
  "cost r = rd_events r + rd_copied r"


lemma read_scalar_nodes [simp]: "nodes (read_scalar md t style tag) = 1"
  by (auto simp: read_scalar_def scalar_def split: json.splits option.splits float_value.splits)

lemma anchored_sized: "anchors_sized r \<Longrightarrow> k = nodes v \<Longrightarrow> anchors_sized (anchored a v k r)"
  by (auto simp: anchors_sized_def anchored_def)

lemma next_event_keeps:
  assumes "next_event r = Inr (ev, r')"
  shows "anchors_sized r' = anchors_sized r" "within_budget r \<Longrightarrow> within_budget r'" "cost r' = cost r + 1"
    "rd_events r' = rd_events r + 1" "rd_events r' + length (rd_input r') = rd_events r + length (rd_input r)"
  using assms by (auto simp: next_event_Inr anchors_sized_def within_budget_def cost_def)

text \<open>
  The three keep the sizes of the anchors right and the copies within budget, their sizes are the nodes read, and a node
  more than the event it began with costs an event or a copy.
\<close>

definition reads :: "reader \<Rightarrow> reader \<Rightarrow> nat \<Rightarrow> bool" where
  "reads r r' paid \<longleftrightarrow> anchors_sized r' \<and> within_budget r' \<and> cost r + paid \<le> cost r'
     \<and> rd_events r' + length (rd_input r') \<le> rd_events r + length (rd_input r)"

lemma reader_sizes:
  "(\<forall>md ev d r v k r'. node n md ev d r = Inr ((v, k), r') \<longrightarrow> anchors_sized r \<longrightarrow> within_budget r \<longrightarrow>
      k = nodes v \<and> reads r r' (k - 1))
   \<and> (\<forall>md d vs sz r vs' k r'. items n md d vs sz r = Inr ((vs', k), r') \<longrightarrow> anchors_sized r \<longrightarrow> within_budget r \<longrightarrow>
      k + sum_list (map nodes vs) = sz + sum_list (map nodes vs') \<and> sz \<le> k \<and> reads r r' (k - sz))
   \<and> (\<forall>md d m sz r m' k r'. entries n md d m sz r = Inr ((m', k), r') \<longrightarrow> anchors_sized r \<longrightarrow> within_budget r \<longrightarrow>
      k + fm_total (fmmap nodes m) = sz + fm_total (fmmap nodes m') \<and> sz \<le> k \<and> reads r r' (k - sz))"
proof (induction n)
  case (Suc n)
  note N = Suc.IH [THEN conjunct1, rule_format]
    and I = Suc.IH [THEN conjunct2, THEN conjunct1, rule_format]
    and E = Suc.IH [THEN conjunct2, THEN conjunct2, rule_format]
  show ?case
  proof (intro conjI allI impI)
    fix md ev d r v k r' assume nd: "node (Suc n) md ev d r = Inr ((v, k), r')" and ok: "anchors_sized r" "within_budget r"
    show "k = nodes v" and "reads r r' (k - 1)"
      using nd
    proof (atomize (full), cases rule: node_Inr)
      case (Alias i)
      with ok show "k = nodes v \<and> reads r r' (k - 1)" by (auto simp: reads_def anchors_sized_def within_budget_def cost_def)
    next
      case (Scalar t style a tag)
      with ok show "k = nodes v \<and> reads r r' (k - 1)"
        by (auto simp: reads_def within_budget_def cost_def anchored_sized)
    next
      case (Sequence a vs r1)
      with I [OF Sequence(2) ok] show "k = nodes v \<and> reads r r' (k - 1)"
        by (auto simp: reads_def within_budget_def cost_def anchored_sized)
    next
      case (Mapping a m r1)
      with E [OF Mapping(2) ok] show "k = nodes v \<and> reads r r' (k - 1)"
        by (auto simp: reads_def within_budget_def cost_def anchored_sized fm_total_def)
    qed
  next
    fix md d vs sz r vs' k r' assume it: "items (Suc n) md d vs sz r = Inr ((vs', k), r')" and ok: "anchors_sized r" "within_budget r"
    have "k + sum_list (map nodes vs) = sz + sum_list (map nodes vs') \<and> sz \<le> k \<and> reads r r' (k - sz)"
      using it
    proof (cases rule: items_Inr)
      case (End r1)
      with ok next_event_keeps [OF End(1)] show ?thesis by (simp add: reads_def)
    next
      case (Item ev r1 v j r2)
      note k = next_event_keeps [OF Item(1)]
      have 1: "j = nodes v" "reads r1 r2 (j - 1)" using N [OF Item(2)] k ok by auto
      have 2: "k + sum_list (map nodes (vs @ [v])) = (sz + j) + sum_list (map nodes vs')" "sz + j \<le> k" "reads r2 r' (k - (sz + j))"
        using I [OF Item(3)] 1(2) by (auto simp: reads_def)
      from 1 2 k ok show ?thesis by (auto simp: reads_def)
    qed
    then show "k + sum_list (map nodes vs) = sz + sum_list (map nodes vs')" "sz \<le> k" "reads r r' (k - sz)" by auto
  next
    fix md d m sz r m' k r' assume en: "entries (Suc n) md d m sz r = Inr ((m', k), r')" and ok: "anchors_sized r" "within_budget r"
    have "k + fm_total (fmmap nodes m) = sz + fm_total (fmmap nodes m') \<and> sz \<le> k \<and> reads r r' (k - sz)"
      using en
    proof (cases rule: entries_Inr)
      case (End r1)
      with ok next_event_keeps [OF End(1)] show ?thesis by (simp add: reads_def)
    next
      case (Entry kev r0 key ev r1 v j r2)
      note k0 = next_event_keeps [OF Entry(1)] and k1 = next_event_keeps [OF Entry(2)]
      have 1: "j = nodes v" "reads r1 r2 (j - 1)" using N [OF Entry(3)] k0 k1 ok by auto
      have 2: "k + fm_total (fmmap nodes (fmupd key v m)) = (sz + j) + fm_total (fmmap nodes m')" "sz + j \<le> k" "reads r2 r' (k - (sz + j))"
        using E [OF Entry(5)] 1(2) by (auto simp: reads_def)
      have "fm_total (fmmap nodes (fmupd key v m)) = fm_total (fmmap nodes m) + nodes v"
        using Entry(4) fm_total_upd [of "fmmap nodes m" key "nodes v"] by (simp add: fmmap_fmupd)
      with 1 2 k0 k1 ok show ?thesis by (auto simp: reads_def)
    qed
    then show "k + fm_total (fmmap nodes m) = sz + fm_total (fmmap nodes m')" "sz \<le> k" "reads r r' (k - sz)" by auto
  qed
qed simp


lemma stream_sizes:
  "stream n md v docs r = Inr v' \<Longrightarrow> anchors_sized r \<Longrightarrow> within_budget r \<Longrightarrow> nodes v \<le> max 1 (cost r) \<Longrightarrow>
     \<exists>r'. within_budget r' \<and> nodes v' \<le> max 1 (cost r')
        \<and> rd_events r' + length (rd_input r') \<le> rd_events r + length (rd_input r)"
proof (induction n arbitrary: v docs r)
  case (Suc n)
  obtain ev r0 where e: "next_event r = Inr (ev, r0)"
    using Suc.prems(1) by (cases "next_event r") auto
  note k0 = next_event_keeps [OF e]
  have r0: "anchors_sized r0" "within_budget r0" "nodes v \<le> max 1 (cost r0)"
    "rd_events r0 + length (rd_input r0) = rd_events r + length (rd_input r)"
    using k0 Suc.prems by auto
  consider (go) docs' where "stream n md v docs' r0 = Inr v'" | (done_) "v' = v"
    | (doc) ev1 r1 v1 k r2 where "next_event r0 = Inr (ev1, r1)" "node n md ev1 0 r1 = Inr ((v1, k), r2)"
        "stream n md v1 (docs + 1) r2 = Inr v'"
    using Suc.prems(1) e by (cases ev) (auto split: sum.splits prod.splits if_splits)
  then show ?case
  proof cases
    case go
    from Suc.IH [OF go r0(1-3)] r0(4) show ?thesis by auto
  next
    case done_
    with r0 show ?thesis by (intro exI [of _ r0]) simp
  next
    case doc
    note k1 = next_event_keeps [OF doc(1)]
    have r2: "k = nodes v1" "reads r1 r2 (k - 1)"
      using reader_sizes [THEN conjunct1, rule_format, OF doc(2)] k1 r0 by auto
    then have "nodes v1 \<le> max 1 (cost r2)" using k1 by (auto simp: reads_def)
    from Suc.IH [OF doc(3) _ _ this] r2 r0(4) k1 show ?thesis by (force simp: reads_def)
  qed
qed simp

text \<open>
  C14. The reader is total and no document is a bomb: it always ends with a value or an error of its own, never for
  want of fuel, and a value it accepts has at most as many nodes as the document has events, plus a million
  or a hundred for each event, however its aliases are nested.
\<close>

theorem yaml_bounded:
  "read md evs \<noteq> Inl Out_of_fuel
   \<and> (read md evs = Inr v \<longrightarrow> nodes v \<le> length evs + max 1000000 (100 * length evs))"
proof (intro conjI impI)
  let ?r = "\<lparr>rd_input = evs, rd_anchors = fmempty, rd_events = 0, rd_copied = 0\<rparr>"
  show "read md evs \<noteq> Inl Out_of_fuel" unfolding read_def by (rule stream_fuel) simp
  assume "read md evs = Inr v"
  moreover have "anchors_sized ?r" "within_budget ?r" by (simp_all add: anchors_sized_def within_budget_def)
  ultimately obtain r' where r': "within_budget r'" "nodes v \<le> max 1 (cost r')" "rd_events r' \<le> length evs"
    using stream_sizes [of "2 * length evs + 3" md JNull 0 ?r v] by (auto simp: read_def)
  then have "rd_copied r' \<le> max 1000000 (length evs * 100)" by (auto simp: within_budget_def MIN_ALIAS_BUDGET_def)
  with r'(2,3) show "nodes v \<le> length evs + max 1000000 (100 * length evs)" by (simp add: cost_def mult.commute)
qed

section \<open>Reading a tree back\<close>

text \<open>
  The events of a tree written without anchors, strings quoted: a list in its order, a mapping in the order of its keys.
\<close>

primrec events_of :: "json \<Rightarrow> event list" where
  "events_of JNull = [Scalar ''null'' Plain 0 None]"
| "events_of (JBool b) = [Scalar (if b then ''true'' else ''false'') Plain 0 None]"
| "events_of (JNum n) = [Scalar n Plain 0 None]"
| "events_of (JStr s) = [Scalar s Double_quoted 0 None]"
| "events_of (JArr vs) = Sequence_start 0 # concat (map events_of vs) @ [Sequence_end]"
| "events_of (JObj m) =
     Mapping_start 0 #
       (let es = fmmap events_of m
        in concat (map (\<lambda>k. Scalar k Double_quoted 0 None # the (fmlookup es k)) (fm_keys es)))
       @ [Mapping_end]"

primrec json_depth :: "json \<Rightarrow> nat" where
  "json_depth JNull = 0"
| "json_depth (JBool b) = 0"
| "json_depth (JNum n) = 0"
| "json_depth (JStr s) = 0"
| "json_depth (JArr vs) = (if vs = [] then 0 else 1 + Max (set (map json_depth vs)))"
| "json_depth (JObj m) = (if m = fmempty then 0 else 1 + Max (fmran' (fmmap json_depth m)))"

text \<open>Every number of the tree is a text a plain scalar resolves to itself.\<close>

primrec numbers_read :: "(string \<Rightarrow> string option) \<Rightarrow> json \<Rightarrow> bool" where
  "numbers_read f JNull = True"
| "numbers_read f (JBool b) = True"
| "numbers_read f (JNum n) = (scalar f n Plain None = JNum n)"
| "numbers_read f (JStr s) = True"
| "numbers_read f (JArr vs) = list_all id (map (numbers_read f) vs)"
| "numbers_read f (JObj m) = fmpred (\<lambda>k b. b) (fmmap (numbers_read f) m)"

definition json_document :: "json \<Rightarrow> (string + event) list" where
  "json_document v = map Inr ([Stream_start, Document_start] @ events_of v @ [Document_end, Stream_end])"

lemma reader_mono:
  "(\<forall>md ev d r x. node n md ev d r = Inr x \<longrightarrow> node (Suc n) md ev d r = Inr x)
   \<and> (\<forall>md d vs sz r x. items n md d vs sz r = Inr x \<longrightarrow> items (Suc n) md d vs sz r = Inr x)
   \<and> (\<forall>md d m sz r x. entries n md d m sz r = Inr x \<longrightarrow> entries (Suc n) md d m sz r = Inr x)"
proof (induction n)
  case (Suc n)
  note N = Suc.IH [THEN conjunct1, rule_format]
    and I = Suc.IH [THEN conjunct2, THEN conjunct1, rule_format]
    and E = Suc.IH [THEN conjunct2, THEN conjunct2, rule_format]
  show ?case
  proof (intro conjI allI impI)
    fix md ev d r x assume "node (Suc n) md ev d r = Inr x"
    then show "node (Suc (Suc n)) md ev d r = Inr x"
      by (subst node.simps(2), subst (asm) node.simps(2))
         (auto simp del: node.simps items.simps entries.simps simp: I E split: if_splits event.splits sum.splits prod.splits)
  next
    fix md d vs sz r x assume "items (Suc n) md d vs sz r = Inr x"
    then show "items (Suc (Suc n)) md d vs sz r = Inr x"
      by (subst items.simps(2), subst (asm) items.simps(2))
         (auto simp del: node.simps items.simps entries.simps simp: N I split: if_splits sum.splits prod.splits)
  next
    fix md d m sz r x assume "entries (Suc n) md d m sz r = Inr x"
    then show "entries (Suc (Suc n)) md d m sz r = Inr x"
      by (subst entries.simps(2), subst (asm) entries.simps(2))
         (auto simp del: node.simps items.simps entries.simps simp: N E split: if_splits sum.splits prod.splits option.splits)
  qed
qed simp


lemma node_more:
  assumes "node n md ev d r = Inr x" and "n \<le> m"
  shows "node m md ev d r = Inr x"
  using assms(2,1) by (induction rule: dec_induct) (use reader_mono in blast)+

lemma items_more:
  assumes "items n md d vs sz r = Inr x" and "n \<le> m"
  shows "items m md d vs sz r = Inr x"
  using assms(2,1) by (induction rule: dec_induct) (use reader_mono in blast)+

lemma entries_more:
  assumes "entries n md d m sz r = Inr x" and "n \<le> k"
  shows "entries k md d m sz r = Inr x"
  using assms(2,1) by (induction rule: dec_induct) (use reader_mono in blast)+

text \<open>\<open>reads_back\<close>: from the events of \<open>v\<close>, whatever follows, the reader takes just those and returns \<open>v\<close>.\<close>

definition after :: "nat \<Rightarrow> (string + event) list \<Rightarrow> reader \<Rightarrow> reader" where
  "after k rest r = r\<lparr>rd_input := rest, rd_events := rd_events r + k\<rparr>"

lemma after_fields [simp]:
  "rd_input (after k rest r) = rest" "after j rest' (after k rest r) = after (k + j) rest' r"
  by (simp_all add: after_def)

lemma next_after: "rd_input r = Inr ev # rest \<Longrightarrow> next_event r = Inr (ev, after 1 rest r)"
  by (simp add: next_event_Inr after_def)

definition reads_back :: "reader_mode \<Rightarrow> nat \<Rightarrow> json \<Rightarrow> bool" where
  "reads_back md d v \<longleftrightarrow>
     (\<exists>ev es. events_of v = ev # es \<and> ev \<noteq> Sequence_end \<and> ev \<noteq> Mapping_end
        \<and> (\<exists>n \<le> 2 * length es + 2. \<forall>r rest. rd_input r = map Inr es @ rest \<longrightarrow>
             node n md ev d r = Inr ((v, nodes v), after (length es) rest r)))"

lemma items_read_back:
  assumes "\<forall>v \<in> set vs. reads_back md (d + 1) v"
  shows "\<exists>n \<le> 2 * length (concat (map events_of vs)) + 3. \<forall>r rest acc sz. rd_input r = map Inr (concat (map events_of vs) @ [Sequence_end]) @ rest \<longrightarrow>
    items n md d acc sz r = Inr ((acc @ vs, sz + sum_list (map nodes vs)), after (length (concat (map events_of vs)) + 1) rest r)"
  using assms
proof (induction vs)
  case Nil
  show ?case by (intro exI [of _ 1] conjI) (auto simp: next_after)
next
  case (Cons v vs)
  then obtain n where n: "n \<le> 2 * length (concat (map events_of vs)) + 3" "\<forall>r rest acc sz. rd_input r = map Inr (concat (map events_of vs) @ [Sequence_end]) @ rest \<longrightarrow>
    items n md d acc sz r = Inr ((acc @ vs, sz + sum_list (map nodes vs)), after (length (concat (map events_of vs)) + 1) rest r)"
    by auto
  from Cons.prems obtain ev es k where v: "events_of v = ev # es" "ev \<noteq> Sequence_end" "k \<le> 2 * length es + 2"
    "\<forall>r rest. rd_input r = map Inr es @ rest \<longrightarrow> node k md ev (d + 1) r = Inr ((v, nodes v), after (length es) rest r)"
    by (auto simp: reads_back_def)
  show ?case
  proof (intro exI [of _ "Suc (max n k)"] conjI allI impI)
    show "Suc (max n k) \<le> 2 * length (concat (map events_of (v # vs))) + 3" using n(1) v(1,3) by simp
  next
    fix r :: reader and rest :: "(string + event) list" and acc sz
    let ?more = "map Inr (concat (map events_of vs) @ [Sequence_end]) @ rest"
    assume "rd_input r = map Inr (concat (map events_of (v # vs)) @ [Sequence_end]) @ rest"
    then have e: "next_event r = Inr (ev, after 1 (map Inr es @ ?more) r)" by (simp add: v(1) next_after)
    have "node k md ev (d + 1) (after 1 (map Inr es @ ?more) r) = Inr ((v, nodes v), after (1 + length es) ?more r)"
      using v(4) by simp
    from node_more [OF this max.cobounded2] have 1: "node (max n k) md ev (d + 1) (after 1 (map Inr es @ ?more) r) = Inr ((v, nodes v), after (1 + length es) ?more r)" .
    have "items n md d (acc @ [v]) (sz + nodes v) (after (1 + length es) ?more r)
        = Inr ((acc @ v # vs, sz + nodes v + sum_list (map nodes vs)), after (1 + length es + (length (concat (map events_of vs)) + 1)) rest r)"
      using n(2) by simp
    from items_more [OF this max.cobounded1] have "items (max n k) md d (acc @ [v]) (sz + nodes v) (after (1 + length es) ?more r)
        = Inr ((acc @ v # vs, sz + nodes v + sum_list (map nodes vs)), after (1 + length es + (length (concat (map events_of vs)) + 1)) rest r)" .
    moreover have "items (Suc (max n k)) md d acc sz r
        = items (max n k) md d (acc @ [v]) (sz + nodes v) (after (1 + length es) ?more r)"
      unfolding items.simps(2) e using 1 v(2) by (simp del: node.simps items.simps entries.simps)
    moreover have "length (concat (map events_of (v # vs))) + 1 = 1 + length es + (length (concat (map events_of vs)) + 1)"
      by (simp add: v(1))
    ultimately show "items (Suc (max n k)) md d acc sz r =
        Inr ((acc @ v # vs, sz + sum_list (map nodes (v # vs))), after (length (concat (map events_of (v # vs))) + 1) rest r)"
      by (simp only: list.map sum_list.Cons add.assoc)
  qed
qed

definition entry_events :: "(string, json) fmap \<Rightarrow> string \<Rightarrow> event list" where
  "entry_events m k = Scalar k Double_quoted 0 None # events_of (the (fmlookup m k))"

lemma entries_read_back:
  assumes "\<forall>k \<in> set ks. reads_back md (d + 1) (the (fmlookup m k))" and "distinct ks"
  shows "\<exists>n \<le> 2 * length (concat (map (entry_events m) ks)) + 3. \<forall>r rest acc sz. rd_input r = map Inr (concat (map (entry_events m) ks) @ [Mapping_end]) @ rest \<longrightarrow>
    (\<forall>k \<in> set ks. fmlookup acc k = None) \<longrightarrow>
    entries n md d acc sz r = Inr ((fold (\<lambda>k. fmupd k (the (fmlookup m k))) ks acc,
      sz + (\<Sum>k \<leftarrow> ks. nodes (the (fmlookup m k)))), after (length (concat (map (entry_events m) ks)) + 1) rest r)"
  using assms
proof (induction ks)
  case Nil
  show ?case by (intro exI [of _ 1] conjI) (auto simp: next_after)
next
  case (Cons key ks)
  let ?v = "the (fmlookup m key)"
  from Cons obtain n where n: "n \<le> 2 * length (concat (map (entry_events m) ks)) + 3" "\<forall>r rest acc sz. rd_input r = map Inr (concat (map (entry_events m) ks) @ [Mapping_end]) @ rest \<longrightarrow>
    (\<forall>k \<in> set ks. fmlookup acc k = None) \<longrightarrow>
    entries n md d acc sz r = Inr ((fold (\<lambda>k. fmupd k (the (fmlookup m k))) ks acc,
      sz + (\<Sum>k \<leftarrow> ks. nodes (the (fmlookup m k)))), after (length (concat (map (entry_events m) ks)) + 1) rest r)"
    by auto
  from Cons.prems obtain ev es k where v: "events_of ?v = ev # es" "k \<le> 2 * length es + 2"
    "\<forall>r rest. rd_input r = map Inr es @ rest \<longrightarrow> node k md ev (d + 1) r = Inr ((?v, nodes ?v), after (length es) rest r)"
    by (auto simp: reads_back_def)
  show ?case
  proof (intro exI [of _ "Suc (max n k)"] conjI allI impI)
    show "Suc (max n k) \<le> 2 * length (concat (map (entry_events m) (key # ks))) + 3"
      using n(1) v(1,2) by (simp add: entry_events_def)
  next
    fix r :: reader and rest :: "(string + event) list" and acc :: "(string, json) fmap" and sz
    let ?more = "map Inr (concat (map (entry_events m) ks) @ [Mapping_end]) @ rest"
    let ?kev = "Scalar key Double_quoted 0 None"
    assume input: "rd_input r = map Inr (concat (map (entry_events m) (key # ks)) @ [Mapping_end]) @ rest"
      and fresh: "\<forall>k \<in> set (key # ks). fmlookup acc k = None"
    have e0: "next_event r = Inr (?kev, after 1 (Inr ev # map Inr es @ ?more) r)"
      using input by (simp add: entry_events_def v(1) next_after)
    have e1: "next_event (after 1 (Inr ev # map Inr es @ ?more) r) = Inr (ev, after 2 (map Inr es @ ?more) r)"
      by (simp add: next_after numeral_2_eq_2)
    have "node k md ev (d + 1) (after 2 (map Inr es @ ?more) r) = Inr ((?v, nodes ?v), after (2 + length es) ?more r)"
      using v(3) by simp
    from node_more [OF this max.cobounded2] have 1: "node (max n k) md ev (d + 1) (after 2 (map Inr es @ ?more) r) = Inr ((?v, nodes ?v), after (2 + length es) ?more r)" .
    have "\<forall>k \<in> set ks. fmlookup (fmupd key ?v acc) k = None" using fresh Cons.prems(2) by auto
    then have "entries n md d (fmupd key ?v acc) (sz + nodes ?v) (after (2 + length es) ?more r)
        = Inr ((fold (\<lambda>k. fmupd k (the (fmlookup m k))) ks (fmupd key ?v acc),
             sz + nodes ?v + (\<Sum>k \<leftarrow> ks. nodes (the (fmlookup m k)))),
             after (2 + length es + (length (concat (map (entry_events m) ks)) + 1)) rest r)"
      using n(2) by simp
    from entries_more [OF this max.cobounded1] have "entries (max n k) md d (fmupd key ?v acc) (sz + nodes ?v) (after (2 + length es) ?more r)
        = Inr ((fold (\<lambda>k. fmupd k (the (fmlookup m k))) ks (fmupd key ?v acc),
             sz + nodes ?v + (\<Sum>k \<leftarrow> ks. nodes (the (fmlookup m k)))),
             after (2 + length es + (length (concat (map (entry_events m) ks)) + 1)) rest r)" .
    moreover have "entries (Suc (max n k)) md d acc sz r
        = entries (max n k) md d (fmupd key ?v acc) (sz + nodes ?v) (after (2 + length es) ?more r)"
      unfolding entries.simps(2) e0 using e1 1 fresh by (simp del: node.simps items.simps entries.simps)
    moreover have "length (concat (map (entry_events m) (key # ks))) + 1
        = 2 + length es + (length (concat (map (entry_events m) ks)) + 1)"
      by (simp add: v(1) entry_events_def)
    ultimately show "entries (Suc (max n k)) md d acc sz r =
        Inr ((fold (\<lambda>k. fmupd k (the (fmlookup m k))) (key # ks) acc,
              sz + (\<Sum>k \<leftarrow> key # ks. nodes (the (fmlookup m k)))),
             after (length (concat (map (entry_events m) (key # ks))) + 1) rest r)"
      by (simp only: list.map sum_list.Cons add.assoc fold.simps o_apply)
  qed
qed


lemma fold_fmupd_lookup:
  "fmlookup (fold (\<lambda>k. fmupd k (f k)) ks acc) i = (if i \<in> set ks then Some (f i) else fmlookup acc i)"
  by (induction ks arbitrary: acc) auto

lemma fmran'_lookup: "fmlookup m k = Some v \<Longrightarrow> v \<in> fmran' m"
  by (auto simp: fmran'_def)

lemma tree_reads_back:
  "numbers_read (md_f64 md) v \<Longrightarrow> \<not> md_verbatim md \<Longrightarrow> d + json_depth v \<le> MAX_DEPTH \<Longrightarrow> reads_back md d v"
proof (induction v arbitrary: d)
  case (JArr vs)
  have "\<forall>v \<in> set vs. reads_back md (d + 1) v"
  proof
    fix v assume v: "v \<in> set vs"
    then have "json_depth v \<le> Max (set (map json_depth vs))" by (intro Max_ge) auto
    moreover have "json_depth (JArr vs) = 1 + Max (set (map json_depth vs))" using v by auto
    ultimately have "d + 1 + json_depth v \<le> MAX_DEPTH" using JArr.prems(3) by linarith
    moreover have "numbers_read (md_f64 md) v" using JArr.prems(1) v by (simp add: list_all_iff)
    ultimately show "reads_back md (d + 1) v" using JArr.IH [OF v] JArr.prems(2) by blast
  qed
  from items_read_back [OF this] obtain n where n: "n \<le> 2 * length (concat (map events_of vs)) + 3" "\<forall>r rest acc sz.
      rd_input r = map Inr (concat (map events_of vs) @ [Sequence_end]) @ rest \<longrightarrow>
      items n md d acc sz r = Inr ((acc @ vs, sz + sum_list (map nodes vs)), after (length (concat (map events_of vs)) + 1) rest r)"
    by auto
  have "\<forall>r rest. rd_input r = map Inr (concat (map events_of vs) @ [Sequence_end]) @ rest \<longrightarrow>
      node (Suc n) md (Sequence_start 0) d r = Inr ((JArr vs, nodes (JArr vs)), after (length (concat (map events_of vs) @ [Sequence_end])) rest r)"
    using n(2) JArr.prems(3) by (auto simp: anchored_def)
  with n(1) show ?case unfolding reads_back_def by (auto intro!: exI [of _ "Suc n"])
next
  case (JObj m)
  have "\<forall>k \<in> set (fm_keys m). reads_back md (d + 1) (the (fmlookup m k))"
  proof
    fix k assume "k \<in> set (fm_keys m)"
    then obtain v where v: "fmlookup m k = Some v" by (auto simp: fmlookup_dom'_iff)
    then have "json_depth v \<in> fmran' (fmmap json_depth m)" by (auto intro: fmran'_lookup)
    moreover have "finite (fmran' (fmmap json_depth m))" unfolding fmran'_alt_def by (rule finite_fset)
    ultimately have "json_depth v \<le> Max (fmran' (fmmap json_depth m))" by (intro Max_ge)
    moreover have "json_depth (JObj m) = 1 + Max (fmran' (fmmap json_depth m))" using v by auto
    ultimately have "d + 1 + json_depth v \<le> MAX_DEPTH" using JObj.prems(3) by linarith
    moreover have "numbers_read (md_f64 md) v" using JObj.prems(1) v by (auto simp: fmpred_iff)
    ultimately show "reads_back md (d + 1) (the (fmlookup m k))"
      using JObj.IH [OF fmran'_lookup [OF v]] JObj.prems(2) v by simp
  qed
  from entries_read_back [OF this] obtain n where n: "n \<le> 2 * length (concat (map (entry_events m) (fm_keys m))) + 3" "\<forall>r rest acc sz.
      rd_input r = map Inr (concat (map (entry_events m) (fm_keys m)) @ [Mapping_end]) @ rest \<longrightarrow>
      (\<forall>k \<in> set (fm_keys m). fmlookup acc k = None) \<longrightarrow>
      entries n md d acc sz r = Inr ((fold (\<lambda>k. fmupd k (the (fmlookup m k))) (fm_keys m) acc,
        sz + (\<Sum>k \<leftarrow> fm_keys m. nodes (the (fmlookup m k)))), after (length (concat (map (entry_events m) (fm_keys m))) + 1) rest r)"
    by auto
  have built: "fold (\<lambda>k. fmupd k (the (fmlookup m k))) (fm_keys m) fmempty = m"
    by (rule fmap_ext) (auto simp: fold_fmupd_lookup fmlookup_dom'_iff split: option.splits)
  have total: "1 + (\<Sum>k \<leftarrow> fm_keys m. nodes (the (fmlookup m k))) = nodes (JObj m)"
    by (auto simp: fm_total_def sum_list_distinct_conv_sum_set fmlookup_dom'_iff intro!: sum.cong)
  have events: "events_of (JObj m) = Mapping_start 0 # concat (map (entry_events m) (fm_keys m)) @ [Mapping_end]"
  proof -
    have "fm_keys (fmmap events_of m) = fm_keys m" by (simp add: fm_keys_def)
    moreover have "map (\<lambda>k. Scalar k Double_quoted 0 None # the (fmlookup (fmmap events_of m) k)) (fm_keys m) = map (entry_events m) (fm_keys m)"
      by (rule map_cong [OF refl]) (auto simp: entry_events_def fmlookup_dom'_iff)
    ultimately show ?thesis by (simp only: events_of.simps Let_def append_Cons)
  qed
  have "\<forall>r rest. rd_input r = map Inr (concat (map (entry_events m) (fm_keys m)) @ [Mapping_end]) @ rest \<longrightarrow>
      node (Suc n) md (Mapping_start 0) d r = Inr ((JObj m, nodes (JObj m)), after (length (concat (map (entry_events m) (fm_keys m)) @ [Mapping_end])) rest r)"
    using n(2) JObj.prems(3) built total by (auto simp: anchored_def simp del: nodes.simps)
  with n(1) show ?case unfolding reads_back_def events by (auto intro!: exI [of _ "Suc n"])
qed (auto simp: reads_back_def anchored_def after_def read_scalar_def scalar_def intro!: exI [of _ 1])

lemma stream_rules:
  "next_event r = Inr (Stream_start, r1) \<Longrightarrow> stream (Suc n) md v k r = stream n md v k r1"
  "next_event r = Inr (Document_end, r1) \<Longrightarrow> stream (Suc n) md v k r = stream n md v k r1"
  "next_event r = Inr (Stream_end, r1) \<Longrightarrow> stream (Suc n) md v k r = Inr v"
  "next_event r = Inr (Document_start, r1) \<Longrightarrow> next_event r1 = Inr (ev, r2) \<Longrightarrow> node n md ev 0 r2 = Inr ((v', j), r3) \<Longrightarrow>
     stream (Suc n) md v 0 r = stream n md v' 1 r3"
  by simp_all




section \<open>Which scalars are text\<close>

lemma zero_padded_not_int: "digits_but_not_number t \<Longrightarrow> yaml_int t = None"
proof -
  assume d: "digits_but_not_number t"
  then obtain c ds where t: "strip_sign t = CHR ''0'' # c # ds" "ascii_digit c"
    by (cases "strip_sign t"; cases "tl (strip_sign t)") (auto simp: digits_but_not_number_def Let_def)
  then have "c \<noteq> CHR ''x''" "c \<noteq> CHR ''o''" "c \<noteq> CHR ''b''" by (auto simp: ascii_digit_def)
  moreover have "(if starts_with t ''-'' \<or> starts_with t ''+'' then drop 1 t else t) = strip_sign t"
    by (cases t) (auto simp: strip_sign_def)
  ultimately show ?thesis using d t(1) by (simp add: yaml_int_def Let_def signed_def)
qed

lemma scalar_induct:
  "P (JStr t) \<Longrightarrow> P JNull \<Longrightarrow> (\<And>b. P (JBool b)) \<Longrightarrow> (\<And>n. P (JNum n)) \<Longrightarrow> P (scalar f t style tag)"
  by (simp add: scalar_def split: option.split float_value.split)

lemma scalar_cases:
  "scalar f t style tag = JStr t \<or> scalar f t style tag = JNull
   \<or> (\<exists>b. scalar f t style tag = JBool b) \<or> (\<exists>n. scalar f t style tag = JNum n)"
  by (rule scalar_induct) blast+

text \<open>
  Text stays text: a quoted scalar and a plain one of digits with a leading zero (a zip code, a file mode) are the
  string written, no scalar ever becomes another string, and the tree read for its text has no number and no truth value.
\<close>

theorem scalars_keep_text:
  "(style \<noteq> Plain \<longrightarrow> read_scalar md t style tag = JStr t)
   \<and> (digits_but_not_number t \<longrightarrow> read_scalar md t style tag = JStr t)
   \<and> (read_scalar md t style tag = JStr s \<longrightarrow> s = t)
   \<and> (md_verbatim md \<longrightarrow> read_scalar md t style tag \<in> {JStr t, JNull})"
proof -
  have "digits_but_not_number t \<Longrightarrow> t \<notin> set [[], ''~'', ''null'', ''Null'', ''NULL'']"
    and "digits_but_not_number t \<Longrightarrow> t \<notin> set [''true'', ''True'', ''TRUE'']"
    and "digits_but_not_number t \<Longrightarrow> t \<notin> set [''false'', ''False'', ''FALSE'']"
    by (auto simp: digits_but_not_number_def strip_sign_def)
  then have padded: "digits_but_not_number t \<Longrightarrow> scalar (md_f64 md) t style tag = JStr t"
    by (simp add: scalar_def zero_padded_not_int)
  have quoted: "style \<noteq> Plain \<Longrightarrow> scalar (md_f64 md) t style tag = JStr t" by (simp add: scalar_def)
  have kept: "read_scalar md t style tag = JStr t" if "style \<noteq> Plain \<or> digits_but_not_number t"
    using that padded quoted by (auto simp: read_scalar_def)
  have same: "s = t" if "read_scalar md t style tag = JStr s" for s
    using that scalar_cases [of "md_f64 md" t style tag] by (auto simp: read_scalar_def split: if_splits)
  have verbatim: "read_scalar md t style tag \<in> {JStr t, JNull}" if "md_verbatim md"
    using that scalar_cases [of "md_f64 md" t style tag] by (auto simp: read_scalar_def)
  show ?thesis using kept same verbatim by blast
qed

theorem scalars_keep_text_witness:
  "read_scalar \<lparr>md_f64 = (\<lambda>_. None), md_verbatim = False\<rparr> ''08001'' Plain None = JStr ''08001''"
proof -
  have "digits_but_not_number ''08001''" by code_simp
  with scalars_keep_text show ?thesis by blast
qed

text \<open>An anchored list and two copies of it.\<close>

theorem yaml_bounded_witness:
  "\<exists>v. read \<lparr>md_f64 = (\<lambda>_. None), md_verbatim = False\<rparr>
     (map Inr [Document_start, Sequence_start 0, Sequence_start 1, Scalar ''a'' Double_quoted 0 None, Sequence_end, Alias 1, Alias 1,
        Sequence_end, Document_end, Stream_end]) = Inr v
   \<and> nodes v = 7 \<and> nodes v \<le> 10 + max 1000000 1000"
proof -
  let ?md = "\<lparr>md_f64 = (\<lambda>_. None), md_verbatim = False\<rparr>"
  let ?evs = "map (Inr :: event \<Rightarrow> string + event) [Document_start, Sequence_start 0, Sequence_start 1, Scalar ''a'' Double_quoted 0 None, Sequence_end, Alias 1, Alias 1,
        Sequence_end, Document_end, Stream_end]"
  let ?v = "JArr [JArr [JStr ''a''], JArr [JStr ''a''], JArr [JStr ''a'']]"
  have small: "0 < MAX_DEPTH" "\<not> MAX_DEPTH < Suc 0" "\<not> MAX_DEPTH < Suc (Suc 0)" "\<not> MAX_DEPTH < 0"
    "\<not> max MIN_ALIAS_BUDGET k < Suc (Suc 0)" "\<not> max MIN_ALIAS_BUDGET k < Suc (Suc (Suc (Suc 0)))" for k
    by (simp_all add: MAX_DEPTH_def MIN_ALIAS_BUDGET_def)
  have "read ?md ?evs = Inr ?v"
    by (simp add: read_def eval_nat_numeral next_event_def anchored_def read_scalar_def scalar_def small)
  moreover from this have "nodes ?v \<le> length ?evs + max 1000000 (100 * length ?evs)"
    using yaml_bounded [of ?md ?evs ?v] by blast
  ultimately show ?thesis by simp
qed

end
