(* ===== verification/Static_Inventory.thy ===== *)
theory Static_Inventory
  imports Yaml Datasets
begin

text \<open>
  The reader of Ansible's static YAML inventories: \<open>src/src/domain/static_inventory.rs\<close>. The files arrive as their
  contents; YAML is read by the reader of \<open>Yaml\<close>. The lemmas say which hosts and children a group ends with, that vars
  files win over inline variables and that nothing encrypted is ever read, and show what is lost: a group redeclared
  inside itself, and \<open>group_vars/all\<close> of an inventory that does not name \<open>all\<close>.
\<close>

section \<open>Input and errors\<close>

type_synonym vars_files = "(string, (string \<times> string) list) fmap"

record static_input =
  si_inventory :: string
  si_group_vars :: vars_files
  si_host_vars :: vars_files

datatype static_error =
    Vaulted string
  | Not_yaml string yaml_error
  | Inventory_not_a_mapping
  | Bad_vars string
  | Hosts_not_a_mapping string
  | Range_pattern string
  | Host_vars_not_a_mapping string
  | Children_not_a_mapping string
  | Group_vars_not_a_mapping string
  | Unknown_group_key string string
  | Group_not_a_mapping string
  | Walk_fuel

datatype static_warning = No_matching_group string | No_matching_host string

definition VAULT_HEADER :: string where "VAULT_HEADER = ''$ANSIBLE_VAULT''"

definition vaulted :: "string \<Rightarrow> bool" where
  "vaulted contents \<longleftrightarrow> starts_with (dropWhile is_ws contents) VAULT_HEADER"

definition check_not_vaulted :: "string \<Rightarrow> string \<Rightarrow> static_error + unit" where
  "check_not_vaulted what contents = (if vaulted contents then Inl (Vaulted what) else Inr ())"

definition yaml_vars :: "json \<Rightarrow> host_vars option" where
  "yaml_vars v =
     (case v of
        JNull \<Rightarrow> Some fmempty
      | JObj m \<Rightarrow> Some m
      | _ \<Rightarrow> None)"

section \<open>The walk over the groups\<close>

record group_info =
  gi_hosts :: "string list"
  gi_children :: "string list"
  gi_vars :: host_vars

record walk_state =
  wk_groups :: "(string, group_info) fmap"
  wk_memberships :: "(string, string list) fmap"
  wk_host_vars :: "(string, host_vars) fmap"

definition no_info :: group_info where
  "no_info = \<lparr>gi_hosts = [], gi_children = [], gi_vars = fmempty\<rparr>"

fun try_fold :: "('a \<Rightarrow> 's \<Rightarrow> 'e + 's) \<Rightarrow> 'a list \<Rightarrow> 's \<Rightarrow> 'e + 's" where
  "try_fold f [] s = Inr s"
| "try_fold f (x # xs) s = (case f x s of Inl e \<Rightarrow> Inl e | Inr s \<Rightarrow> try_fold f xs s)"

definition add_host ::
  "string \<Rightarrow> (string, json) fmap \<Rightarrow> string \<Rightarrow> group_info \<times> walk_state \<Rightarrow> static_error + group_info \<times> walk_state" where
  "add_host name hosts host = (\<lambda>(info, w).
     if CHR ''['' \<in> set host then Inl (Range_pattern host)
     else
       (let info = info\<lparr>gi_hosts := gi_hosts info @ [host]\<rparr>;
            w = w\<lparr>wk_memberships := fm_or_default [] (\<lambda>gs. gs @ [name]) host (wk_memberships w)\<rparr>
        in case yaml_vars (the (fmlookup hosts host)) of
             None \<Rightarrow> Inl (Host_vars_not_a_mapping host)
           | Some vars \<Rightarrow>
               Inr (info, w\<lparr>wk_host_vars := fm_or_default fmempty (\<lambda>vs. vs ++\<^sub>f vars) host (wk_host_vars w)\<rparr>)))"

definition add_child ::
  "(string \<Rightarrow> json \<Rightarrow> walk_state \<Rightarrow> static_error + walk_state) \<Rightarrow> (string, json) fmap \<Rightarrow> string
     \<Rightarrow> group_info \<times> walk_state \<Rightarrow> static_error + group_info \<times> walk_state" where
  "add_child walk_child children child = (\<lambda>(info, w).
     let info = info\<lparr>gi_children := gi_children info @ [child]\<rparr>
     in case walk_child child (the (fmlookup children child)) w of
          Inl e \<Rightarrow> Inl e
        | Inr w \<Rightarrow> Inr (info, w))"

text \<open>One key of a group's mapping; the keys come in the order of the map.\<close>

definition group_key ::
  "(string \<Rightarrow> json \<Rightarrow> walk_state \<Rightarrow> static_error + walk_state) \<Rightarrow> string \<Rightarrow> (string, json) fmap \<Rightarrow> string
     \<Rightarrow> group_info \<times> walk_state \<Rightarrow> static_error + group_info \<times> walk_state" where
  "group_key walk_child name mapping key iw =
     (let v = the (fmlookup mapping key)
      in if key = ''hosts'' then
           (case as_object v of
              None \<Rightarrow> Inl (Hosts_not_a_mapping name)
            | Some hosts \<Rightarrow> try_fold (add_host name hosts) (fm_keys hosts) iw)
         else if key = ''children'' then
           (case as_object v of
              None \<Rightarrow> Inl (Children_not_a_mapping name)
            | Some children \<Rightarrow> try_fold (add_child walk_child children) (fm_keys children) iw)
         else if key = ''vars'' then
           (case yaml_vars v of
              None \<Rightarrow> Inl (Group_vars_not_a_mapping name)
            | Some vars \<Rightarrow> Inr ((fst iw)\<lparr>gi_vars := gi_vars (fst iw) ++\<^sub>f vars\<rparr>, snd iw))
         else Inl (Unknown_group_key name key))"

text \<open>\<open>Walk::group\<close>; the fuel bounds the nesting of the tree.\<close>

fun walk_group :: "nat \<Rightarrow> string \<Rightarrow> json \<Rightarrow> walk_state \<Rightarrow> static_error + walk_state" where
  "walk_group 0 name v w = Inl Walk_fuel"
| "walk_group (Suc n) name v w =
     (let info = (case fmlookup (wk_groups w) name of None \<Rightarrow> no_info | Some i \<Rightarrow> i);
          w = w\<lparr>wk_groups := fmdrop name (wk_groups w)\<rparr>
      in case v of
           JObj mapping \<Rightarrow>
             (case try_fold (group_key (walk_group n) name mapping) (fm_keys mapping) (info, w) of
                Inl e \<Rightarrow> Inl e
              | Inr (info, w) \<Rightarrow> Inr (w\<lparr>wk_groups := fmupd name info (wk_groups w)\<rparr>))
         | JNull \<Rightarrow> Inr (w\<lparr>wk_groups := fmupd name info (wk_groups w)\<rparr>)
         | _ \<Rightarrow> Inl (Group_not_a_mapping name))"

definition walk_roots :: "(string, json) fmap \<Rightarrow> static_error + walk_state" where
  "walk_roots root =
     try_fold (\<lambda>name w. walk_group (Suc (json_depth (JObj root))) name (the (fmlookup root name)) w) (fm_keys root)
       \<lparr>wk_groups = fmempty, wk_memberships = fmempty, wk_host_vars = fmempty\<rparr>"

section \<open>Vars files and the dataset\<close>

text \<open>Paths in messages.\<close>

definition labelled :: "string \<Rightarrow> string \<Rightarrow> string" where
  "labelled kind label = kind @ ''/'' @ label"

definition merge_vars_file ::
  "(string \<Rightarrow> yaml_error + json) \<Rightarrow> string \<Rightarrow> string \<times> string \<Rightarrow> host_vars \<Rightarrow> static_error + host_vars" where
  "merge_vars_file yaml kind part vars =
     (let what = labelled kind (fst part)
      in case check_not_vaulted what (snd part) of
           Inl e \<Rightarrow> Inl e
         | Inr _ \<Rightarrow>
             (case yaml (snd part) of
                Inl e \<Rightarrow> Inl (Not_yaml what e)
              | Inr v \<Rightarrow>
                  (case yaml_vars v of
                     None \<Rightarrow> Inl (Bad_vars what)
                   | Some file_vars \<Rightarrow> Inr (vars ++\<^sub>f file_vars))))"

definition parse_vars_files ::
  "(string \<Rightarrow> yaml_error + json) \<Rightarrow> string \<Rightarrow> vars_files \<Rightarrow> static_error + (string, host_vars) fmap" where
  "parse_vars_files yaml kind files =
     try_fold (\<lambda>name parsed. case try_fold (merge_vars_file yaml kind) (the (fmlookup files name)) fmempty of
                 Inl e \<Rightarrow> Inl e | Inr vars \<Rightarrow> Inr (fmupd name vars parsed))
       (fm_keys files) fmempty"

definition group_of_info :: "(string, host_vars) fmap \<Rightarrow> string \<Rightarrow> group_info \<Rightarrow> group" where
  "group_of_info files name info =
     (let vars = (case fmlookup files name of None \<Rightarrow> gi_vars info | Some vs \<Rightarrow> gi_vars info ++\<^sub>f vs)
      in \<lparr>g_hosts = sort_dedup (gi_hosts info), g_children = sort_dedup (gi_children info),
          g_vars = (if vars = fmempty then None else Some vars)\<rparr>)"

definition host_own_vars :: "walk_state \<Rightarrow> (string, host_vars) fmap \<Rightarrow> string \<Rightarrow> host_vars" where
  "host_own_vars w files host =
     (let inline = (case fmlookup (wk_host_vars w) host of None \<Rightarrow> fmempty | Some vs \<Rightarrow> vs)
      in case fmlookup files host of None \<Rightarrow> inline | Some vs \<Rightarrow> inline ++\<^sub>f vs)"

definition parse_static ::
  "(string \<Rightarrow> yaml_error + json) \<Rightarrow> static_input \<Rightarrow> static_error + dataset \<times> static_warning list" where
  "parse_static yaml inp =
     (case check_not_vaulted ''inventory file'' (si_inventory inp) of
        Inl e \<Rightarrow> Inl e
      | Inr _ \<Rightarrow>
     (case yaml (si_inventory inp) of
        Inl e \<Rightarrow> Inl (Not_yaml ''inventory file'' e)
      | Inr v \<Rightarrow>
     (case as_object v of
        None \<Rightarrow> Inl Inventory_not_a_mapping
      | Some root \<Rightarrow>
     (case parse_vars_files yaml ''group_vars'' (si_group_vars inp) of
        Inl e \<Rightarrow> Inl e
      | Inr group_files \<Rightarrow>
     (case parse_vars_files yaml ''host_vars'' (si_host_vars inp) of
        Inl e \<Rightarrow> Inl e
      | Inr host_files \<Rightarrow>
     (case walk_roots root of
        Inl e \<Rightarrow> Inl e
      | Inr w \<Rightarrow>
          Inr (\<lparr>hostvars = fmmap_keys (\<lambda>host _. host_own_vars w host_files host) (wk_memberships w),
                groups = fmfilter (\<lambda>name. name \<noteq> ''ungrouped'') (fmmap_keys (group_of_info group_files) (wk_groups w)),
                remove_hosts = []\<rparr>,
               map No_matching_group (filter (\<lambda>n. fmlookup (wk_groups w) n = None \<and> n \<noteq> ''all'') (fm_keys group_files))
               @ map No_matching_host (filter (\<lambda>n. fmlookup (wk_memberships w) n = None) (fm_keys host_files)))))))))"

section \<open>What the files declare\<close>

text \<open>\<open>declares key name v g x\<close>: the tree \<open>v\<close> of group \<open>name\<close> lists \<open>x\<close> under \<open>key\<close> of group \<open>g\<close>.\<close>

inductive declares :: "string \<Rightarrow> string \<Rightarrow> json \<Rightarrow> string \<Rightarrow> string \<Rightarrow> bool" for key where
  here: "fmlookup m key = Some (JObj xs) \<Longrightarrow> x \<in> fmdom' xs \<Longrightarrow> declares key name (JObj m) name x"
| below: "fmlookup m ''children'' = Some (JObj cs) \<Longrightarrow> fmlookup cs c = Some v \<Longrightarrow> declares key c v g x
    \<Longrightarrow> declares key name (JObj m) g x"

inductive mentions :: "string \<Rightarrow> json \<Rightarrow> string \<Rightarrow> bool" where
  self: "mentions name v name"
| child: "fmlookup m ''children'' = Some (JObj cs) \<Longrightarrow> fmlookup cs c = Some v \<Longrightarrow> mentions c v g
    \<Longrightarrow> mentions name (JObj m) g"

inductive self_nested :: "string \<Rightarrow> json \<Rightarrow> bool" where
  direct: "fmlookup m ''children'' = Some (JObj cs) \<Longrightarrow> fmlookup cs c = Some v \<Longrightarrow> mentions c v name
    \<Longrightarrow> self_nested name (JObj m)"
| inner: "fmlookup m ''children'' = Some (JObj cs) \<Longrightarrow> fmlookup cs c = Some v \<Longrightarrow> self_nested c v
    \<Longrightarrow> self_nested name (JObj m)"

inductive_simps declares_obj: "declares key name (JObj m) g x"
inductive_simps declares_null: "declares key name JNull g x"
inductive_simps mentions_obj: "mentions name (JObj m) g"
inductive_simps mentions_null: "mentions name JNull g"
inductive_simps self_nested_obj: "self_nested name (JObj m)"

lemma declares_mentions: "declares key name v g x \<Longrightarrow> mentions name v g"
  by (induction rule: declares.induct) (auto intro: mentions.intros)

lemma try_fold_cons:
  "try_fold f (x # xs) s = Inr t \<longleftrightarrow> (\<exists>u. f x s = Inr u \<and> try_fold f xs u = Inr t)"
  by (auto split: sum.split)

lemma try_fold_fails: "x \<in> set xs \<Longrightarrow> (\<And>s. \<exists>e. f x s = Inl e) \<Longrightarrow> \<exists>e. try_fold f xs s = Inl e"
proof (induction xs arbitrary: s)
  case (Cons y ys)
  show ?case
  proof (cases "f y s")
    case (Inr t)
    then have "x \<noteq> y" using Cons.prems(2) [of s] by auto
    then show ?thesis using Cons Inr by simp
  qed simp
qed simp

lemma try_fold_collects:
  assumes "try_fold f xs s = Inr t" and "\<And>x s t. x \<in> set xs \<Longrightarrow> f x s = Inr t \<Longrightarrow> m t = m s \<union> d x"
  shows "m t = m s \<union> (\<Union>x \<in> set xs. d x)"
  using assms
proof (induction xs arbitrary: s)
  case (Cons x xs)
  then obtain u where u: "f x s = Inr u" "try_fold f xs u = Inr t" unfolding try_fold_cons by blast
  then have "m t = m u \<union> (\<Union>x \<in> set xs. d x)" using Cons by simp
  then show ?case using u(1) Cons.prems(2) [of x s u] by auto
qed simp

lemma try_fold_never:
  assumes "try_fold f xs s = Inl e" and "\<And>x s. x \<in> set xs \<Longrightarrow> f x s \<noteq> Inl e"
  shows False
  using assms by (induction xs arbitrary: s) (auto split: sum.splits)

section \<open>What the walk collects\<close>

text \<open>Two readings of a walk: what the groups list, and under which groups a host was met.\<close>

definition listed :: "(group_info \<Rightarrow> string list) \<Rightarrow> walk_state \<Rightarrow> (string \<times> string) set" where
  "listed f w = {(g, x). \<exists>i. fmlookup (wk_groups w) g = Some i \<and> x \<in> set (f i)}"

definition met :: "walk_state \<Rightarrow> (string \<times> string) set" where
  "met w = {(g, h). \<exists>gs. fmlookup (wk_memberships w) h = Some gs \<and> g \<in> set gs}"

text \<open>The same with the group being walked held out of the map.\<close>

definition listed_out :: "(group_info \<Rightarrow> string list) \<Rightarrow> string \<Rightarrow> group_info \<times> walk_state \<Rightarrow> (string \<times> string) set" where
  "listed_out f name iw = {(g, x). if g = name then x \<in> set (f (fst iw)) else (g, x) \<in> listed f (snd iw)}"

lemma listed_put_back: "listed f (w\<lparr>wk_groups := fmupd name i (wk_groups w)\<rparr>) = listed_out f name (i, w)"
  by (auto simp: listed_def listed_out_def)

lemma listed_taken_out:
  assumes "set (f no_info) = {}"
  shows "listed_out f name (case fmlookup (wk_groups w) name of None \<Rightarrow> no_info | Some i \<Rightarrow> i,
           w\<lparr>wk_groups := fmdrop name (wk_groups w)\<rparr>) = listed f w"
  using assms by (auto simp: listed_def listed_out_def split: option.split)

lemma add_host_collects:
  assumes "add_host name hosts h iw = Inr iw'"
  shows "listed_out gi_hosts name iw' = listed_out gi_hosts name iw \<union> {(name, h)}"
    and "listed_out gi_children name iw' = listed_out gi_children name iw"
    and "met (snd iw') = met (snd iw) \<union> {(name, h)}"
    and "fmdom' (wk_groups (snd iw')) = fmdom' (wk_groups (snd iw))"
  using assms
  by (auto simp: add_host_def listed_out_def listed_def met_def Let_def split: if_splits option.splits prod.splits)

lemma add_host_domain:
  assumes "add_host name hosts h iw = Inr iw'"
  shows "fmdom' (wk_memberships (snd iw')) = insert h (fmdom' (wk_memberships (snd iw)))"
  using assms by (auto simp: add_host_def fm_or_default_def Let_def split: if_splits option.splits prod.splits)

lemma listed_out_vars [simp]:
  "listed_out gi_hosts name (i\<lparr>gi_vars := vs\<rparr>, w) = listed_out gi_hosts name (i, w)"
  "listed_out gi_children name (i\<lparr>gi_vars := vs\<rparr>, w) = listed_out gi_children name (i, w)"
  by (auto simp: listed_out_def)

text \<open>
  One pass over a group's mapping, for any reading \<open>M\<close> of the walk that a host adds \<open>H\<close> to, a child \<open>C\<close> and
  variables nothing.
\<close>

lemma group_keys_collect:
  fixes M :: "group_info \<times> walk_state \<Rightarrow> 'a set"
  assumes run: "try_fold (group_key step name m) (fm_keys m) iw = Inr iw'"
    and host: "\<And>hosts h iw iw'. fmlookup m ''hosts'' = Some (JObj hosts) \<Longrightarrow> h \<in> fmdom' hosts
      \<Longrightarrow> add_host name hosts h iw = Inr iw' \<Longrightarrow> M iw' = M iw \<union> H h"
    and child: "\<And>cs c v i w w'. fmlookup m ''children'' = Some (JObj cs) \<Longrightarrow> fmlookup cs c = Some v
      \<Longrightarrow> step c v w = Inr w' \<Longrightarrow> M (i\<lparr>gi_children := gi_children i @ [c]\<rparr>, w') = M (i, w) \<union> C c v"
    and vars: "\<And>i w vs. M (i\<lparr>gi_vars := vs\<rparr>, w) = M (i, w)"
  shows "M iw' = M iw \<union> {p. (\<exists>xs x. fmlookup m ''hosts'' = Some (JObj xs) \<and> x \<in> fmdom' xs \<and> p \<in> H x)
    \<or> (\<exists>cs c v. fmlookup m ''children'' = Some (JObj cs) \<and> fmlookup cs c = Some v \<and> p \<in> C c v)}"
    (is "_ = _ \<union> {p. ?H p \<or> ?C p}")
proof -
  let ?part = "\<lambda>key. if key = ''hosts'' then {p. ?H p} else if key = ''children'' then {p. ?C p} else {}"
  have "M iw' = M iw \<union> (\<Union>key \<in> set (fm_keys m). ?part key)"
  proof (rule try_fold_collects [OF run])
    fix key iw iw' assume key: "key \<in> set (fm_keys m)" and key_ok: "group_key step name m key iw = Inr iw'"
    from key obtain v where v: "fmlookup m key = Some v" by (auto simp: fmlookup_dom'_iff)
    consider "key = ''hosts''" | "key = ''children''" | "key \<noteq> ''hosts''" "key \<noteq> ''children''" by blast
    then show "M iw' = M iw \<union> ?part key"
    proof cases
      case 1
      with key_ok v obtain xs where xs: "v = JObj xs" "try_fold (add_host name xs) (fm_keys xs) iw = Inr iw'"
        by (cases v) (auto simp: group_key_def)
      have "M iw' = M iw \<union> (\<Union>h \<in> set (fm_keys xs). H h)" by (rule try_fold_collects [OF xs(2)]) (rule host, use 1 v xs(1) in simp_all)
      then show ?thesis using 1 v xs(1) by auto
    next
      case 2
      with key_ok v obtain cs where cs: "v = JObj cs" "try_fold (add_child step cs) (fm_keys cs) iw = Inr iw'"
        by (cases v) (auto simp: group_key_def)
      have "M iw' = M iw \<union> (\<Union>c \<in> set (fm_keys cs). C c (the (fmlookup cs c)))"
      proof (rule try_fold_collects [OF cs(2)])
        fix c iw iw' assume c: "c \<in> set (fm_keys cs)" and "add_child step cs c iw = Inr iw'"
        moreover obtain i w where "iw = (i, w)" by (cases iw)
        ultimately obtain w' where w': "step c (the (fmlookup cs c)) w = Inr w'"
            "iw' = (i\<lparr>gi_children := gi_children i @ [c]\<rparr>, w')" "iw = (i, w)"
          by (auto simp: add_child_def Let_def split: sum.splits)
        from c have "fmlookup cs c = Some (the (fmlookup cs c))" by (auto simp: fmlookup_dom'_iff)
        from child [OF _ this w'(1)] show "M iw' = M iw \<union> C c (the (fmlookup cs c))" using 2 v cs(1) w'(2,3) by simp
      qed
      moreover have "(\<Union>c \<in> set (fm_keys cs). C c (the (fmlookup cs c))) = {p. \<exists>c v. fmlookup cs c = Some v \<and> p \<in> C c v}"
        by (simp add: set_eq_iff Bex_def fmlookup_fmdom') (metis option.sel option.distinct(1) not_None_eq)
      ultimately show ?thesis using 2 v cs(1) by simp
    next
      case 3
      with key_ok v have "M iw' = M iw"
        using vars [where i = "fst iw" and w = "snd iw"] by (auto simp: group_key_def split: if_splits option.splits)
      then show ?thesis using 3 by simp
    qed
  qed
  moreover have "(\<Union>key \<in> set (fm_keys m). ?part key) = {p. ?H p \<or> ?C p}"
  proof (intro subset_antisym UN_least subsetI)
    fix p assume "p \<in> {p. ?H p \<or> ?C p}"
    then have "?H p \<or> ?C p" by simp
    then show "p \<in> (\<Union>key \<in> set (fm_keys m). ?part key)"
    proof (elim disjE)
      assume h: "?H p"
      then have "''hosts'' \<in> set (fm_keys m)" by (auto simp: fmlookup_fmdom')
      then show ?thesis by (rule UN_I) (use h in simp)
    next
      assume c: "?C p"
      then have "''children'' \<in> set (fm_keys m)" by (auto simp: fmlookup_fmdom')
      then show ?thesis by (rule UN_I) (use c in simp)
    qed
  qed (simp split: if_splits)
  ultimately show ?thesis by simp
qed

lemma walk_groupE:
  assumes "walk_group (Suc n) name v w = Inr w'"
  obtains (obj) m i w0 i' w1 where "v = JObj m"
      "(i, w0) = (case fmlookup (wk_groups w) name of None \<Rightarrow> no_info | Some i \<Rightarrow> i, w\<lparr>wk_groups := fmdrop name (wk_groups w)\<rparr>)"
      "try_fold (group_key (walk_group n) name m) (fm_keys m) (i, w0) = Inr (i', w1)"
      "w' = w1\<lparr>wk_groups := fmupd name i' (wk_groups w1)\<rparr>"
    | (null) i w0 where "v = JNull"
      "(i, w0) = (case fmlookup (wk_groups w) name of None \<Rightarrow> no_info | Some i \<Rightarrow> i, w\<lparr>wk_groups := fmdrop name (wk_groups w)\<rparr>)"
      "w' = w0\<lparr>wk_groups := fmupd name i (wk_groups w0)\<rparr>"
  using assms by (cases v) (auto simp: Let_def split: sum.splits)

lemma walk_group_listed:
  assumes "walk_group n name v w = Inr w'" and "\<not> self_nested name v"
  shows "listed gi_hosts w' = listed gi_hosts w \<union> {(g, x). declares ''hosts'' name v g x}"
    and "listed gi_children w' = listed gi_children w \<union> {(g, x). declares ''children'' name v g x}"
  using assms
proof (induction n arbitrary: name v w w')
  case (Suc n)
  { case 1
    from 1(1) show ?case
    proof (cases rule: walk_groupE)
      case (obj m i w0 i' w1)
      have "listed_out gi_hosts name (i', w1) = listed_out gi_hosts name (i, w0) \<union>
          {p. (\<exists>xs x. fmlookup m ''hosts'' = Some (JObj xs) \<and> x \<in> fmdom' xs \<and> p \<in> {(name, x)})
            \<or> (\<exists>cs c v. fmlookup m ''children'' = Some (JObj cs) \<and> fmlookup cs c = Some v
                 \<and> p \<in> {(g, x). declares ''hosts'' c v g x})}"
      proof (rule group_keys_collect [OF obj(3)])
        fix cs c u i w w'
        assume c: "fmlookup m ''children'' = Some (JObj cs)" "fmlookup cs c = Some u" "walk_group n c u w = Inr w'"
        then have "\<not> self_nested c u" "\<not> mentions c u name" using 1(2) obj(1) by (auto intro: self_nested.intros)
        with Suc.IH(1) [OF c(3)] declares_mentions
        show "listed_out gi_hosts name (i\<lparr>gi_children := gi_children i @ [c]\<rparr>, w')
            = listed_out gi_hosts name (i, w) \<union> {(g, x). declares ''hosts'' c u g x}"
          by (auto simp: listed_out_def)
      qed (erule add_host_collects(1), simp)
      moreover have "listed_out gi_hosts name (i, w0) = listed gi_hosts w"
        using listed_taken_out [where f = gi_hosts and w = w and name = name] obj(2) by (simp add: no_info_def)
      ultimately show ?thesis
        unfolding obj(1,4) listed_put_back by (auto simp: declares_obj)
    next
      case (null i w0)
      have "listed_out gi_hosts name (i, w0) = listed gi_hosts w"
        using listed_taken_out [where f = gi_hosts and w = w and name = name] null(2) by (simp add: no_info_def)
      then show ?thesis unfolding null(1,3) listed_put_back by (simp add: declares_null)
    qed
  next
    case 2
    from 2(1) show ?case
    proof (cases rule: walk_groupE)
      case (obj m i w0 i' w1)
      have "listed_out gi_children name (i', w1) = listed_out gi_children name (i, w0) \<union>
          {p. (\<exists>xs x. fmlookup m ''hosts'' = Some (JObj xs) \<and> x \<in> fmdom' xs \<and> p \<in> {})
            \<or> (\<exists>cs c v. fmlookup m ''children'' = Some (JObj cs) \<and> fmlookup cs c = Some v
                 \<and> p \<in> insert (name, c) {(g, x). declares ''children'' c v g x})}"
      proof (rule group_keys_collect [OF obj(3)])
        fix cs c u i w w'
        assume c: "fmlookup m ''children'' = Some (JObj cs)" "fmlookup cs c = Some u" "walk_group n c u w = Inr w'"
        then have "\<not> self_nested c u" "\<not> mentions c u name" using 2(2) obj(1) by (auto intro: self_nested.intros)
        with Suc.IH(2) [OF c(3)] declares_mentions
        show "listed_out gi_children name (i\<lparr>gi_children := gi_children i @ [c]\<rparr>, w')
            = listed_out gi_children name (i, w) \<union> insert (name, c) {(g, x). declares ''children'' c u g x}"
          by (auto simp: listed_out_def)
      qed (simp add: add_host_collects(2), simp)
      moreover have "listed_out gi_children name (i, w0) = listed gi_children w"
        using listed_taken_out [where f = gi_children and w = w and name = name] obj(2) by (simp add: no_info_def)
      ultimately show ?thesis
        unfolding obj(1,4) listed_put_back by (auto simp: declares_obj fmlookup_dom'_iff)
    next
      case (null i w0)
      have "listed_out gi_children name (i, w0) = listed gi_children w"
        using listed_taken_out [where f = gi_children and w = w and name = name] null(2) by (simp add: no_info_def)
      then show ?thesis unfolding null(1,3) listed_put_back by (simp add: declares_null)
    qed }
qed simp_all

lemma walk_group_domains:
  assumes "walk_group n name v w = Inr w'"
  shows "fmdom' (wk_groups w') = fmdom' (wk_groups w) \<union> {g. mentions name v g}"
    and "fmdom' (wk_memberships w') = fmdom' (wk_memberships w) \<union> {h. \<exists>g. declares ''hosts'' name v g h}"
  using assms
proof (induction n arbitrary: name v w w')
  case (Suc n)
  { case 1
    then show ?case
    proof (cases rule: walk_groupE)
      case (obj m i w0 i' w1)
      have "(\<lambda>iw. insert name (fmdom' (wk_groups (snd iw)))) (i', w1) = (\<lambda>iw. insert name (fmdom' (wk_groups (snd iw)))) (i, w0) \<union>
          {p. (\<exists>xs x. fmlookup m ''hosts'' = Some (JObj xs) \<and> x \<in> fmdom' xs \<and> p \<in> {})
            \<or> (\<exists>cs c v. fmlookup m ''children'' = Some (JObj cs) \<and> fmlookup cs c = Some v \<and> p \<in> {g. mentions c v g})}"
        by (rule group_keys_collect [OF obj(3)]) (auto simp: add_host_collects(4) Suc.IH(1))
      moreover have "insert name (fmdom' (wk_groups w0)) = insert name (fmdom' (wk_groups w))" using obj(2) by auto
      ultimately show ?thesis unfolding obj(1,4) by (auto simp: mentions_obj)
    next
      case (null i w0)
      then show ?thesis by (auto simp: mentions_null)
    qed
  next
    case 2
    then show ?case
    proof (cases rule: walk_groupE)
      case (obj m i w0 i' w1)
      have "fmdom' (wk_memberships (snd (i', w1))) = fmdom' (wk_memberships (snd (i, w0))) \<union>
          {p. (\<exists>xs x. fmlookup m ''hosts'' = Some (JObj xs) \<and> x \<in> fmdom' xs \<and> p \<in> {x})
            \<or> (\<exists>cs c v. fmlookup m ''children'' = Some (JObj cs) \<and> fmlookup cs c = Some v
                 \<and> p \<in> {h. \<exists>g. declares ''hosts'' c v g h})}"
        by (rule group_keys_collect [OF obj(3)]) (auto simp: add_host_domain Suc.IH(2))
      moreover have "wk_memberships w0 = wk_memberships w" using obj(2) by auto
      ultimately show ?thesis unfolding obj(1,4) by (simp add: declares_obj ex_disj_distrib set_eq_iff) blast
    next
      case (null i w0)
      then show ?thesis by (auto simp: declares_null)
    qed }
qed simp_all

lemma walk_group_no_range:
  assumes "walk_group n name v w = Inr w'" and "declares ''hosts'' name v g h"
  shows "CHR ''['' \<notin> set h"
  using assms
proof (induction n arbitrary: name v w w' g h)
  case (Suc n)
  from Suc.prems(1) show ?case
  proof (cases rule: walk_groupE)
    case (obj m i w0 i' w1)
    let ?bad = "\<lambda>h. if CHR ''['' \<in> set h then {h} else {}"
    have "(\<lambda>iw. {}) (i', w1) = (\<lambda>iw. {}) (i, w0) \<union>
        {p. (\<exists>xs x. fmlookup m ''hosts'' = Some (JObj xs) \<and> x \<in> fmdom' xs \<and> p \<in> ?bad x)
          \<or> (\<exists>cs c v. fmlookup m ''children'' = Some (JObj cs) \<and> fmlookup cs c = Some v
               \<and> p \<in> {h. CHR ''['' \<in> set h \<and> (\<exists>g. declares ''hosts'' c v g h)})}"
      by (rule group_keys_collect [OF obj(3)])
        (use Suc.IH in \<open>auto simp: add_host_def split: prod.splits if_splits\<close>)
    then show ?thesis using Suc.prems(2) unfolding obj(1) by (force simp: declares_obj)
  next
    case null
    then show ?thesis using Suc.prems(2) by (simp add: declares_null)
  qed
qed simp

lemma json_depth_entry: "fmlookup m k = Some v \<Longrightarrow> json_depth v < json_depth (JObj m)"
proof -
  assume v: "fmlookup m k = Some v"
  then have "json_depth v \<in> fmran' (fmmap json_depth m)" by (auto intro: fmran'_lookup)
  moreover have "finite (fmran' (fmmap json_depth m))" unfolding fmran'_alt_def by (rule finite_fset)
  ultimately have "json_depth v \<le> Max (fmran' (fmmap json_depth m))" by (rule Max_ge [rotated])
  then show ?thesis using v by auto
qed

lemma walk_group_fuel: "json_depth v < n \<Longrightarrow> walk_group n name v w \<noteq> Inl Walk_fuel"
proof (induction n arbitrary: name v w)
  case (Suc n)
  have child: "add_child (walk_group n) cs c iw \<noteq> Inl Walk_fuel"
    if "v = JObj m" "fmlookup m ''children'' = Some (JObj cs)" "c \<in> set (fm_keys cs)" for m cs c iw
  proof -
    from that(3) obtain u where u: "fmlookup cs c = Some u" by (auto simp: fmlookup_dom'_iff)
    then have "json_depth u < n"
      using json_depth_entry [OF u] json_depth_entry [OF that(2)] Suc.prems [unfolded that(1)] by linarith
    from Suc.IH [OF this] show ?thesis using u by (auto simp: add_child_def Let_def split: prod.splits sum.splits)
  qed
  have key: "group_key (walk_group n) name m key iw \<noteq> Inl Walk_fuel" if "v = JObj m" "key \<in> set (fm_keys m)" for m key iw
  proof
    assume e: "group_key (walk_group n) name m key iw = Inl Walk_fuel"
    from that(2) obtain u where u: "fmlookup m key = Some u" by (auto simp: fmlookup_dom'_iff)
    show False
    proof (cases "key = ''children''")
      case True
      with e u obtain cs where "u = JObj cs" "try_fold (add_child (walk_group n) cs) (fm_keys cs) iw = Inl Walk_fuel"
        by (cases u) (auto simp: group_key_def)
      then show False using child that u True by (metis try_fold_never)
    next
      case False
      with e u obtain hs where "try_fold (add_host name hs) (fm_keys hs) iw = Inl Walk_fuel"
        by (cases u) (auto simp: group_key_def Let_def split: if_splits option.splits)
      then show False
        by (rule try_fold_never) (auto simp: add_host_def Let_def split: prod.splits option.splits)
    qed
  qed
  show ?case
  proof (cases v)
    case (JObj m)
    then have "try_fold (group_key (walk_group n) name m) (fm_keys m) iw \<noteq> Inl Walk_fuel" for iw
      using key by (metis try_fold_never)
    then show ?thesis using JObj by (auto simp: Let_def split: sum.splits)
  qed (auto simp: Let_def)
qed simp

lemma walk_roots_collect:
  assumes "walk_roots root = Inr w"
    and step: "\<And>n v k w w'. fmlookup root n = Some v \<Longrightarrow> walk_group k n v w = Inr w' \<Longrightarrow> m w' = m w \<union> D n v"
    and start: "m \<lparr>wk_groups = fmempty, wk_memberships = fmempty, wk_host_vars = fmempty\<rparr> = {}"
  shows "m w = {p. \<exists>n v. fmlookup root n = Some v \<and> p \<in> D n v}"
proof -
  have "m w = m \<lparr>wk_groups = fmempty, wk_memberships = fmempty, wk_host_vars = fmempty\<rparr>
      \<union> (\<Union>n \<in> set (fm_keys root). D n (the (fmlookup root n)))"
  proof (rule try_fold_collects [where m = m and d = "\<lambda>n. D n (the (fmlookup root n))"])
    show "try_fold (\<lambda>name w. walk_group (Suc (json_depth (JObj root))) name (the (fmlookup root name)) w) (fm_keys root)
        \<lparr>wk_groups = fmempty, wk_memberships = fmempty, wk_host_vars = fmempty\<rparr> = Inr w"
      using assms(1) by (simp only: walk_roots_def)
  next
    fix n w w' assume "n \<in> set (fm_keys root)"
      and ok: "walk_group (Suc (json_depth (JObj root))) n (the (fmlookup root n)) w = Inr w'"
    then have "fmlookup root n = Some (the (fmlookup root n))" by (auto simp: fmlookup_dom'_iff)
    from step [OF this ok] show "m w' = m w \<union> D n (the (fmlookup root n))" .
  qed
  moreover have "(\<Union>n \<in> set (fm_keys root). D n (the (fmlookup root n))) = {p. \<exists>n v. fmlookup root n = Some v \<and> p \<in> D n v}"
    by (simp add: set_eq_iff Bex_def fmlookup_fmdom') (metis option.sel option.distinct(1) not_None_eq)
  ultimately show ?thesis by (simp add: start)
qed

lemma walk_roots_collects:
  assumes run: "walk_roots root = Inr w"
  shows "fmdom' (wk_groups w) = {g. \<exists>n v. fmlookup root n = Some v \<and> mentions n v g}"
    and "fmdom' (wk_memberships w) = {h. \<exists>n v g. fmlookup root n = Some v \<and> declares ''hosts'' n v g h}"
    and "(\<And>n v. fmlookup root n = Some v \<Longrightarrow> \<not> self_nested n v) \<Longrightarrow>
      listed gi_hosts w = {(g, x). \<exists>n v. fmlookup root n = Some v \<and> declares ''hosts'' n v g x}"
    and "(\<And>n v. fmlookup root n = Some v \<Longrightarrow> \<not> self_nested n v) \<Longrightarrow>
      listed gi_children w = {(g, x). \<exists>n v. fmlookup root n = Some v \<and> declares ''children'' n v g x}"
proof -
  show "fmdom' (wk_groups w) = {g. \<exists>n v. fmlookup root n = Some v \<and> mentions n v g}"
    using walk_roots_collect [OF run, of "\<lambda>w. fmdom' (wk_groups w)" "\<lambda>n v. {g. mentions n v g}"] walk_group_domains(1)
    by simp
  show "fmdom' (wk_memberships w) = {h. \<exists>n v g. fmlookup root n = Some v \<and> declares ''hosts'' n v g h}"
    using walk_roots_collect [OF run, of "\<lambda>w. fmdom' (wk_memberships w)" "\<lambda>n v. {h. \<exists>g. declares ''hosts'' n v g h}"]
      walk_group_domains(2) by simp
  assume ns: "\<And>n v. fmlookup root n = Some v \<Longrightarrow> \<not> self_nested n v"
  show "listed gi_hosts w = {(g, x). \<exists>n v. fmlookup root n = Some v \<and> declares ''hosts'' n v g x}"
    using walk_roots_collect [OF run, of "listed gi_hosts" "\<lambda>n v. {(g, x). declares ''hosts'' n v g x}"]
      walk_group_listed(1) [OF _ ns] by (simp add: listed_def) blast
  show "listed gi_children w = {(g, x). \<exists>n v. fmlookup root n = Some v \<and> declares ''children'' n v g x}"
    using walk_roots_collect [OF run, of "listed gi_children" "\<lambda>n v. {(g, x). declares ''children'' n v g x}"]
      walk_group_listed(2) [OF _ ns] by (simp add: listed_def) blast
qed

text \<open>The variable names a host is given in the inventory file itself.\<close>

inductive gives :: "string \<Rightarrow> json \<Rightarrow> string \<Rightarrow> string \<Rightarrow> bool" where
  here: "fmlookup m ''hosts'' = Some (JObj hs) \<Longrightarrow> fmlookup hs h = Some (JObj vs) \<Longrightarrow> k \<in> fmdom' vs
    \<Longrightarrow> gives name (JObj m) h k"
| below: "fmlookup m ''children'' = Some (JObj cs) \<Longrightarrow> fmlookup cs c = Some v \<Longrightarrow> gives c v h k
    \<Longrightarrow> gives name (JObj m) h k"

inductive_simps gives_obj: "gives name (JObj m) h k"
inductive_simps gives_null: "gives name JNull h k"

definition given :: "walk_state \<Rightarrow> (string \<times> string) set" where
  "given w = {(h, k). \<exists>vs. fmlookup (wk_host_vars w) h = Some vs \<and> k \<in> fmdom' vs}"

lemma add_host_given:
  assumes "add_host name hosts h iw = Inr iw'" and "h \<in> fmdom' hosts"
  shows "given (snd iw') = given (snd iw) \<union> {(h, k) | k. \<exists>vs. fmlookup hosts h = Some (JObj vs) \<and> k \<in> fmdom' vs}"
proof -
  obtain i w where iw: "iw = (i, w)" by (cases iw)
  obtain u vs where u: "fmlookup hosts h = Some u" "yaml_vars u = Some vs"
    "wk_host_vars (snd iw') = fm_or_default fmempty (\<lambda>old. old ++\<^sub>f vs) h (wk_host_vars w)"
    using assms by (auto simp: add_host_def Let_def iw fmlookup_dom'_iff split: if_splits option.splits)
  have "fmdom' vs = {k. \<exists>vs. u = JObj vs \<and> k \<in> fmdom' vs}"
    using u(2) by (cases u) (auto simp: yaml_vars_def)
  then show ?thesis unfolding given_def iw
    by (auto simp: u(1,3) split: option.splits if_splits)
qed

lemma walk_group_given:
  assumes "walk_group n name v w = Inr w'"
  shows "given w' = given w \<union> {(h, k). gives name v h k}"
  using assms
proof (induction n arbitrary: name v w w')
  case (Suc n)
  from Suc.prems show ?case
  proof (cases rule: walk_groupE)
    case (obj m i w0 i' w1)
    have "given (snd (i', w1)) = given (snd (i, w0)) \<union>
        {p. (\<exists>xs x. fmlookup m ''hosts'' = Some (JObj xs) \<and> x \<in> fmdom' xs
              \<and> p \<in> {(x, k) | k. \<exists>hs vs. fmlookup m ''hosts'' = Some (JObj hs) \<and> fmlookup hs x = Some (JObj vs) \<and> k \<in> fmdom' vs})
          \<or> (\<exists>cs c v. fmlookup m ''children'' = Some (JObj cs) \<and> fmlookup cs c = Some v \<and> p \<in> {(h, k). gives c v h k})}"
      by (rule group_keys_collect [OF obj(3)]) (auto simp: add_host_given Suc.IH)
    moreover have "given w0 = given w" using obj(2) by (auto simp: given_def)
    moreover have "given w' = given w1" unfolding obj(4) by (simp add: given_def)
    moreover have "{(h, k). gives name v h k} =
        {p. (\<exists>xs x. fmlookup m ''hosts'' = Some (JObj xs) \<and> x \<in> fmdom' xs
              \<and> p \<in> {(x, k) | k. \<exists>hs vs. fmlookup m ''hosts'' = Some (JObj hs) \<and> fmlookup hs x = Some (JObj vs) \<and> k \<in> fmdom' vs})
          \<or> (\<exists>cs c v. fmlookup m ''children'' = Some (JObj cs) \<and> fmlookup cs c = Some v \<and> p \<in> {(h, k). gives c v h k})}"
      unfolding obj(1) gives_obj by (auto simp: fmlookup_dom'_iff)
    ultimately show ?thesis by simp
  next
    case (null i w0)
    then show ?thesis by (auto simp: gives_null given_def)
  qed
qed simp

lemma walk_roots_given:
  assumes "walk_roots root = Inr w"
  shows "given w = {(h, k). \<exists>n v. fmlookup root n = Some v \<and> gives n v h k}"
  using walk_roots_collect [OF assms, of given "\<lambda>n v. {(h, k). gives n v h k}"] walk_group_given
  by (simp add: given_def) blast

section \<open>Vars files\<close>

text \<open>The value the last of some files that sets a variable gives it.\<close>

fun last_set :: "(string \<Rightarrow> yaml_error + json) \<Rightarrow> (string \<times> string) list \<Rightarrow> string \<Rightarrow> json option" where
  "last_set yaml [] k = None"
| "last_set yaml (part # parts) k =
     (case last_set yaml parts k of
        Some v \<Rightarrow> Some v
      | None \<Rightarrow> (case yaml (snd part) of Inr (JObj m) \<Rightarrow> fmlookup m k | _ \<Rightarrow> None))"

lemma merge_vars_files:
  assumes "try_fold (merge_vars_file yaml kind) parts vars = Inr vars'"
  shows "fmlookup vars' k = (case last_set yaml parts k of None \<Rightarrow> fmlookup vars k | Some v \<Rightarrow> Some v)"
  using assms
proof (induction parts arbitrary: vars)
  case (Cons part parts)
  then obtain m where m: "merge_vars_file yaml kind part vars = Inr m" "try_fold (merge_vars_file yaml kind) parts m = Inr vars'"
    unfolding try_fold_cons by blast
  then obtain u fv where u: "yaml (snd part) = Inr u" "yaml_vars u = Some fv" "m = vars ++\<^sub>f fv"
    by (auto simp: merge_vars_file_def Let_def split: sum.splits option.splits)
  have "fmlookup fv k = (case u of JObj m \<Rightarrow> fmlookup m k | _ \<Rightarrow> None)"
    using u(2) by (cases u) (auto simp: yaml_vars_def)
  moreover have "fmlookup m k = (case fmlookup fv k of None \<Rightarrow> fmlookup vars k | Some v \<Rightarrow> Some v)"
    unfolding u(3) by (auto split: option.split simp: fmlookup_dom_iff)
  ultimately show ?case using Cons.IH [OF m(2)] u(1) by (auto split: option.splits json.splits)
qed simp

lemma parse_vars_files_run:
  assumes "try_fold (\<lambda>name acc. case try_fold f (the (fmlookup files name)) fmempty of
      Inl e \<Rightarrow> Inl e | Inr vars \<Rightarrow> Inr (fmupd name vars acc)) ns p = Inr p'"
    and "\<And>name vars. fmlookup p name = Some vars \<Longrightarrow> try_fold f (the (fmlookup files name)) fmempty = Inr vars"
  shows "fmdom' p' = set ns \<union> fmdom' p"
    and "fmlookup p' name = Some vars \<Longrightarrow> try_fold f (the (fmlookup files name)) fmempty = Inr vars"
proof -
  have "fmdom' p' = set ns \<union> fmdom' p
      \<and> (fmlookup p' name = Some vars \<longrightarrow> try_fold f (the (fmlookup files name)) fmempty = Inr vars)"
    using assms
  proof (induction ns arbitrary: p)
    case (Cons n ns)
    from Cons.prems(1) obtain vs where v: "try_fold f (the (fmlookup files n)) fmempty = Inr vs"
      by (auto split: sum.splits)
    have p: "try_fold f (the (fmlookup files name)) fmempty = Inr vars"
      if "fmlookup (fmupd n vs p) name = Some vars" for name vars
      using that v Cons.prems(2) by (cases "n = name") simp_all
    from Cons.prems(1) v have "try_fold (\<lambda>name acc. case try_fold f (the (fmlookup files name)) fmempty of
        Inl e \<Rightarrow> Inl e | Inr vars \<Rightarrow> Inr (fmupd name vars acc)) ns (fmupd n vs p) = Inr p'" by simp
    from Cons.IH [OF this p] show ?case by simp
  qed simp
  then show "fmdom' p' = set ns \<union> fmdom' p"
    and "fmlookup p' name = Some vars \<Longrightarrow> try_fold f (the (fmlookup files name)) fmempty = Inr vars"
    by blast+
qed

lemma parse_vars_files_lookup:
  assumes "parse_vars_files yaml kind files = Inr p"
  shows "fmdom' p = fmdom' files"
    and "fmlookup p name = Some vars \<Longrightarrow> fmlookup files name = Some parts \<Longrightarrow> fmlookup vars k = last_set yaml parts k"
proof -
  note run = parse_vars_files_run [OF assms [unfolded parse_vars_files_def]]
  show "fmdom' p = fmdom' files" using run(1) by simp
  assume "fmlookup p name = Some vars" "fmlookup files name = Some parts"
  with run(2) [where name = name and vars = vars] have "try_fold (merge_vars_file yaml kind) parts fmempty = Inr vars" by simp
  from merge_vars_files [OF this] show "fmlookup vars k = last_set yaml parts k" by (auto split: option.splits)
qed

lemma vaulted_file_fails:
  assumes "fmlookup files name = Some parts" and "part \<in> set parts" and "vaulted (snd part)"
  shows "\<exists>e. parse_vars_files yaml kind files = Inl e"
  unfolding parse_vars_files_def
proof (rule try_fold_fails [of name])
  show "name \<in> set (fm_keys files)" using assms(1) by (simp add: fmlookup_fmdom')
  have "\<exists>e. merge_vars_file yaml kind part vars = Inl e" for vars
    using assms(3) by (simp add: merge_vars_file_def check_not_vaulted_def)
  from try_fold_fails [where f = "merge_vars_file yaml kind" and s = fmempty, OF assms(2) this] assms(1)
  show "\<exists>e. (case try_fold (merge_vars_file yaml kind) (the (fmlookup files name)) fmempty of
      Inl e \<Rightarrow> Inl e | Inr vars \<Rightarrow> Inr (fmupd name vars s)) = Inl e" for s
    by (metis option.sel sum.case(1))
qed

lemma parse_vars_files_fuel: "parse_vars_files yaml kind files \<noteq> Inl Walk_fuel"
proof
  assume "parse_vars_files yaml kind files = Inl Walk_fuel"
  then show False unfolding parse_vars_files_def
  proof (rule try_fold_never)
    fix name s
    have "try_fold (merge_vars_file yaml kind) parts fmempty \<noteq> Inl Walk_fuel" for parts
      by (rule notI, erule try_fold_never)
        (auto simp: merge_vars_file_def check_not_vaulted_def Let_def split: sum.splits option.splits if_splits)
    then show "(case try_fold (merge_vars_file yaml kind) (the (fmlookup files name)) fmempty of
      Inl e \<Rightarrow> Inl e | Inr vars \<Rightarrow> Inr (fmupd name vars s)) \<noteq> Inl Walk_fuel"
      by (auto split: sum.split)
  qed
qed

section \<open>The dataset\<close>

lemma parse_staticE:
  assumes "parse_static yaml inp = Inr (d, ws)"
  obtains root group_files host_files w where
    "\<not> vaulted (si_inventory inp)" and "yaml (si_inventory inp) = Inr (JObj root)"
    and "parse_vars_files yaml ''group_vars'' (si_group_vars inp) = Inr group_files"
    and "parse_vars_files yaml ''host_vars'' (si_host_vars inp) = Inr host_files"
    and "walk_roots root = Inr w"
    and "hostvars d = fmmap_keys (\<lambda>host _. host_own_vars w host_files host) (wk_memberships w)"
    and "groups d = fmfilter (\<lambda>name. name \<noteq> ''ungrouped'') (fmmap_keys (group_of_info group_files) (wk_groups w))"
proof -
  from assms obtain v where v: "\<not> vaulted (si_inventory inp)" "yaml (si_inventory inp) = Inr v" "as_object v \<noteq> None"
    by (auto simp: parse_static_def check_not_vaulted_def split: if_splits sum.splits option.splits)
  then obtain root where "v = JObj root" by (cases v) auto
  with v assms that show thesis
    by (auto simp: parse_static_def check_not_vaulted_def split: sum.splits)
qed


text \<open>
  Variables stay where they are declared: the names a host ends with are exactly those the inventory file gives it
  and those its own vars files set (a group's variables are not copied onto its members), and in a host as in a group
  the last of its vars files that sets a variable decides it, over the inventory file.
\<close>

theorem static_vars_stay_where_declared:
  assumes "parse_static yaml inp = Inr (d, ws)" and "yaml (si_inventory inp) = Inr (JObj root)"
  shows "(\<forall>h vs. fmlookup (hostvars d) h = Some vs \<longrightarrow>
      fmdom' vs = {k. (\<exists>n v. fmlookup root n = Some v \<and> gives n v h k)
        \<or> (\<exists>parts. fmlookup (si_host_vars inp) h = Some parts \<and> last_set yaml parts k \<noteq> None)}
      \<and> (\<forall>parts k v. fmlookup (si_host_vars inp) h = Some parts \<and> last_set yaml parts k = Some v \<longrightarrow> fmlookup vs k = Some v))
    \<and> (\<forall>g gr parts k v. fmlookup (groups d) g = Some gr \<and> fmlookup (si_group_vars inp) g = Some parts
        \<and> last_set yaml parts k = Some v \<longrightarrow> (\<exists>vs. g_vars gr = Some vs \<and> fmlookup vs k = Some v))"
  using assms(1)
proof (cases rule: parse_staticE)
  case (1 root' group_files host_files w)
  then have r: "root' = root" using assms(2) by simp
  note files = parse_vars_files_lookup [OF 1(4)] and group_parts = parse_vars_files_lookup [OF 1(3)]
  have "(\<forall>parts k v. fmlookup (si_host_vars inp) h = Some parts \<and> last_set yaml parts k = Some v \<longrightarrow> fmlookup vs k = Some v)
      \<and> fmdom' vs = {k. (\<exists>n v. fmlookup root n = Some v \<and> gives n v h k)
        \<or> (\<exists>parts. fmlookup (si_host_vars inp) h = Some parts \<and> last_set yaml parts k \<noteq> None)}"
    if h: "fmlookup (hostvars d) h = Some vs" for h vs
  proof -
    let ?inline = "case fmlookup (wk_host_vars w) h of None \<Rightarrow> fmempty | Some vs \<Rightarrow> vs"
    have vs: "vs = host_own_vars w host_files h" using h unfolding 1(6) by auto
    have inline: "fmdom' ?inline = {k. \<exists>n v. fmlookup root n = Some v \<and> gives n v h k}"
    proof -
      have "fmdom' ?inline = {k. (h, k) \<in> given w}" by (auto simp: given_def split: option.split)
      then show ?thesis using walk_roots_given [OF 1(5) [unfolded r]] by simp
    qed
    show ?thesis
    proof (cases "fmlookup host_files h")
      case None
      then have "fmlookup (si_host_vars inp) h = None" using files(1) by (metis fmlookup_fmdom')
      then show ?thesis using vs None inline by (simp add: host_own_vars_def)
    next
      case (Some fv)
      then obtain parts where p: "fmlookup (si_host_vars inp) h = Some parts"
        using files(1) by (metis fmlookup_dom'_iff)
      have k: "fmlookup fv k = last_set yaml parts k" for k using files(2) [OF Some p] .
      have "vs = ?inline ++\<^sub>f fv" using vs Some by (simp add: host_own_vars_def)
      then show ?thesis using inline k p by (auto simp: fmlookup_dom'_iff fmlookup_dom_iff)
    qed
  qed
  moreover have "\<exists>vs. g_vars gr = Some vs \<and> fmlookup vs k = Some v"
    if g: "fmlookup (groups d) g = Some gr" and p: "fmlookup (si_group_vars inp) g = Some parts" and set_to: "last_set yaml parts k = Some v"
    for g gr parts k v
  proof -
    obtain fv where fv: "fmlookup group_files g = Some fv" using group_parts(1) p by (metis fmlookup_dom'_iff)
    have k: "fmlookup fv k = Some v" using group_parts(2) [OF fv p] set_to by simp
    obtain i where i: "gr = group_of_info group_files g i" using g unfolding 1(7) by (auto split: if_splits)
    have "fmlookup (gi_vars i ++\<^sub>f fv) k = Some v" using k by (auto simp: fmlookup_dom_iff)
    moreover from this have "gi_vars i ++\<^sub>f fv \<noteq> fmempty" by force
    ultimately show ?thesis unfolding i by (simp add: group_of_info_def fv Let_def)
  qed
  ultimately show ?thesis by blast
qed

text \<open>
  Nothing encrypted is read as data and nothing unsupported is guessed: a vaulted inventory or vars file, or a host
  named by a range, makes the parse fail; and a failure is always one the reader reports, the walk itself never gives up.
\<close>

theorem static_inventory_refuses:
  shows "(vaulted (si_inventory inp)
      \<or> (\<exists>name parts part. (fmlookup (si_group_vars inp) name = Some parts \<or> fmlookup (si_host_vars inp) name = Some parts)
           \<and> part \<in> set parts \<and> vaulted (snd part))
      \<or> (\<exists>root n v g h. yaml (si_inventory inp) = Inr (JObj root) \<and> fmlookup root n = Some v
           \<and> declares ''hosts'' n v g h \<and> CHR ''['' \<in> set h)
     \<longrightarrow> (\<exists>e. parse_static yaml inp = Inl e))
    \<and> parse_static yaml inp \<noteq> Inl Walk_fuel"
proof -
  have "walk_roots root \<noteq> Inl Walk_fuel" for root
  proof
    assume "walk_roots root = Inl Walk_fuel"
    then show False unfolding walk_roots_def
    proof (rule try_fold_never)
      fix n w assume "n \<in> set (fm_keys root)"
      then obtain v where "fmlookup root n = Some v" by (auto simp: fmlookup_dom'_iff)
      from json_depth_entry [OF this] this
      show "walk_group (Suc (json_depth (JObj root))) n (the (fmlookup root n)) w \<noteq> Inl Walk_fuel"
        by (intro walk_group_fuel) (simp del: json_depth.simps)
    qed
  qed
  then have "parse_static yaml inp \<noteq> Inl Walk_fuel"
    using parse_vars_files_fuel
    by (auto simp: parse_static_def check_not_vaulted_def split: sum.splits option.splits)
  moreover have False
    if ok: "parse_static yaml inp = Inr (d, ws)"
      and bad: "vaulted (si_inventory inp)
      \<or> (\<exists>name parts part. (fmlookup (si_group_vars inp) name = Some parts \<or> fmlookup (si_host_vars inp) name = Some parts)
           \<and> part \<in> set parts \<and> vaulted (snd part))
      \<or> (\<exists>root n v g h. yaml (si_inventory inp) = Inr (JObj root) \<and> fmlookup root n = Some v
           \<and> declares ''hosts'' n v g h \<and> CHR ''['' \<in> set h)" for d ws
    using ok
  proof (cases rule: parse_staticE)
    case (1 root group_files host_files w)
    have "CHR ''['' \<notin> set h" if "fmlookup root n = Some v" "declares ''hosts'' n v g h" for n v g h
    proof -
      have "{} = {p. \<exists>n v. fmlookup root n = Some v \<and> p \<in> {h. CHR ''['' \<in> set h \<and> (\<exists>g. declares ''hosts'' n v g h)}}"
        by (rule walk_roots_collect [OF 1(5), where m = "\<lambda>_. {}"]) (use walk_group_no_range in blast, simp)
      then show ?thesis using that by blast
    qed
    with bad 1(1,2) vaulted_file_fails [of "si_group_vars inp" _ _ _ yaml "''group_vars''"]
      vaulted_file_fails [of "si_host_vars inp" _ _ _ yaml "''host_vars''"] 1(3,4)
    show False by fastforce
  qed
  ultimately show ?thesis by (metis surj_pair sum.exhaust_sel)
qed

section \<open>Witnesses and two losses\<close>

definition sample_tree :: "(string, json) fmap" where
  "sample_tree = fmap_of_list [(''all'', JObj (fmap_of_list
     [(''hosts'', JObj (fmap_of_list [(''a'', JNull)])),
      (''children'', JObj (fmap_of_list [(''web'', JObj (fmap_of_list
        [(''hosts'', JObj (fmap_of_list [(''b'', JObj (fmap_of_list [(''port'', JStr ''80'')]))])),
         (''vars'', JObj (fmap_of_list [(''ntp'', JStr ''n'')]))]))]))]))]"

definition sample_files :: static_input where
  "sample_files = \<lparr>si_inventory = ''inv'', si_group_vars = fmap_of_list [(''web'', [(''web.yaml'', ''vars'')])],
     si_host_vars = fmap_of_list [(''b'', [(''b.yaml'', ''vars'')])]\<rparr>"

definition sample_yaml :: "string \<Rightarrow> yaml_error + json" where
  "sample_yaml t = (if t = ''inv'' then Inr (JObj sample_tree) else Inr (JObj (fmap_of_list [(''ntp'', JStr ''m'')])))"

lemma sample_parses:
  obtains d ws where "parse_static sample_yaml sample_files = Inr (d, ws)"
    and "fmdom' (hostvars d) = {''a'', ''b''}" and "fmdom' (groups d) = {''all'', ''web''}"
proof -
  have "(case parse_static sample_yaml sample_files of Inl _ \<Rightarrow> False
      | Inr (d, ws) \<Rightarrow> fmdom' (hostvars d) = {''a'', ''b''} \<and> fmdom' (groups d) = {''all'', ''web''})"
    by code_simp
  then show thesis using that by (auto split: sum.splits prod.splits)
qed

lemma sample_not_nested: "fmlookup sample_tree n = Some v \<Longrightarrow> \<not> self_nested n v"
  by (auto simp: sample_tree_def self_nested_obj mentions_obj split: if_splits)


theorem static_vars_stay_where_declared_witness:
  "\<exists>d ws gr vs. parse_static sample_yaml sample_files = Inr (d, ws) \<and> fmlookup (groups d) ''web'' = Some gr
     \<and> g_vars gr = Some vs \<and> fmlookup vs ''ntp'' = Some (JStr ''m'')"
proof -
  obtain d ws where p: "parse_static sample_yaml sample_files = Inr (d, ws)" "fmdom' (groups d) = {''all'', ''web''}"
    by (rule sample_parses)
  have y: "sample_yaml (si_inventory sample_files) = Inr (JObj sample_tree)"
    and f: "fmlookup (si_group_vars sample_files) ''web'' = Some [(''web.yaml'', ''vars'')]"
    and l: "last_set sample_yaml [(''web.yaml'', ''vars'')] ''ntp'' = Some (JStr ''m'')"
    by (simp_all add: sample_yaml_def sample_files_def)
  from p(2) obtain gr where "fmlookup (groups d) ''web'' = Some gr" by (metis fmlookup_dom'_iff insertCI)
  moreover from static_vars_stay_where_declared [OF p(1) y]
  have "\<forall>g gr parts k v. fmlookup (groups d) g = Some gr \<and> fmlookup (si_group_vars sample_files) g = Some parts
      \<and> last_set sample_yaml parts k = Some v \<longrightarrow> (\<exists>vs. g_vars gr = Some vs \<and> fmlookup vs k = Some v)" by (rule conjunct2)
  ultimately have "\<exists>vs. g_vars gr = Some vs \<and> fmlookup vs ''ntp'' = Some (JStr ''m'')" using f l by blast
  with p(1) \<open>fmlookup (groups d) ''web'' = Some gr\<close> show ?thesis by blast
qed

theorem static_inventory_refuses_witness:
  "\<exists>e. parse_static sample_yaml
     (sample_files\<lparr>si_host_vars := fmap_of_list [(''b'', [(''b.yaml'', ''$ANSIBLE_VAULT;1.1'')])]\<rparr>) = Inl e"
proof -
  let ?inp = "sample_files\<lparr>si_host_vars := fmap_of_list [(''b'', [(''b.yaml'', ''$ANSIBLE_VAULT;1.1'')])]\<rparr>"
  have "fmlookup (si_host_vars ?inp) ''b'' = Some [(''b.yaml'', ''$ANSIBLE_VAULT;1.1'')]" by simp
  moreover have "vaulted (snd (''b.yaml'', ''$ANSIBLE_VAULT;1.1''))" by code_simp
  ultimately show ?thesis
    using conjunct1 [OF static_inventory_refuses [where inp = ?inp and yaml = sample_yaml]] by (meson list.set_intros(1))
qed

text \<open>
  A group declared again inside itself loses what the inner declaration lists: the outer one, held out of the map, is put
  back over it. The host stays in the dataset, in no group.
\<close>

lemma group_inside_itself_loses_hosts:
  "let tree = fmap_of_list [(''web'', JObj (fmap_of_list [(''children'', JObj (fmap_of_list
      [(''web'', JObj (fmap_of_list [(''hosts'', JObj (fmap_of_list [(''h'', JNull)]))]))]))]))]
   in case parse_static (\<lambda>_. Inr (JObj tree)) \<lparr>si_inventory = '''', si_group_vars = fmempty, si_host_vars = fmempty\<rparr> of
        Inl _ \<Rightarrow> False
      | Inr (d, ws) \<Rightarrow> fmdom' (hostvars d) = {''h''} \<and> map_option g_hosts (fmlookup (groups d) ''web'') = Some [] \<and> ws = []"
  by code_simp

text \<open>The vars of \<open>group_vars/all\<close> reach nothing, and nothing is said, when the inventory names no group \<open>all\<close>.\<close>

lemma vars_for_all_dropped:
  "let tree = fmap_of_list [(''web'', JObj (fmap_of_list [(''hosts'', JObj (fmap_of_list [(''h'', JNull)]))]))];
       yaml = \<lambda>t. if t = ''inv'' then Inr (JObj tree) else Inr (JObj (fmap_of_list [(''ntp'', JStr ''m'')]))
   in case parse_static yaml \<lparr>si_inventory = ''inv'', si_group_vars = fmap_of_list [(''all'', [(''all.yaml'', ''vars'')])],
          si_host_vars = fmempty\<rparr> of
        Inl _ \<Rightarrow> False
      | Inr (d, ws) \<Rightarrow> fmlookup (groups d) ''all'' = None \<and> fmlookup (hostvars d) ''h'' = Some fmempty
          \<and> map_option g_vars (fmlookup (groups d) ''web'') = Some None \<and> ws = []"
  by code_simp

end
