(* ===== verification/Host_Search.thy ===== *)
theory Host_Search
  imports Config
begin

text \<open>
  Where is this host: \<open>src/src/application/host_search.rs\<close> and the handler \<open>search_hosts\<close> of
  \<open>adapters/in/http/host_search.rs\<close>. The lemmas say which hosts and sources a search names, in which order and how many,
  and that the endpoints named are those whose output source_holds the host, however the search found that out.
\<close>

section \<open>The search\<close>

definition MIN_QUERY :: nat where "MIN_QUERY = 2"

record host_source =
  hs_source_id :: string
  hs_age_seconds :: nat

record host_match =
  hm_host :: string
  hm_sources :: "host_source list"
  hm_endpoints :: "string list"

record search_result =
  sr_matches :: "host_match list"
  sr_total :: nat

record catalog =
  cg_sources :: sources
  cg_views :: "(string, view) fmap"
  cg_endpoints :: "(string, endpoint) fmap"
  cg_cache :: mem_cache
  cg_scopes :: scope_registry

definition rank :: "string \<Rightarrow> string \<Rightarrow> nat" where
  "rank name needle = (if name = needle then 0 else if starts_with name needle then 1 else 2)"

definition name_matches :: "string \<Rightarrow> string \<Rightarrow> bool" where
  "name_matches needle host \<longleftrightarrow> str_contains (to_lowercase host) needle"

type_synonym found_hosts = "(string, host_source list) fmap"
type_synonym held_hosts = "(string, string set) fmap"

definition note_found :: "string \<Rightarrow> nat \<Rightarrow> string \<Rightarrow> found_hosts \<Rightarrow> found_hosts" where
  "note_found i age host =
     fm_or_default [] (\<lambda>ss. ss @ [\<lparr>hs_source_id = i, hs_age_seconds = age\<rparr>]) host"

definition scan_source ::
  "instant \<Rightarrow> string \<Rightarrow> mem_cache \<Rightarrow> (string \<Rightarrow> bool) \<Rightarrow> string \<Rightarrow> found_hosts \<times> held_hosts \<Rightarrow> found_hosts \<times> held_hosts" where
  "scan_source now needle cache may_read i = (\<lambda>(found, held).
     case mc_get cache i of
       None \<Rightarrow> (found, held)
     | Some entry \<Rightarrow>
         let matching = filter (name_matches needle) (fm_keys (hostvars (e_dataset entry)))
         in (if may_read i then fold (note_found i (age_seconds now entry)) matching found else found,
             fmupd i (set matching) held))"

definition scan_view ::
  "instant \<Rightarrow> string \<Rightarrow> catalog \<Rightarrow> string \<Rightarrow> found_hosts \<Rightarrow> found_hosts" where
  "scan_view now needle c i found =
     (let snap = snapshot (cg_cache c) (cg_sources c) (cg_scopes c) i (the (fmlookup (cg_views c) i))
      in fold (note_found i (view_age_seconds now snap)) (filter (name_matches needle) (snd (view_hosts snap))) found)"

definition match_order :: "string \<Rightarrow> string \<Rightarrow> string \<Rightarrow> string \<Rightarrow> bool" where
  "match_order needle typed a b \<longleftrightarrow>
     (let la = to_lowercase a; lb = to_lowercase b
      in if rank la needle \<noteq> rank lb needle then rank la needle < rank lb needle
         else if (a = typed) \<noteq> (b = typed) then a = typed
         else if la \<noteq> lb then la < lb
         else a \<le> b)"

text \<open>\<open>sort_by\<close>, by insertion.\<close>

fun insert_by :: "('a \<Rightarrow> 'a \<Rightarrow> bool) \<Rightarrow> 'a \<Rightarrow> 'a list \<Rightarrow> 'a list" where
  "insert_by le x [] = [x]"
| "insert_by le x (y # ys) = (if le x y then x # y # ys else y # insert_by le x ys)"

definition sort_by :: "('a \<Rightarrow> 'a \<Rightarrow> bool) \<Rightarrow> 'a list \<Rightarrow> 'a list" where
  "sort_by le xs = foldr (insert_by le) xs []"

definition source_holds :: "held_hosts \<Rightarrow> string \<Rightarrow> string \<Rightarrow> bool" where
  "source_holds held i host \<longleftrightarrow> (case fmlookup held i of None \<Rightarrow> False | Some hosts \<Rightarrow> host \<in> hosts)"

text \<open>The endpoints a search may name: those the caller may run, with data from every source.\<close>

definition servable :: "catalog \<Rightarrow> (string \<Rightarrow> bool) \<Rightarrow> string list" where
  "servable c may_run =
     filter (\<lambda>i. list_all (\<lambda>s. mc_get (cg_cache c) s \<noteq> None) (ep_source_ids (the (fmlookup (cg_endpoints c) i))))
       (filter may_run (fm_keys (cg_endpoints c)))"

definition endpoint_datasets :: "mem_cache \<Rightarrow> string list \<Rightarrow> datasets" where
  "endpoint_datasets cache ids =
     fold (\<lambda>s ds. case mc_get cache s of None \<Rightarrow> ds | Some e \<Rightarrow> fmupd s (e_dataset e) ds) ids fmempty"

definition kept_by_settings where
  "kept_by_settings number show_json c i =
     (let e = the (fmlookup (cg_endpoints c) i)
      in if ep_output e = None \<or> ep_config e = fmempty then None
         else (let ds = endpoint_datasets (cg_cache c) (ep_source_ids e);
                   ds = (case ep_limit e of None \<Rightarrow> ds | Some l \<Rightarrow> apply_limit ds l)
               in Some (default_hosts number show_json ds (ep_config e))))"

definition reaches where
  "reaches number show_json c held host i \<longleftrightarrow>
     (case kept_by_settings number show_json c i of
        Some hs \<Rightarrow> host \<in> hs
      | None \<Rightarrow>
          (let e = the (fmlookup (cg_endpoints c) i)
           in case Option.bind (ep_limit e) by_hosts_from_inventory of
                Some limiting \<Rightarrow> source_holds held limiting host
              | None \<Rightarrow> list_ex (\<lambda>s. source_holds held s host) (ep_source_ids e)))"

definition search where
  "search number show_json now query limit c may_read may_run =
     (let needle = to_lowercase (trim query)
      in if length (utf8_chars needle) < MIN_QUERY then \<lparr>sr_matches = [], sr_total = 0\<rparr>
         else
           (let (found, held) = fold (scan_source now needle (cg_cache c) may_read) (fm_keys (cg_sources c)) (fmempty, fmempty);
                found = fold (scan_view now needle c) (filter may_read (fm_keys (cg_views c))) found;
                hosts = take limit (sort_by (match_order needle (trim query)) (fm_keys found))
            in \<lparr>sr_matches = map (\<lambda>h.
                  \<lparr>hm_host = h, hm_sources = the (fmlookup found h),
                   hm_endpoints = filter (reaches number show_json c held h) (servable c may_run)\<rparr>) hosts,
                sr_total = card (fmdom' found)\<rparr>))"

text \<open>The handler, from the permissions of the caller.\<close>

definition search_limit :: "nat option \<Rightarrow> nat" where
  "search_limit limit = max 1 (min 100 (case limit of None \<Rightarrow> 20 | Some n \<Rightarrow> n))"

definition search_hosts where
  "search_hosts number show_json now config cache scopes permissions q limit =
     search number show_json now q (search_limit limit)
       \<lparr>cg_sources = ac_sources config, cg_views = ac_views config, cg_endpoints = ac_endpoints config,
        cg_cache = cache, cg_scopes = scopes\<rparr>
       (allows_source permissions) (allows_endpoint permissions)"

section \<open>What was found\<close>

text \<open>Where a caller may see a host, in the order a result lists it: sources, then views.\<close>

definition source_sees :: "string \<Rightarrow> catalog \<Rightarrow> string \<Rightarrow> string \<Rightarrow> bool" where
  "source_sees needle c h i \<longleftrightarrow> name_matches needle h
     \<and> (case mc_get (cg_cache c) i of None \<Rightarrow> False | Some e \<Rightarrow> fmlookup (hostvars (e_dataset e)) h \<noteq> None)"

definition view_snap :: "catalog \<Rightarrow> string \<Rightarrow> view_snapshot" where
  "view_snap c i = snapshot (cg_cache c) (cg_sources c) (cg_scopes c) i (the (fmlookup (cg_views c) i))"

definition view_sees :: "string \<Rightarrow> catalog \<Rightarrow> string \<Rightarrow> string \<Rightarrow> bool" where
  "view_sees needle c h i \<longleftrightarrow> name_matches needle h \<and> serves (view_snap c i) h"

definition seen_in :: "instant \<Rightarrow> string \<Rightarrow> catalog \<Rightarrow> (string \<Rightarrow> bool) \<Rightarrow> string \<Rightarrow> host_source list" where
  "seen_in now needle c may_read h =
     map (\<lambda>i. \<lparr>hs_source_id = i, hs_age_seconds = age_seconds now (the (mc_get (cg_cache c) i))\<rparr>)
       (filter (\<lambda>i. may_read i \<and> source_sees needle c h i) (fm_keys (cg_sources c)))
     @ map (\<lambda>i. \<lparr>hs_source_id = i, hs_age_seconds = view_age_seconds now (view_snap c i)\<rparr>)
       (filter (\<lambda>i. may_read i \<and> view_sees needle c h i) (fm_keys (cg_views c)))"

definition listed_as :: "host_source list \<Rightarrow> host_source list option" where
  "listed_as ss = (if ss = [] then None else Some ss)"

lemma listed_as_append: "listed_as (xs @ ys) = (case listed_as xs of None \<Rightarrow> listed_as ys | Some _ \<Rightarrow> Some (xs @ ys))"
  by (simp add: listed_as_def)

lemma note_found_all:
  assumes "fmlookup found h = listed_as ss" and "distinct hs"
  shows "fmlookup (fold (note_found i age) hs found) h
    = listed_as (ss @ (if h \<in> set hs then [\<lparr>hs_source_id = i, hs_age_seconds = age\<rparr>] else []))"
  using assms
proof (induction hs arbitrary: found ss)
  case (Cons x hs)
  show ?case
  proof (cases "x = h")
    case True
    have "fmlookup (note_found i age x found) h = listed_as (ss @ [\<lparr>hs_source_id = i, hs_age_seconds = age\<rparr>])"
      using Cons.prems(1) True by (simp add: note_found_def listed_as_def split: if_splits)
    from Cons.IH [OF this] Cons.prems(2) True show ?thesis by simp
  next
    case False
    have "fmlookup (note_found i age x found) h = listed_as ss"
      using Cons.prems(1) False by (simp add: note_found_def)
    from Cons.IH [OF this] Cons.prems(2) False show ?thesis by simp
  qed
qed simp

lemma scan_sources_found:
  assumes "fmlookup found h = listed_as ss"
  shows "fmlookup (fst (fold (scan_source now needle (cg_cache c) may_read) ids (found, held))) h
    = listed_as (ss @ map (\<lambda>i. \<lparr>hs_source_id = i, hs_age_seconds = age_seconds now (the (mc_get (cg_cache c) i))\<rparr>)
        (filter (\<lambda>i. may_read i \<and> source_sees needle c h i) ids))"
  using assms
proof (induction ids arbitrary: found held ss)
  case (Cons i ids)
  let ?here = "if may_read i \<and> source_sees needle c h i
    then [\<lparr>hs_source_id = i, hs_age_seconds = age_seconds now (the (mc_get (cg_cache c) i))\<rparr>] else []"
  obtain found' held' where s: "scan_source now needle (cg_cache c) may_read i (found, held) = (found', held')"
    by (cases "scan_source now needle (cg_cache c) may_read i (found, held)")
  have "fmlookup found' h = listed_as (ss @ ?here)"
  proof (cases "mc_get (cg_cache c) i")
    case None
    then show ?thesis using s Cons.prems by (simp add: scan_source_def source_sees_def)
  next
    case (Some e)
    let ?hs = "filter (name_matches needle) (fm_keys (hostvars (e_dataset e)))"
    have "h \<in> set ?hs \<longleftrightarrow> source_sees needle c h i" using Some by (auto simp: source_sees_def fmlookup_dom'_iff)
    then show ?thesis using s Some Cons.prems note_found_all [OF Cons.prems, of ?hs i "age_seconds now e"]
      by (auto simp: scan_source_def Let_def)
  qed
  from Cons.IH [OF this, of held'] s show ?case by simp
qed simp

lemma scan_views_found:
  assumes "fmlookup found h = listed_as ss"
  shows "fmlookup (fold (scan_view now needle c) ids found) h
    = listed_as (ss @ map (\<lambda>i. \<lparr>hs_source_id = i, hs_age_seconds = view_age_seconds now (view_snap c i)\<rparr>)
        (filter (view_sees needle c h) ids))"
  using assms
proof (induction ids arbitrary: found ss)
  case (Cons i ids)
  let ?hs = "filter (name_matches needle) (snd (view_hosts (view_snap c i)))"
  let ?age = "view_age_seconds now (view_snap c i)"
  have wf: "wf_routing (view_snap c i)" unfolding view_snap_def by (rule snapshot_wf)
  have d: "distinct ?hs" using view_hosts_eq [OF wf] by simp
  have "h \<in> set ?hs \<longleftrightarrow> view_sees needle c h i" using view_hosts_set [OF wf] by (auto simp: view_sees_def)
  with note_found_all [OF Cons.prems d, of i ?age]
  have "fmlookup (scan_view now needle c i found) h
      = listed_as (ss @ (if view_sees needle c h i then [\<lparr>hs_source_id = i, hs_age_seconds = ?age\<rparr>] else []))"
    by (simp add: scan_view_def view_snap_def Let_def)
  from Cons.IH [OF this] show ?case by simp
qed simp

lemma scan_sources_held:
  "fmlookup (snd (fold (scan_source now needle (cg_cache c) may_read) ids (found, held))) i
    = (if i \<in> set ids \<and> mc_get (cg_cache c) i \<noteq> None then Some {h. source_sees needle c h i} else fmlookup held i)"
proof (induction ids arbitrary: found held)
  case (Cons j ids)
  obtain found' held' where s: "scan_source now needle (cg_cache c) may_read j (found, held) = (found', held')"
    by (cases "scan_source now needle (cg_cache c) may_read j (found, held)")
  then have "fmlookup held' i = (if i = j \<and> mc_get (cg_cache c) j \<noteq> None then Some {h. source_sees needle c h i} else fmlookup held i)"
    by (auto simp: scan_source_def source_sees_def Let_def fmlookup_dom'_iff split: option.splits)
  with Cons.IH [of found' held'] s show ?case by auto
qed simp

lemma utf8_nonempty: "MIN_QUERY \<le> length (utf8_chars s) \<Longrightarrow> s \<noteq> []"
  by (auto simp: MIN_QUERY_def)

section \<open>The order of the answer\<close>

lemma match_order_total: "match_order n t a b \<or> match_order n t b a"
  by (auto simp: match_order_def Let_def)

lemma match_order_trans: "match_order n t a b \<Longrightarrow> match_order n t b c \<Longrightarrow> match_order n t a c"
  by (auto simp: match_order_def Let_def split: if_splits)

lemma mset_insert_by [simp]: "mset (insert_by le x ys) = add_mset x (mset ys)"
  by (induction ys) auto

lemma mset_sort_by [simp]: "mset (sort_by le xs) = mset xs"
  by (induction xs) (simp_all add: sort_by_def)

lemma sort_by_set [simp]: "set (sort_by le xs) = set xs"
  by (metis mset_sort_by set_mset_mset)

lemma sort_by_distinct [simp]: "distinct (sort_by le xs) = distinct xs"
  by (metis mset_sort_by mset_eq_imp_distinct_iff)

lemma sort_by_length [simp]: "length (sort_by le xs) = length xs"
  by (metis mset_sort_by size_mset)

lemma insert_by_set: "set (insert_by le x ys) = insert x (set ys)"
  by (metis mset_insert_by set_mset_mset set_mset_add_mset_insert)

lemma sorted_insert_by:
  assumes total: "\<And>a b. le a b \<or> le b a" and trans: "\<And>a b c. le a b \<Longrightarrow> le b c \<Longrightarrow> le a c"
  shows "sorted_wrt le ys \<Longrightarrow> sorted_wrt le (insert_by le x ys)"
proof (induction ys)
  case (Cons y ys)
  show ?case
  proof (cases "le x y")
    case True
    then show ?thesis using Cons.prems trans by auto
  next
    case False
    then have "le y x" using total by blast
    then show ?thesis using Cons False by (auto simp: insert_by_set)
  qed
qed simp

lemma sorted_sort_by:
  assumes "\<And>a b. le a b \<or> le b a" and "\<And>a b c. le a b \<Longrightarrow> le b c \<Longrightarrow> le a c"
  shows "sorted_wrt le (sort_by le xs)"
  unfolding sort_by_def by (induction xs) (simp_all add: sorted_insert_by [OF assms])

lemma sorted_wrt_take_drop:
  "sorted_wrt le xs \<Longrightarrow> a \<in> set (take n xs) \<Longrightarrow> b \<in> set (drop n xs) \<Longrightarrow> le a b"
  by (metis append_take_drop_id sorted_wrt_append)

section \<open>What a search answers\<close>

definition visible :: "instant \<Rightarrow> string \<Rightarrow> catalog \<Rightarrow> (string \<Rightarrow> bool) \<Rightarrow> string set" where
  "visible now needle c may_read = {h. seen_in now needle c may_read h \<noteq> []}"

definition found_by :: "instant \<Rightarrow> string \<Rightarrow> catalog \<Rightarrow> (string \<Rightarrow> bool) \<Rightarrow> found_hosts" where
  "found_by now needle c may_read =
     fold (scan_view now needle c) (filter may_read (fm_keys (cg_views c)))
       (fst (fold (scan_source now needle (cg_cache c) may_read) (fm_keys (cg_sources c)) (fmempty, fmempty)))"

definition held_by :: "instant \<Rightarrow> string \<Rightarrow> catalog \<Rightarrow> (string \<Rightarrow> bool) \<Rightarrow> held_hosts" where
  "held_by now needle c may_read =
     snd (fold (scan_source now needle (cg_cache c) may_read) (fm_keys (cg_sources c)) (fmempty, fmempty))"

lemma found_by_lookup: "fmlookup (found_by now needle c may_read) h = listed_as (seen_in now needle c may_read h)"
proof -
  have "fmlookup (fst (fold (scan_source now needle (cg_cache c) may_read) (fm_keys (cg_sources c)) (fmempty, fmempty))) h
      = listed_as (map (\<lambda>i. \<lparr>hs_source_id = i, hs_age_seconds = age_seconds now (the (mc_get (cg_cache c) i))\<rparr>)
          (filter (\<lambda>i. may_read i \<and> source_sees needle c h i) (fm_keys (cg_sources c))))"
    using scan_sources_found [of fmempty h "[]"] by (simp add: listed_as_def)
  from scan_views_found [OF this] show ?thesis
    by (simp add: found_by_def seen_in_def filter_filter conj_commute)
qed

lemma found_by_domain: "fmdom' (found_by now needle c may_read) = visible now needle c may_read"
  by (auto simp: visible_def fmlookup_dom'_iff found_by_lookup listed_as_def split: if_splits)

lemma search_eq:
  assumes "MIN_QUERY \<le> length (utf8_chars (to_lowercase (trim q)))"
  shows "search number show_json now q limit c may_read may_run =
    (let needle = to_lowercase (trim q); found = found_by now needle c may_read
     in \<lparr>sr_matches = map (\<lambda>h.
           \<lparr>hm_host = h, hm_sources = the (fmlookup found h),
            hm_endpoints = filter (reaches number show_json c (held_by now needle c may_read) h) (servable c may_run)\<rparr>)
           (take limit (sort_by (match_order needle (trim q)) (fm_keys found))),
         sr_total = card (fmdom' found)\<rparr>)"
  using assms by (simp add: search_def found_by_def held_by_def Let_def split_def)

text \<open>
  C30. A search answers from what the caller may read and from nothing else: the hosts are those a readable source or
  view shows under a matching name, each once, listed with exactly those sources and views and the age of each; the
  total counts them all, and the answer is the best of them, in order, up to the limit.
\<close>

theorem search_exact:
  assumes "MIN_QUERY \<le> length (utf8_chars (to_lowercase (trim q)))"
  shows "let needle = to_lowercase (trim q); r = search number show_json now q limit c may_read may_run;
           hosts = map hm_host (sr_matches r); all_hosts = visible now needle c may_read
    in distinct hosts \<and> set hosts \<subseteq> all_hosts \<and> length hosts = min limit (card all_hosts)
     \<and> sorted_wrt (match_order needle (trim q)) hosts
     \<and> (\<forall>a \<in> set hosts. \<forall>b \<in> all_hosts - set hosts. match_order needle (trim q) a b)
     \<and> (\<forall>m \<in> set (sr_matches r). hm_sources m = seen_in now needle c may_read (hm_host m))
     \<and> sr_total r = card all_hosts"
proof -
  define needle where "needle = to_lowercase (trim q)"
  let ?found = "found_by now needle c may_read" and ?all = "visible now needle c may_read"
  let ?le = "match_order needle (trim q)"
  let ?r = "search number show_json now q limit c may_read may_run"
  let ?sorted = "sort_by ?le (fm_keys ?found)"
  have s: "set ?sorted = ?all" "distinct ?sorted" "sorted_wrt ?le ?sorted"
    by (simp add: found_by_domain, simp, rule sorted_sort_by [OF match_order_total match_order_trans])
  have len: "length ?sorted = card ?all" using s(1,2) by (metis distinct_card)
  have hosts: "map hm_host (sr_matches ?r) = take limit ?sorted"
    by (simp add: search_eq [OF assms] needle_def Let_def comp_def)
  have "set (take limit ?sorted) \<subseteq> ?all" using s(1) set_take_subset by metis
  moreover have "length (take limit ?sorted) = min limit (card ?all)" using len by simp
  moreover have "sorted_wrt ?le (take limit ?sorted)" using s(3) by (rule sorted_wrt_take)
  moreover have "?le a b" if "a \<in> set (take limit ?sorted)" "b \<in> ?all - set (take limit ?sorted)" for a b
  proof -
    from that(2) have "b \<in> set (drop limit ?sorted)"
      by (metis DiffE UnE append_take_drop_id s(1) set_append)
    then show ?thesis using sorted_wrt_take_drop s(3) that(1) by metis
  qed
  moreover have "hm_sources m = seen_in now needle c may_read (hm_host m)" if "m \<in> set (sr_matches ?r)" for m
  proof -
    have "hm_host m \<in> ?all"
      using that hosts s(1) set_take_subset [of limit ?sorted] by (metis image_eqI list.set_map subsetD)
    then have "fmlookup ?found (hm_host m) = Some (seen_in now needle c may_read (hm_host m))"
      by (simp add: found_by_lookup visible_def listed_as_def)
    moreover from that have "hm_sources m = the (fmlookup ?found (hm_host m))"
      by (auto simp: search_eq [OF assms] needle_def Let_def)
    ultimately show ?thesis by simp
  qed
  moreover have "sr_total ?r = card ?all" by (simp add: search_eq [OF assms] needle_def Let_def found_by_domain)
  ultimately show ?thesis
    unfolding Let_def needle_def [symmetric] hosts using s(2) by auto
qed

section \<open>Which endpoints are named\<close>

lemma endpoint_datasets_lookup:
  "fmlookup (endpoint_datasets cache ids) s
    = (if s \<in> set ids then map_option e_dataset (mc_get cache s) else None)"
proof -
  have "fmlookup (fold (\<lambda>s ds. case mc_get cache s of None \<Rightarrow> ds | Some e \<Rightarrow> fmupd s (e_dataset e) ds) ids ds) s
      = (if s \<in> set ids \<and> mc_get cache s \<noteq> None then map_option e_dataset (mc_get cache s) else fmlookup ds s)" for ds
    by (induction ids arbitrary: ds) (auto split: option.split)
  then show ?thesis by (auto simp: endpoint_datasets_def)
qed

lemma default_hosts_plain:
  "default_hosts number show_json ds fmempty = fmdom' (merged_hosts ds)"
proof -
  have f: "request_filter fmempty (JObj fmempty) = Inr \<lparr>hf_patterns = [], hf_conditions = []\<rparr>"
    by code_simp
  have g: "setting (JObj fmempty) fmempty ''group'' = []" by (simp add: setting_def param_def)
  have "filter_matches number show_json \<lparr>hf_patterns = [], hf_conditions = []\<rparr> h vars" for h vars
    by (simp add: filter_matches_def)
  then have "fmlookup (fst (merge_and_filter number show_json ds fmempty (JObj fmempty))) h \<noteq> None
      \<longleftrightarrow> fmlookup (merged_hosts ds) h \<noteq> None" for h
    using selection_exact' [where config = fmempty and params = "JObj fmempty" and number = number and show_json = show_json
        and ds = ds and h = h] f g by (simp split: option.splits)
  then show ?thesis by (auto simp: default_hosts_def fmlookup_dom'_iff)
qed

lemma held_by_lookup:
  "source_holds (held_by now needle c may_read) s h \<longleftrightarrow> s \<in> fmdom' (cg_sources c) \<and> source_sees needle c h s"
  using scan_sources_held [where ids = "fm_keys (cg_sources c)" and held = fmempty and i = s and found = fmempty]
  by (auto simp: source_holds_def held_by_def source_sees_def split: option.splits)

lemma reaches_iff:
  assumes e: "fmlookup (cg_endpoints c) i = Some e"
    and known: "set (ep_source_ids e) \<subseteq> fmdom' (cg_sources c)"
    and limit: "\<And>l. ep_limit e = Some l \<Longrightarrow> \<exists>s \<in> set (ep_source_ids e). by_hosts_from_inventory l = Some s"
    and host: "name_matches needle h"
  shows "reaches number show_json c (held_by now needle c may_read) h i \<longleftrightarrow>
    h \<in> default_hosts number show_json
      (case ep_limit e of None \<Rightarrow> endpoint_datasets (cg_cache c) (ep_source_ids e)
       | Some l \<Rightarrow> apply_limit (endpoint_datasets (cg_cache c) (ep_source_ids e)) l)
      (if ep_output e = None then fmempty else ep_config e)"
proof (cases "ep_output e = None \<or> ep_config e = fmempty")
  case False
  then show ?thesis by (auto simp: reaches_def kept_by_settings_def e Let_def)
next
  case True
  let ?ds = "endpoint_datasets (cg_cache c) (ep_source_ids e)"
  have c: "(if ep_output e = None then fmempty else ep_config e) = fmempty" using True by auto
  have sees: "source_holds (held_by now needle c may_read) s h \<longleftrightarrow> (\<exists>d. fmlookup ?ds s = Some d \<and> fmlookup (hostvars d) h \<noteq> None)"
    if "s \<in> set (ep_source_ids e)" for s
    using that known host by (auto simp: held_by_lookup source_sees_def endpoint_datasets_lookup split: option.splits)
  show ?thesis
  proof (cases "ep_limit e")
    case None
    have "list_ex (\<lambda>s. source_holds (held_by now needle c may_read) s h) (ep_source_ids e)
        \<longleftrightarrow> fmlookup (merged_hosts ?ds) h \<noteq> None"
      using sees unfolding merged_hosts_dom list_ex_iff by (auto simp: endpoint_datasets_lookup split: if_splits)
    then show ?thesis
      unfolding c default_hosts_plain using True None
      by (simp add: reaches_def kept_by_settings_def e Let_def fmlookup_fmdom')
  next
    case (Some l)
    with limit obtain s where s: "s \<in> set (ep_source_ids e)" "by_hosts_from_inventory l = Some s" by blast
    have "h \<in> limit_hosts ?ds s \<longleftrightarrow> source_holds (held_by now needle c may_read) s h"
      using sees [OF s(1)] by (auto simp: limit_hosts_def fmlookup_dom'_iff split: option.splits)
    moreover have "h \<in> limit_hosts ?ds s \<Longrightarrow> fmlookup (merged_hosts ?ds) h \<noteq> None"
      unfolding merged_hosts_dom by (auto simp: limit_hosts_def fmlookup_dom'_iff split: option.splits)
    ultimately have "source_holds (held_by now needle c may_read) s h
        \<longleftrightarrow> fmlookup (merged_hosts (apply_limit ?ds l)) h \<noteq> None"
      using s(2) by (auto simp: apply_limit_def limit_merged_hosts)
    then show ?thesis
      unfolding c default_hosts_plain using True Some s(2)
      by (simp add: reaches_def kept_by_settings_def e Let_def fmlookup_fmdom')
  qed
qed

text \<open>
  C5. The shortcut a search takes is right: in an accepted configuration, an endpoint is named for a host exactly when the
  caller may run it, every source it reads has data, and the hosts its own call would render without parameters (its
  settings, or everything for a script) include that host, although the search renders only the endpoints with settings.
\<close>

theorem search_names_endpoints_of_output:
  assumes "accepted env config"
    and "m \<in> set (sr_matches (search_hosts number show_json now config cache scopes permissions q limit))"
  shows "set (hm_endpoints m) = {i. \<exists>e. fmlookup (ac_endpoints config) i = Some e \<and> allows_endpoint permissions i
      \<and> (\<forall>s \<in> set (ep_source_ids e). mc_get cache s \<noteq> None)
      \<and> hm_host m \<in> default_hosts number show_json
          (case ep_limit e of None \<Rightarrow> endpoint_datasets cache (ep_source_ids e)
           | Some l \<Rightarrow> apply_limit (endpoint_datasets cache (ep_source_ids e)) l)
          (if ep_output e = None then fmempty else ep_config e)}
    \<and> sorted (hm_endpoints m) \<and> distinct (hm_endpoints m)"
proof -
  define c where "c = \<lparr>cg_sources = ac_sources config, cg_views = ac_views config, cg_endpoints = ac_endpoints config,
    cg_cache = cache, cg_scopes = scopes\<rparr>"
  define needle where "needle = to_lowercase (trim q)"
  let ?may_read = "allows_source permissions" and ?may_run = "allows_endpoint permissions"
  have r: "search_hosts number show_json now config cache scopes permissions q limit
      = search number show_json now q (search_limit limit) c ?may_read ?may_run"
    by (simp add: search_hosts_def c_def)
  have long: "MIN_QUERY \<le> length (utf8_chars (to_lowercase (trim q)))"
  proof (rule ccontr)
    assume "\<not> ?thesis"
    then show False using assms(2) unfolding r search_def by (simp add: Let_def)
  qed
  from assms(2) have ends: "hm_endpoints m
      = filter (reaches number show_json c (held_by now needle c ?may_read) (hm_host m)) (servable c ?may_run)"
    and "hm_host m \<in> set (take (search_limit limit) (sort_by (match_order needle (trim q)) (fm_keys (found_by now needle c ?may_read))))"
    unfolding r search_eq [OF long] by (auto simp: Let_def needle_def)
  then have "hm_host m \<in> visible now needle c ?may_read"
    by (metis in_set_takeD sort_by_set fm_keys_set found_by_domain)
  then have host: "name_matches needle (hm_host m)"
    by (auto simp: visible_def seen_in_def source_sees_def view_sees_def filter_empty_conv)
  have known: "set (ep_source_ids e) \<subseteq> fmdom' (cg_sources c)"
    and limited: "ep_limit e = Some l \<Longrightarrow> \<exists>s \<in> set (ep_source_ids e). by_hosts_from_inventory l = Some s"
    if "fmlookup (cg_endpoints c) i = Some e" for i e l
    using accepted_endpoint [OF assms(1), of i e] that unfolding endpoint_errors_nil
    by (auto simp: c_def is_source_def fmlookup_fmdom')
  have "i \<in> set (hm_endpoints m) \<longleftrightarrow> (\<exists>e. fmlookup (cg_endpoints c) i = Some e \<and> ?may_run i
      \<and> (\<forall>s \<in> set (ep_source_ids e). mc_get (cg_cache c) s \<noteq> None)
      \<and> hm_host m \<in> default_hosts number show_json
          (case ep_limit e of None \<Rightarrow> endpoint_datasets (cg_cache c) (ep_source_ids e)
           | Some l \<Rightarrow> apply_limit (endpoint_datasets (cg_cache c) (ep_source_ids e)) l)
          (if ep_output e = None then fmempty else ep_config e))" for i
  proof (cases "fmlookup (cg_endpoints c) i")
    case None
    then show ?thesis by (auto simp: ends servable_def fmlookup_fmdom')
  next
    case (Some e)
    have "reaches number show_json c (held_by now needle c ?may_read) (hm_host m) i \<longleftrightarrow> hm_host m \<in> default_hosts number show_json
          (case ep_limit e of None \<Rightarrow> endpoint_datasets (cg_cache c) (ep_source_ids e)
           | Some l \<Rightarrow> apply_limit (endpoint_datasets (cg_cache c) (ep_source_ids e)) l)
          (if ep_output e = None then fmempty else ep_config e)"
      by (rule reaches_iff [OF Some known [OF Some] limited [OF Some] host])
    then show ?thesis using Some by (auto simp: ends servable_def fmlookup_fmdom' list_all_iff)
  qed
  moreover have "sorted (hm_endpoints m)" "distinct (hm_endpoints m)"
    by (simp_all add: ends servable_def sorted_wrt_filter)
  moreover have "cg_endpoints c = ac_endpoints config" "cg_cache c = cache" by (simp_all add: c_def)
  ultimately show ?thesis by (intro conjI set_eqI) (simp_all only: mem_Collect_eq)
qed

section \<open>Witnesses\<close>

definition sample_catalog :: catalog where
  "sample_catalog = \<lparr>cg_sources = ac_sources sample_config, cg_views = fmempty, cg_endpoints = ac_endpoints sample_config,
     cg_cache = sample_cache, cg_scopes = fmempty\<rparr>"

lemma sample_query_long: "MIN_QUERY \<le> length (utf8_chars (to_lowercase (trim '' WEB'')))"
  by code_simp

theorem search_exact_witness:
  "sr_total (search (\<lambda>_. None :: nat option) (\<lambda>_. []) 0 '' WEB'' 20 sample_catalog (\<lambda>_. False) (\<lambda>_. True)) = 0"
proof -
  have "visible 0 (to_lowercase (trim '' WEB'')) sample_catalog (\<lambda>_. False) = {}"
    by (simp add: visible_def seen_in_def)
  with search_exact [OF sample_query_long, where number = "\<lambda>_. None :: nat option" and show_json = "\<lambda>_. []" and now = 0
      and limit = 20 and c = sample_catalog and may_read = "\<lambda>_. False" and may_run = "\<lambda>_. True"]
  show ?thesis unfolding Let_def by (metis card.empty)
qed

lemma sample_search_hosts:
  "map hm_host (sr_matches (search_hosts (\<lambda>_. None :: nat option) (\<lambda>_. []) 0 sample_config sample_cache fmempty
      (Perm_scoped {''vm''} {''awx''}) '' WEB'' None)) = [''web1'']"
proof -
  let ?c = "\<lparr>cg_sources = ac_sources sample_config, cg_views = ac_views sample_config,
    cg_endpoints = ac_endpoints sample_config, cg_cache = sample_cache, cg_scopes = fmempty\<rparr>"
  have needle: "to_lowercase (trim '' WEB'') = ''web''" by code_simp
  have m: "name_matches ''web'' ''web1''" "\<not> name_matches ''web'' ''db1''" by code_simp+
  have g: "mc_get sample_cache ''vm'' = Some (ce_new 0 sample_dataset 900)"
    by (simp add: sample_cache_def mc_new_def mc_defs)
  have keys: "fm_keys (ac_sources sample_config) = [''vm'']" "fm_keys (ac_views sample_config) = [''all'']"
    by (simp_all add: sample_config_def fm_keys_def)
  have "visible 0 ''web'' ?c (allows_source (Perm_scoped {''vm''} {''awx''})) = {''web1''}"
    using m by (auto simp: visible_def seen_in_def keys source_sees_def g ce_new_def sample_dataset_def fmlookup_of_list
        split: if_splits)
  then have "fm_keys (found_by 0 ''web'' ?c (allows_source (Perm_scoped {''vm''} {''awx''}))) = [''web1'']"
    by (simp add: fm_keys_def found_by_domain)
  then show ?thesis
    by (simp add: search_hosts_def search_eq [OF sample_query_long] needle Let_def sort_by_def search_limit_def comp_def)
qed

theorem search_names_endpoints_of_output_witness:
  "\<exists>m \<in> set (sr_matches (search_hosts (\<lambda>_. None :: nat option) (\<lambda>_. []) 0 sample_config sample_cache fmempty
      (Perm_scoped {''vm''} {''awx''}) '' WEB'' None)). sorted (hm_endpoints m) \<and> hm_host m = ''web1''"
proof -
  let ?ms = "sr_matches (search_hosts (\<lambda>_. None :: nat option) (\<lambda>_. []) 0 sample_config sample_cache fmempty
      (Perm_scoped {''vm''} {''awx''}) '' WEB'' None)"
  have "''web1'' \<in> hm_host ` set ?ms" unfolding set_map [symmetric] sample_search_hosts by simp
  then obtain m where m: "''web1'' = hm_host m" "m \<in> set ?ms" by (rule imageE)
  from search_names_endpoints_of_output [OF sample_accepted m(2)] have "sorted (hm_endpoints m)" by (elim conjE)
  then show ?thesis using m(1) [symmetric] by (intro bexI [OF _ m(2)] conjI)
qed

end
