(* ===== verification/Dataset_Read.thy ===== *)
theory Dataset_Read
  imports Host_Filter Group_Trim Runtime
begin

text \<open>
  Reading one source over HTTP: \<open>src/src/adapters/in/http/sources.rs\<close>. What a query selects, how the page it
  asks for is shaped, the validator it is given and the refresh it may ask for first. The lemmas say that the
  pages of a query add up to its selection and that what is excluded stays behind; the routes themselves,
  which answer for views as well, are in \<open>Source_Routes\<close>.

  Parameters: \<open>serde_json\<close>'s serializer and the hash behind a validator, as in \<open>Cache_Entry\<close>; and whether a
  text is a valid header value, which the crate \<open>http\<close> decides.
\<close>

section \<open>What a caller asks for\<close>

datatype groups_mode = Groups_all | Groups_matching | Groups_omit

record dataset_params =
  dp_host :: "string option"
  dp_group :: "string option"
  dp_limit :: "nat option"
  dp_offset :: "nat option"
  dp_fields :: "string option"
  dp_exclude_fields :: "string option"
  dp_filter :: "string option"
  dp_groups :: "groups_mode option"
  dp_refresh :: "bool option"

record hosts_params =
  hp_host :: "string option"
  hp_group :: "string option"
  hp_filter :: "string option"

record status_params =
  st_host :: "string option"
  st_group :: "string option"

text \<open>Every refusal, with what it names, and its status.\<close>

datatype api_error =
    Source_forbidden string
  | Source_not_cached string
  | Source_not_configured string
  | Refresh_needs_hosts
  | Refresh_not_allowed string
  | Refresh_of_pattern
  | Filter_refused filter_error
  | No_such_group_in string string
  | View_unclaimed string "string list" "string list"
  | View_refresh_refused string "string list" string
  | View_write_refused string "string list" string
  | Serialize_failed string

fun error_status :: "api_error \<Rightarrow> nat" where
  "error_status (Source_forbidden i) = 403"
| "error_status (Source_not_cached i) = 404"
| "error_status (Source_not_configured i) = 404"
| "error_status Refresh_needs_hosts = 400"
| "error_status (Refresh_not_allowed i) = 403"
| "error_status Refresh_of_pattern = 400"
| "error_status (Filter_refused e) = 400"
| "error_status (No_such_group_in i g) = 404"
| "error_status (View_unclaimed v hs ms) = 404"
| "error_status (View_refresh_refused v hs m) = 403"
| "error_status (View_write_refused v ms action) = 400"
| "error_status (Serialize_failed e) = 500"

definition is_plain :: "dataset_params \<Rightarrow> bool" where
  "is_plain p \<longleftrightarrow>
     dp_host p = None \<and> dp_group p = None \<and> dp_limit p = None \<and> dp_offset p = None \<and> dp_fields p = None
     \<and> dp_exclude_fields p = None \<and> dp_filter p = None \<and> dp_groups p = None"

definition hosts_is_plain :: "hosts_params \<Rightarrow> bool" where
  "hosts_is_plain p \<longleftrightarrow> hp_host p = None \<and> hp_group p = None \<and> hp_filter p = None"

definition host_is_pattern :: "string option \<Rightarrow> bool" where
  "host_is_pattern host = (case host of None \<Rightarrow> False | Some h \<Rightarrow> list_ex (\<lambda>c. c = CHR ''*'' \<or> c = CHR ''?'') h)"

definition exact_hosts :: "string option \<Rightarrow> string option" where
  "exact_hosts host = (if host_is_pattern host then None else host)"

definition text_or_empty :: "string option \<Rightarrow> string" where
  "text_or_empty t = (case t of None \<Rightarrow> [] | Some s \<Rightarrow> s)"

definition hosts_filter :: "string option \<Rightarrow> string option \<Rightarrow> api_error + host_filter" where
  "hosts_filter host filter' =
     (case parse_filter (if host_is_pattern host then text_or_empty host else []) (text_or_empty filter') of
        Inl e \<Rightarrow> Inl (Filter_refused e)
      | Inr f \<Rightarrow> Inr f)"

definition dataset_filter :: "dataset_params \<Rightarrow> api_error + host_filter" where
  "dataset_filter p =
     (if host_is_pattern (dp_host p) \<and> dp_refresh p = Some True then Inl Refresh_of_pattern
      else hosts_filter (dp_host p) (dp_filter p))"

section \<open>The hosts a query selects\<close>

definition resolve_hostnames :: "dataset \<Rightarrow> string option \<Rightarrow> string option \<Rightarrow> string list" where
  "resolve_hostnames d host grp =
     (let in_named = map_option (\<lambda>g. concat (map (group_members d) (csv_items g))) grp in
      sort_dedup
        (case (host, in_named) of
           (Some h, _) \<Rightarrow>
             filter (\<lambda>n. case in_named of None \<Rightarrow> True | Some hs \<Rightarrow> n \<in> set hs)
               (filter (\<lambda>n. has (hostvars d) n) (csv_items h))
         | (None, Some hs) \<Rightarrow> hs
         | (None, None) \<Rightarrow> fm_keys (hostvars d)))"

text \<open>\<open>retain\<close> by the host filter, with the variables each host is looked up in.\<close>

definition narrow ::
  "(string \<Rightarrow> 'f::linorder option) \<Rightarrow> (json \<Rightarrow> string) \<Rightarrow> host_filter \<Rightarrow> (string, host_vars) fmap
     \<Rightarrow> string list \<Rightarrow> string list" where
  "narrow number show_json f vars hosts =
     (if hf_is_empty f then hosts
      else filter (\<lambda>h. case fmlookup vars h of
              None \<Rightarrow> False | Some v \<Rightarrow> filter_matches number show_json f h v) hosts)"

definition source_selection where
  "source_selection number show_json d f host grp =
     narrow number show_json f (hostvars d) (resolve_hostnames d (exact_hosts host) grp)"

section \<open>The page\<close>

definition comma_names :: "string option \<Rightarrow> string list" where
  "comma_names raw = (case raw of None \<Rightarrow> [] | Some r \<Rightarrow> csv_items r)"

definition var_shape :: "dataset_params \<Rightarrow> var_select" where
  "var_shape p = \<lparr>vs_keep = map_option csv_items (dp_fields p), vs_drop = comma_names (dp_exclude_fields p)\<rparr>"

definition shape_host :: "var_select \<Rightarrow> host_vars \<Rightarrow> host_vars" where
  "shape_host s vars = (if is_identity s then vars else select_host s vars)"

definition shape_read_group :: "var_select \<Rightarrow> group \<Rightarrow> group" where
  "shape_read_group s g =
     (if drops_nothing s then g else g\<lparr>g_vars := map_option (select_group_vars s) (g_vars g)\<rparr>)"

record dataset_page =
  pg_source_id :: string
  pg_total_hosts :: nat
  pg_offset :: nat
  pg_limit :: "nat option"
  pg_returned :: nat
  pg_hostvars :: "(string, host_vars) fmap"
  pg_groups :: "(string, group) fmap option"

definition page_hosts :: "dataset_params \<Rightarrow> string list \<Rightarrow> string list" where
  "page_hosts p selection =
     (let rest = drop (case dp_offset p of None \<Rightarrow> 0 | Some n \<Rightarrow> n) selection
      in case dp_limit p of None \<Rightarrow> rest | Some n \<Rightarrow> take n rest)"

definition page_vars :: "var_select \<Rightarrow> (string, host_vars) fmap \<Rightarrow> string list \<Rightarrow> (string, host_vars) fmap" where
  "page_vars s vars page = fmmap (shape_host s) (fm_retain (\<lambda>h _. h \<in> set page) vars)"

text \<open>With a group filter only those groups come back; which, and with how much of their membership, is \<open>groups=\<close>.\<close>

definition in_scope :: "dataset_params \<Rightarrow> string \<Rightarrow> bool" where
  "in_scope p name = (case dp_group p of None \<Rightarrow> True | Some g \<Rightarrow> name \<in> set (csv_items g))"

definition group_rows :: "(string, group) fmap \<Rightarrow> group_row list" where
  "group_rows gs = map (\<lambda>n. let g = the (fmlookup gs n) in (n, g_hosts g, g_children g)) (fm_keys gs)"

definition trim_group :: "(string, trimmed_group) fmap \<Rightarrow> string \<Rightarrow> group \<Rightarrow> group" where
  "trim_group slim name g =
     (case fmlookup slim name of
        None \<Rightarrow> g | Some t \<Rightarrow> g\<lparr>g_hosts := tr_hosts t, g_children := tr_children t\<rparr>)"

definition page_groups :: "dataset_params \<Rightarrow> (string, group) fmap \<Rightarrow> string list \<Rightarrow> (string, group) fmap option" where
  "page_groups p gs page =
     (let s = var_shape p;
          gs = fm_retain (\<lambda>name _. in_scope p name) gs
      in case (case dp_groups p of None \<Rightarrow> Groups_all | Some m \<Rightarrow> m) of
           Groups_omit \<Rightarrow> None
         | Groups_all \<Rightarrow> Some (fmmap (shape_read_group s) gs)
         | Groups_matching \<Rightarrow>
             (let slim = matching (group_rows gs) (set page)
              in Some (fmmap_keys (\<lambda>name g. trim_group slim name (shape_read_group s g))
                         (fm_retain (\<lambda>name _. has slim name) gs))))"

definition source_page where
  "source_page number show_json i d f p =
     (let selection = source_selection number show_json d f (dp_host p) (dp_group p);
          page = page_hosts p selection;
          vars = page_vars (var_shape p) (hostvars d) page
      in \<lparr>pg_source_id = i, pg_total_hosts = length selection,
          pg_offset = (case dp_offset p of None \<Rightarrow> 0 | Some n \<Rightarrow> n), pg_limit = dp_limit p,
          pg_returned = fcard (fmdom vars), pg_hostvars = vars,
          pg_groups = page_groups p (groups d) page\<rparr>)"
section \<open>Validators\<close>

text \<open>\<open>format!("{:x}")\<close>.\<close>

fun show_hex :: "nat \<Rightarrow> string" where
  "show_hex n = (if n < 16 then [hex_digit n] else show_hex (n div 16) @ [hex_digit (n mod 16)])"

declare show_hex.simps [simp del]

definition query_etag :: "(string \<times> dataset_params \<Rightarrow> u64) \<Rightarrow> string \<Rightarrow> dataset_params \<Rightarrow> u64 \<Rightarrow> string" where
  "query_etag hash_query i p gen =
     [CHR 0x22] @ show_hex (unat (hash_query (i, p))) @ ''-'' @ show_nat (unat gen) @ [CHR 0x22]"

text \<open>The value of \<open>If-None-Match\<close>, when it is text, against a validator.\<close>

definition if_none_match :: "string option \<Rightarrow> string \<Rightarrow> bool" where
  "if_none_match header etag =
     (case header of
        None \<Rightarrow> False
      | Some v \<Rightarrow> list_ex (\<lambda>c. trim c = etag \<or> trim c = ''*'') (split_on (CHR '','') v))"

section \<open>Headers about a refresh\<close>

text \<open>\<open>char::is_control\<close> on the bytes of a character: U+0000 to U+001F and U+007F to U+009F.\<close>

definition is_control :: "string \<Rightarrow> bool" where
  "is_control ch =
     (case ch of
        [c] \<Rightarrow> (of_char c :: nat) < 32 \<or> (of_char c :: nat) = 127
      | [c, d] \<Rightarrow> (of_char c :: nat) = 194 \<and> 128 \<le> (of_char d :: nat) \<and> (of_char d :: nat) < 160
      | _ \<Rightarrow> False)"

definition sanitize_header_value :: "string \<Rightarrow> string" where
  "sanitize_header_value v = concat (map (\<lambda>ch. if is_control ch then '' '' else ch) (utf8_chars v))"

record refresh_headers =
  rh_refreshed :: bool
  rh_refreshed_hosts :: "string option"
  rh_refresh_error :: "string option"

definition header_if_valid :: "(string \<Rightarrow> bool) \<Rightarrow> string \<Rightarrow> string option" where
  "header_if_valid valid v = (if valid v then Some v else None)"

definition with_refresh_headers :: "(string \<Rightarrow> bool) \<Rightarrow> refresh_outcome option \<Rightarrow> refresh_headers option" where
  "with_refresh_headers valid outcome =
     map_option (\<lambda>out.
         \<lparr>rh_refreshed = rf_error out = None,
          rh_refreshed_hosts =
            (if refreshed out \<noteq> [] then header_if_valid valid (join '','' (refreshed out)) else None),
          rh_refresh_error =
            Option.bind (rf_error out) (\<lambda>e. header_if_valid valid (sanitize_header_value e))\<rparr>)
       outcome"

section \<open>The answer\<close>

datatype reply_body = No_body | Raw_body string | Page_body dataset_page | View_body dataset

record reply =
  rp_status :: nat
  rp_etag :: string
  rp_refresh :: "refresh_headers option"
  rp_body :: reply_body

definition not_modified :: "string \<Rightarrow> refresh_headers option \<Rightarrow> reply" where
  "not_modified etag rh = \<lparr>rp_status = 304, rp_etag = etag, rp_refresh = rh, rp_body = No_body\<rparr>"

definition ok_reply :: "string \<Rightarrow> refresh_headers option \<Rightarrow> reply_body \<Rightarrow> reply" where
  "ok_reply etag rh body = \<lparr>rp_status = 200, rp_etag = etag, rp_refresh = rh, rp_body = body\<rparr>"

record 'f read_env =
  rd_serialize :: "dataset \<Rightarrow> string + string"
  rd_hash :: "string \<Rightarrow> u64"
  rd_hash_query :: "string \<times> dataset_params \<Rightarrow> u64"
  rd_body_error :: "reply_body \<Rightarrow> string option"
  rd_number :: "string \<Rightarrow> 'f option"
  rd_show_json :: "json \<Rightarrow> string"
  rd_header_ok :: "string \<Rightarrow> bool"

text \<open>
  The answer from an entry: \<open>gen\<close> is the counter of writes, which a filtered read reads after it has the
  entry. The first component is the entry with its serialized text filled in, when the read built it.
\<close>

definition answer_source where
  "answer_source env gen i p f inm outcome entry =
     (let rh = with_refresh_headers (rd_header_ok env) outcome in
      if is_plain p then
        (case serialized_json (rd_serialize env) (rd_hash env) entry of
           (entry, Inl e) \<Rightarrow> (entry, Inl (Serialize_failed e))
         | (entry, Inr cached) \<Rightarrow>
             (entry, Inr (if if_none_match inm (sj_etag cached) then not_modified (sj_etag cached) rh
                          else ok_reply (sj_etag cached) rh (Raw_body (sj_bytes cached)))))
      else
        (let etag = query_etag (rd_hash_query env) i p gen in
         (entry,
          if if_none_match inm etag then Inr (not_modified etag rh)
          else
            (let body = Page_body (source_page (rd_number env) (rd_show_json env) i (e_dataset entry) f p)
             in case rd_body_error env body of
                  Some e \<Rightarrow> Inl (Serialize_failed e)
                | None \<Rightarrow> Inr (ok_reply etag rh body)))))"

section \<open>The refresh before a read\<close>

text \<open>
  What a gather is run with: the files behind \<open>source_for_sync\<close>, the clocks, the sync under its budget, and
  what the other tasks do to the state while the host locks and the permit are waited for.
\<close>

record gather_env =
  ga_is_file :: "string \<Rightarrow> bool"
  ga_is_dir :: "string \<Rightarrow> bool"
  ga_projects_dir :: string
  ga_now :: instant
  ga_later :: instant
  ga_ms :: nat
  ga_unix_now :: nat
  ga_budget :: nat
  ga_run :: "string \<Rightarrow> source \<Rightarrow> sync_request \<Rightarrow> sync_state \<Rightarrow> sync_end"
  ga_wait :: "string \<Rightarrow> sync_state \<Rightarrow> sync_state"

definition gather_hosts ::
  "gather_env \<Rightarrow> string \<Rightarrow> source \<Rightarrow> string list \<Rightarrow> nat option \<Rightarrow> sync_state \<Rightarrow> sync_state \<times> refresh_outcome" where
  "gather_hosts ge i src hosts ttl_override st =
     refresh_hosts (ga_now ge) (ga_later ge) (ga_ms ge) (ga_unix_now ge) (ga_budget ge) i src hosts ttl_override
       (ga_run ge i src) st (ga_wait ge i st)"

definition executed_source :: "gather_env \<Rightarrow> runtime_config \<Rightarrow> string \<Rightarrow> source option" where
  "executed_source ge cfg i = source_for_sync (ga_is_file ge) (ga_is_dir ge) (ga_projects_dir ge) cfg i"

definition refresh_before_reading ::
  "gather_env \<Rightarrow> runtime_config \<Rightarrow> string \<Rightarrow> string option \<Rightarrow> sync_state
     \<Rightarrow> sync_state \<times> (api_error + refresh_outcome)" where
  "refresh_before_reading ge cfg i host st =
     (case executed_source ge cfg i of
        None \<Rightarrow> (st, Inl (Source_not_configured i))
      | Some src \<Rightarrow>
          if \<not> s_allow_on_demand_refresh src then (st, Inl (Refresh_not_allowed i))
          else if comma_names host = [] then (st, Inl Refresh_needs_hosts)
          else (let (st, out) = gather_hosts ge i src (comma_names host) None st in (st, Inr out)))"

section \<open>The other reads of one source\<close>

record read_group_info =
  gi_name :: string
  gi_host_count :: nat
  gi_children :: "string list"
  gi_has_vars :: bool

record group_detail =
  gd_name :: string
  gd_host_count :: nat
  gd_children :: "string list"
  gd_vars :: "(string, json) fmap"

record host_list =
  hl_source_id :: string
  hl_total_hosts :: nat
  hl_hosts :: "string list"

definition source_groups :: "dataset \<Rightarrow> read_group_info list" where
  "source_groups d =
     map (\<lambda>n. let g = the (fmlookup (groups d) n) in
            \<lparr>gi_name = n, gi_host_count = card (set (g_hosts g)), gi_children = g_children g,
             gi_has_vars = g_vars g \<noteq> None\<rparr>)
       (fm_keys (groups d))"

definition source_group :: "string \<Rightarrow> dataset \<Rightarrow> string \<Rightarrow> api_error + group_detail" where
  "source_group i d name =
     (case fmlookup (groups d) name of
        None \<Rightarrow> Inl (No_such_group_in i name)
      | Some g \<Rightarrow> Inr
          \<lparr>gd_name = name, gd_host_count = card (set (g_hosts g)), gd_children = g_children g,
           gd_vars = (case g_vars g of None \<Rightarrow> fmempty | Some v \<Rightarrow> v)\<rparr>)"

definition list_hosts :: "string \<Rightarrow> string list \<Rightarrow> host_list" where
  "list_hosts i hosts = \<lparr>hl_source_id = i, hl_total_hosts = length hosts, hl_hosts = hosts\<rparr>"

definition source_hosts where
  "source_hosts number show_json i d f p =
     list_hosts i
       (if hosts_is_plain p then fm_keys (hostvars d)
        else sort (source_selection number show_json d f (hp_host p) (hp_group p)))"

record host_status =
  hs_hostname :: string
  hs_age_seconds :: nat
  hs_is_fresh :: bool
  hs_ttl_seconds :: nat

definition host_status_of :: "instant \<Rightarrow> cache_entry \<Rightarrow> nat \<Rightarrow> string \<Rightarrow> host_status option" where
  "host_status_of now entry ttl h =
     map_option (\<lambda>age. \<lparr>hs_hostname = h, hs_age_seconds = age, hs_is_fresh = is_host_fresh now entry h (Some ttl),
                        hs_ttl_seconds = ttl\<rparr>)
       (host_age_seconds now entry h)"

record member_status =
  mst_source_id :: string
  mst_cached :: bool
  mst_ownership_cached :: bool
  mst_ownership_mode :: ownership_mode
  mst_age_seconds :: "nat option"
  mst_is_fresh :: bool
  mst_ttl_seconds :: nat
  mst_total_hosts :: nat
  mst_sync_health :: "sync_health option"

record source_status_info =
  ssi_source_id :: string
  ssi_dataset_age_seconds :: nat
  ssi_dataset_is_fresh :: bool
  ssi_ttl_seconds :: nat
  ssi_total_hosts :: nat
  ssi_returned :: nat
  ssi_sync_health :: "sync_health option"
  ssi_hosts :: "host_status list"
  ssi_members :: "member_status list option"

definition source_ttl :: "source option \<Rightarrow> cache_entry \<Rightarrow> string \<Rightarrow> nat" where
  "source_ttl src entry h =
     (case src of
        None \<Rightarrow> as_secs (e_ttl entry)
      | Some s \<Rightarrow> effective_ttl s h (group_ttl_by_host s (e_dataset entry)) (as_secs (e_ttl entry)))"

definition status_of_source ::
  "instant \<Rightarrow> string \<Rightarrow> source option \<Rightarrow> health_registry \<Rightarrow> cache_entry \<Rightarrow> status_params \<Rightarrow> source_status_info" where
  "status_of_source now i src health entry p =
     (let hosts = List.map_filter (\<lambda>h. host_status_of now entry (source_ttl src entry h) h)
            (resolve_hostnames (e_dataset entry) (st_host p) (st_group p))
      in \<lparr>ssi_source_id = i, ssi_dataset_age_seconds = age_seconds now entry,
          ssi_dataset_is_fresh = is_fresh now entry, ssi_ttl_seconds = as_secs (e_ttl entry),
          ssi_total_hosts = fcard (fmdom (hostvars (e_dataset entry))), ssi_returned = length hosts,
          ssi_sync_health = health_get now health i, ssi_hosts = hosts, ssi_members = None\<rparr>)"
section \<open>What a query selects\<close>

definition named_by_groups :: "dataset \<Rightarrow> string option \<Rightarrow> string \<Rightarrow> bool" where
  "named_by_groups d grp h \<longleftrightarrow>
     (case grp of None \<Rightarrow> True | Some g \<Rightarrow> \<exists>n \<in> set (csv_items g). h \<in> set (group_members d n))"

lemma resolve_hostnames_props [simp]:
  "sorted (resolve_hostnames d host grp)" "distinct (resolve_hostnames d host grp)"
  by (simp_all add: resolve_hostnames_def Let_def)

lemma resolve_hostnames_set:
  "h \<in> set (resolve_hostnames d host grp) \<longleftrightarrow>
     (case host of Some hs \<Rightarrow> h \<in> set (csv_items hs) \<and> has (hostvars d) h
      | None \<Rightarrow> grp = None \<longrightarrow> has (hostvars d) h)
     \<and> named_by_groups d grp h"
  by (auto simp: resolve_hostnames_def named_by_groups_def fmlookup_fmdom' split: option.splits)

lemma narrow_props:
  "sorted hosts \<Longrightarrow> sorted (narrow number show_json f vars hosts)"
  "distinct hosts \<Longrightarrow> distinct (narrow number show_json f vars hosts)"
  by (simp_all add: narrow_def sorted_wrt_filter)

lemma narrow_set:
  "h \<in> set (narrow number show_json f vars hosts) \<longleftrightarrow>
     h \<in> set hosts \<and> (hf_is_empty f \<or> (\<exists>v. fmlookup vars h = Some v \<and> filter_matches number show_json f h v))"
  by (auto simp: narrow_def split: option.splits)

lemma source_selection_props [simp]:
  "sorted (source_selection number show_json d f host grp)" "distinct (source_selection number show_json d f host grp)"
  by (simp_all add: source_selection_def narrow_props)

lemma source_selection_set:
  "h \<in> set (source_selection number show_json d f host grp) \<longleftrightarrow>
     (case exact_hosts host of Some hs \<Rightarrow> h \<in> set (csv_items hs) \<and> has (hostvars d) h
      | None \<Rightarrow> grp = None \<longrightarrow> has (hostvars d) h)
     \<and> named_by_groups d grp h
     \<and> (hf_is_empty f \<or> (\<exists>v. fmlookup (hostvars d) h = Some v \<and> filter_matches number show_json f h v))"
  by (auto simp: source_selection_def narrow_set resolve_hostnames_set)

section \<open>Pages\<close>

lemma pages_concat: "concat (map (\<lambda>k. take l (drop (k * l) xs)) [0..<n]) = take (n * l) xs"
proof (induction n)
  case (Suc n)
  have "take (Suc n * l) xs = take (n * l) xs @ take l (drop (n * l) xs)"
    by (simp add: take_add add.commute [of l])
  with Suc show ?case by simp
qed simp

lemma page_vars_lookup:
  "fmlookup (page_vars s vars page) h = (if h \<in> set page then map_option (shape_host s) (fmlookup vars h) else None)"
  by (simp add: page_vars_def split: option.split)

lemma page_vars_keys:
  assumes "sorted page" and "distinct page"
  shows "fm_keys (page_vars s vars page) = filter (has vars) page"
proof (rule sorted_distinct_set_unique)
  show "set (fm_keys (page_vars s vars page)) = set (filter (has vars) page)"
    by (auto simp: fmlookup_fmdom' page_vars_lookup split: if_splits)
qed (use assms in \<open>simp_all add: sorted_wrt_filter\<close>)

lemma sorted_take_drop: "sorted xs \<Longrightarrow> sorted (take l (drop k xs))" "distinct xs \<Longrightarrow> distinct (take l (drop k xs))"
  by (simp_all add: sorted_wrt_take sorted_wrt_drop)

definition nth_page :: "nat \<Rightarrow> dataset_params \<Rightarrow> nat \<Rightarrow> dataset_params" where
  "nth_page l p k = p\<lparr>dp_limit := Some l, dp_offset := Some (k * l)\<rparr>"

lemma nth_page_simps [simp]:
  "dp_host (nth_page l p k) = dp_host p" "dp_group (nth_page l p k) = dp_group p"
  "var_shape (nth_page l p k) = var_shape p" "page_hosts (nth_page l p k) xs = take l (drop (k * l) xs)"
  by (simp_all add: nth_page_def var_shape_def page_hosts_def)

lemma pages_keys:
  assumes "sorted sel" and "distinct sel" and "length sel \<le> n * l"
  shows "concat (map (\<lambda>k. fm_keys (page_vars s vars (take l (drop (k * l) sel)))) [0..<n]) = filter (has vars) sel"
proof -
  have "map (\<lambda>k. fm_keys (page_vars s vars (take l (drop (k * l) sel)))) [0..<n]
      = map (filter (has vars)) (map (\<lambda>k. take l (drop (k * l) sel)) [0..<n])"
    using assms(1,2) by (simp add: page_vars_keys sorted_take_drop)
  then show ?thesis
    using pages_concat [of l sel n] assms(3) by (simp only: filter_concat [symmetric]) simp
qed

text \<open>
  C36. The pages of a query add up to what it selects: whatever the page size, the consecutive pages list each
  selected host that has variables exactly once, in order and with those variables shaped, every page reports
  the same total, and the selection is the hosts that \<open>host\<close>, \<open>group\<close> and \<open>filter\<close> all allow.
\<close>

theorem pages_cover_selection:
  fixes number :: "string \<Rightarrow> 'f::linorder option"
  assumes "length (source_selection number show_json d f (dp_host p) (dp_group p)) \<le> n * l"
  shows "let sel = source_selection number show_json d f (dp_host p) (dp_group p);
             page = (\<lambda>k. source_page number show_json i d f (nth_page l p k))
         in concat (map (\<lambda>k. fm_keys (pg_hostvars (page k))) [0..<n]) = filter (has (hostvars d)) sel
            \<and> (\<forall>k. pg_total_hosts (page k) = length sel
                  \<and> (\<forall>h v. fmlookup (pg_hostvars (page k)) h = Some v
                       \<longrightarrow> (\<exists>w. fmlookup (hostvars d) h = Some w \<and> v = shape_host (var_shape p) w)))
            \<and> (\<forall>h. h \<in> set sel \<longleftrightarrow>
                 (case exact_hosts (dp_host p) of
                    Some hs \<Rightarrow> h \<in> set (csv_items hs) \<and> has (hostvars d) h
                  | None \<Rightarrow> dp_group p = None \<longrightarrow> has (hostvars d) h)
                 \<and> named_by_groups d (dp_group p) h
                 \<and> (hf_is_empty f
                     \<or> (\<exists>v. fmlookup (hostvars d) h = Some v \<and> filter_matches number show_json f h v)))"
proof -
  let ?sel = "source_selection number show_json d f (dp_host p) (dp_group p)"
  have "concat (map (\<lambda>k. fm_keys (pg_hostvars (source_page number show_json i d f (nth_page l p k)))) [0..<n])
      = filter (has (hostvars d)) ?sel"
    using pages_keys [OF _ _ assms] by (simp add: source_page_def Let_def)
  then show ?thesis
    by (simp add: Let_def source_selection_set) (auto simp: source_page_def Let_def page_vars_lookup split: if_splits)
qed
definition plain_params :: dataset_params where
  "plain_params =
     \<lparr>dp_host = None, dp_group = None, dp_limit = None, dp_offset = None, dp_fields = None, dp_exclude_fields = None,
      dp_filter = None, dp_groups = None, dp_refresh = None\<rparr>"

definition no_filter :: host_filter where
  "no_filter = \<lparr>hf_patterns = [], hf_conditions = []\<rparr>"

lemma no_filter_selection [simp]:
  "source_selection number show_json d no_filter host grp = resolve_hostnames d (exact_hosts host) grp"
  by (simp add: source_selection_def narrow_def no_filter_def hf_is_empty_def)

lemma resolve_all [simp]: "resolve_hostnames d None None = fm_keys (hostvars d)"
  by (rule sorted_distinct_set_unique) (simp_all add: resolve_hostnames_set named_by_groups_def set_eq_iff fmlookup_fmdom')

theorem pages_cover_selection_witness:
  "concat (map (\<lambda>k. fm_keys (pg_hostvars (source_page (\<lambda>_. None :: nat option) (\<lambda>_. []) ''vm'' sample_dataset no_filter
       (nth_page 1 plain_params k)))) [0..<5]) = fm_keys (hostvars sample_dataset)"
proof -
  have e: "exact_hosts None = None" by (simp add: exact_hosts_def)
  have len: "length (fm_keys (hostvars sample_dataset)) \<le> 5 * 1" by code_simp
  have "filter (has (hostvars sample_dataset)) (fm_keys (hostvars sample_dataset)) = fm_keys (hostvars sample_dataset)"
    by (simp add: filter_id_conv fmlookup_fmdom')
  then show ?thesis
    using pages_cover_selection [where p = plain_params and f = no_filter and d = sample_dataset and l = 1 and n = 5
        and number = "\<lambda>_. None :: nat option" and show_json = "\<lambda>_. []" and i = "''vm''"] len
    by (simp add: plain_params_def e Let_def)
qed

section \<open>What stays behind\<close>

lemma shape_host_drops:
  assumes "path \<in> set (vs_drop s)"
  shows "fmlookup (shape_host s v) path = None \<and> (fmlookup v path = None \<longrightarrow> lookup (shape_host s v) path = None)
    \<and> sub (JObj (shape_host s v)) (JObj v)"
proof -
  have "\<not> is_identity s" using assms by (auto simp: is_identity_def)
  then show ?thesis using select_host_excludes [OF assms, of v] by (simp add: shape_host_def)
qed

lemma shape_read_group_drops:
  assumes "path \<in> set (vs_drop s)" and "g_vars (shape_read_group s g) = Some v"
  shows "fmlookup v path = None"
proof -
  have "\<not> drops_nothing s" using assms(1) by (auto simp: drops_nothing_def)
  with assms show ?thesis by (auto simp: shape_read_group_def select_group_vars_def drop_paths_gone)
qed

lemma trim_group_vars [simp]: "g_vars (trim_group slim n g) = g_vars g"
  by (simp add: trim_group_def split: option.split)

lemma page_groups_lookup:
  assumes "page_groups p gs page = Some out" and "fmlookup out n = Some g"
  shows "\<exists>g'. fmlookup gs n = Some g' \<and> in_scope p n \<and> g_vars g = g_vars (shape_read_group (var_shape p) g')"
  using assms by (auto simp: page_groups_def Let_def split: groups_mode.splits option.splits if_splits)

lemma page_groups_drop:
  assumes "page_groups p gs page = Some out" and "fmlookup out n = Some g" and "g_vars g = Some v"
    and "path \<in> set (comma_names (dp_exclude_fields p))"
  shows "fmlookup v path = None"
proof -
  from page_groups_lookup [OF assms(1,2)] assms(3)
  obtain g' where "g_vars (shape_read_group (var_shape p) g') = Some v" by auto
  moreover have "path \<in> set (vs_drop (var_shape p))" using assms(4) by (simp add: var_shape_def)
  ultimately show ?thesis by (rule shape_read_group_drops [rotated])
qed

section \<open>The groups of a page\<close>

lemma group_rows_props:
  "map fst (group_rows gs) = fm_keys gs"
  "map_of (group_rows gs) n = map_option (\<lambda>g. (g_hosts g, g_children g)) (fmlookup gs n)"
proof -
  show "map fst (group_rows gs) = fm_keys gs" by (simp add: group_rows_def Let_def comp_def)
  have "map_of (map (\<lambda>n. (n, f n)) ks) n = (if n \<in> set ks then Some (f n) else None)" for f :: "string \<Rightarrow> string list \<times> string list" and ks
    by (induction ks) auto
  then show "map_of (group_rows gs) n = map_option (\<lambda>g. (g_hosts g, g_children g)) (fmlookup gs n)"
    by (auto simp: group_rows_def Let_def fmlookup_fmdom')
qed

lemma matching_rows:
  "fmlookup (matching (group_rows gs) page) n =
     (case fmlookup gs n of
        None \<Rightarrow> None
      | Some g \<Rightarrow>
          if reaches (group_rows gs) page n
          then Some \<lparr>tr_hosts = filter (\<lambda>h. h \<in> page) (g_hosts g),
                     tr_children = filter (reaches (group_rows gs) page) (g_children g)\<rparr>
          else None)"
  using group_trim_exact [of "group_rows gs" page n] by (simp add: group_rows_props split: option.splits)

lemma page_groups_matching:
  assumes "dp_groups p = Some Groups_matching"
  shows "page_groups p gs page =
    (let all = fm_retain (\<lambda>n _. in_scope p n) gs; rows = group_rows all
     in Some (fmmap_keys (\<lambda>n g. (shape_read_group (var_shape p) g)
                 \<lparr>g_hosts := filter (\<lambda>h. h \<in> set page) (g_hosts g),
                  g_children := filter (reaches rows (set page)) (g_children g)\<rparr>)
            (fm_retain (\<lambda>n _. reaches rows (set page) n) all)))"
  using assms
  by (auto simp: page_groups_def Let_def trim_group_def matching_rows intro!: fmap_ext split: option.splits)

end
