(* ===== verification/View_Read.thy ===== *)
theory View_Read
  imports Dataset_Read
begin

text \<open>
  Reading a view over HTTP: \<open>src/src/adapters/in/http/views.rs\<close>. A view answers on the routes of a source in the
  same shapes; each function here takes one snapshot (\<open>Views\<close>) and answers from it. A refresh is split among the
  members that own the named hosts, checked for every one of them before the first gather.
\<close>

section \<open>Which hosts\<close>

definition view_select ::
  "string option \<Rightarrow> string option \<Rightarrow> view_snapshot \<Rightarrow> view_snapshot \<times> (string list + string list)" where
  "view_select host grp vs =
     (case grp of
        None \<Rightarrow> select host None vs
      | Some gs \<Rightarrow>
          (let in_named = concat (map (\<lambda>name. case snd (select None (Some name) vs) of Inl _ \<Rightarrow> [] | Inr hs \<Rightarrow> hs)
                                    (csv_items gs))
           in if host = None then (vs, Inr (sort_dedup (filter (serves vs) in_named)))
              else (case select host None vs of
                      (vs, Inl e) \<Rightarrow> (vs, Inl e)
                    | (vs, Inr hosts) \<Rightarrow> (vs, Inr (filter (\<lambda>h. h \<in> set in_named) hosts)))))"

definition unclaimed_error :: "string \<Rightarrow> view \<Rightarrow> string list \<Rightarrow> api_error" where
  "unclaimed_error i v unclaimed = View_unclaimed i unclaimed (member_ids v)"

definition view_selection where
  "view_selection number show_json i v f host grp vs =
     (case view_select (exact_hosts host) grp vs of
        (vs, Inl unclaimed) \<Rightarrow> (vs, Inl (unclaimed_error i v unclaimed))
      | (vs, Inr hosts) \<Rightarrow>
          if hf_is_empty f then (vs, Inr hosts)
          else (let (vs, vars) = view_hostvars hosts vs in (vs, Inr (narrow number show_json f vars hosts))))"

section \<open>The dataset\<close>

definition view_page :: "string \<Rightarrow> string list \<Rightarrow> dataset_params \<Rightarrow> view_snapshot \<Rightarrow> dataset_page" where
  "view_page i selection p vs =
     (let page = page_hosts p selection;
          vars = fmmap (shape_host (var_shape p)) (snd (view_hostvars page vs))
      in \<lparr>pg_source_id = i, pg_total_hosts = length selection,
          pg_offset = (case dp_offset p of None \<Rightarrow> 0 | Some n \<Rightarrow> n), pg_limit = dp_limit p,
          pg_returned = fcard (fmdom vars), pg_hostvars = vars,
          pg_groups = page_groups p (view_groups vs) page\<rparr>)"

text \<open>The answer from a snapshot; \<open>gen\<close> is the counter of writes, read after the snapshot was taken.\<close>

definition answer_view where
  "answer_view env gen i v p f inm outcome vs =
     (case view_selection (rd_number env) (rd_show_json env) i v f (dp_host p) (dp_group p) vs of
        (vs, Inl e) \<Rightarrow> Inl e
      | (vs, Inr selection) \<Rightarrow>
          (let rh = with_refresh_headers (rd_header_ok env) outcome;
               etag = query_etag (rd_hash_query env) i p gen
           in if if_none_match inm etag then Inr (not_modified etag rh)
              else
                (let body = (if is_plain p then View_body (snd (view_dataset selection vs))
                             else Page_body (view_page i selection p vs))
                 in case rd_body_error env body of
                      Some e \<Rightarrow> Inl (Serialize_failed e)
                    | None \<Rightarrow> Inr (ok_reply etag rh body))))"

section \<open>A refresh of a view\<close>

text \<open>The first routed member that may not be refreshed.\<close>

fun refresh_refused :: "string \<Rightarrow> string list \<Rightarrow> (member_snapshot \<times> string list) list \<Rightarrow> api_error option" where
  "refresh_refused view_id hosts [] = None"
| "refresh_refused view_id hosts ((m, _) # routed) =
     (case ms_source m of
        None \<Rightarrow> Some (Source_not_configured (ms_source_id m))
      | Some src \<Rightarrow>
          if s_allow_on_demand_refresh src then refresh_refused view_id hosts routed
          else Some (View_refresh_refused view_id hosts (ms_source_id m)))"

text \<open>
  The gathers, one member after another. \<open>source_for_sync\<close> reads the configuration again for each member,
  \<open>cfgs\<close>; the \<open>expect\<close> takes the member for a source of it, and the task panics when it is not: \<open>None\<close>.
\<close>

fun gather_members ::
  "gather_env \<Rightarrow> (string \<Rightarrow> runtime_config) \<Rightarrow> nat option \<Rightarrow> (member_snapshot \<times> string list) list
     \<Rightarrow> sync_state \<Rightarrow> refresh_outcome \<times> string list \<Rightarrow> sync_state \<times> (refresh_outcome \<times> string list) option" where
  "gather_members ge cfgs ttl_override [] st acc = (st, Some acc)"
| "gather_members ge cfgs ttl_override ((m, hosts) # routed) st (out, errors) =
     (case executed_source ge (cfgs (ms_source_id m)) (ms_source_id m) of
        None \<Rightarrow> (st, None)
      | Some src \<Rightarrow>
          (let (st, o') = gather_hosts ge (ms_source_id m) src hosts ttl_override st
           in gather_members ge cfgs ttl_override routed st
                (out\<lparr>refreshed := refreshed out @ refreshed o', already_fresh := already_fresh out + already_fresh o'\<rparr>,
                 case rf_error o' of None \<Rightarrow> errors | Some e \<Rightarrow> errors @ [ms_source_id m @ '': '' @ e])))"

definition refresh_view ::
  "gather_env \<Rightarrow> runtime_config \<Rightarrow> (string \<Rightarrow> runtime_config) \<Rightarrow> string \<Rightarrow> view \<Rightarrow> string option \<Rightarrow> sync_state
     \<Rightarrow> sync_state \<times> (api_error + refresh_outcome) option" where
  "refresh_view ge cfg cfgs i v host st =
     (let hosts = comma_names host in
      if hosts = [] then (st, Some (Inl Refresh_needs_hosts))
      else
        (case snd (route hosts (snapshot (ss_cache st) (rc_sources cfg) (ss_scopes st) i v)) of
           Inl unclaimed \<Rightarrow> (st, Some (Inl (unclaimed_error i v unclaimed)))
         | Inr routed \<Rightarrow>
             (case refresh_refused i hosts routed of
                Some e \<Rightarrow> (st, Some (Inl e))
              | None \<Rightarrow>
                  (case gather_members ge cfgs (v_ttl_seconds v) routed st (no_refresh, []) of
                     (st, None) \<Rightarrow> (st, None)
                   | (st, Some (out, errors)) \<Rightarrow>
                       (st, Some (Inr (if errors \<noteq> [] then out\<lparr>rf_error := Some (join ''; '' errors)\<rparr> else out)))))))"

section \<open>The other reads\<close>

definition member_statuses :: "instant \<Rightarrow> health_registry \<Rightarrow> view \<Rightarrow> view_snapshot \<Rightarrow> member_status list" where
  "member_statuses now health v vs =
     map (\<lambda>m. \<lparr>mst_source_id = ms_source_id m, mst_cached = ms_entry m \<noteq> None,
               mst_ownership_cached = ownership_cached m, mst_ownership_mode = ms_mode m,
               mst_age_seconds = map_option (age_seconds now) (ms_entry m),
               mst_is_fresh = (case ms_entry m of None \<Rightarrow> False | Some e \<Rightarrow> is_fresh now e),
               mst_ttl_seconds = default_ttl m v,
               mst_total_hosts = (case ms_entry m of None \<Rightarrow> 0 | Some e \<Rightarrow> fcard (fmdom (hostvars (e_dataset e)))),
               mst_sync_health = health_get now health (ms_source_id m)\<rparr>)
       (vs_members vs)"

definition view_host_status :: "instant \<Rightarrow> view \<Rightarrow> view_snapshot \<Rightarrow> string \<Rightarrow> host_status option" where
  "view_host_status now v vs h =
     Option.bind (owner_index vs h) (\<lambda>j. let m = vs_members vs ! j in
       Option.bind (ms_entry m) (\<lambda>entry.
         host_status_of now entry (ms_effective_ttl m v h (ms_group_ttls m)) h))"

definition status_of_view ::
  "instant \<Rightarrow> string \<Rightarrow> view \<Rightarrow> health_registry \<Rightarrow> status_params \<Rightarrow> view_snapshot
     \<Rightarrow> api_error + source_status_info" where
  "status_of_view now i v health p vs =
     (case view_select (st_host p) (st_group p) vs of
        (vs, Inl unclaimed) \<Rightarrow> Inl (unclaimed_error i v unclaimed)
      | (vs, Inr selection) \<Rightarrow>
          (let hosts = List.map_filter (view_host_status now v vs) selection
           in Inr \<lparr>ssi_source_id = i, ssi_dataset_age_seconds = view_age_seconds now vs,
                   ssi_dataset_is_fresh = view_is_fresh now vs, ssi_ttl_seconds = view_ttl_seconds vs,
                   ssi_total_hosts = length (snd (view_hosts vs)), ssi_returned = length hosts,
                   ssi_sync_health = None, ssi_hosts = hosts,
                   ssi_members = Some (member_statuses now health v vs)\<rparr>))"

definition view_group_infos :: "view_snapshot \<Rightarrow> read_group_info list" where
  "view_group_infos vs =
     map (\<lambda>n. let g = the (fmlookup (view_groups vs) n) in
            \<lparr>gi_name = n, gi_host_count = length (g_hosts g), gi_children = g_children g,
             gi_has_vars = g_vars g \<noteq> None\<rparr>)
       (fm_keys (view_groups vs))"

definition view_group :: "string \<Rightarrow> view_snapshot \<Rightarrow> group_detail option" where
  "view_group name vs =
     map_option (\<lambda>g. \<lparr>gd_name = name, gd_host_count = length (g_hosts g), gd_children = g_children g,
                      gd_vars = (case g_vars g of None \<Rightarrow> fmempty | Some vars \<Rightarrow> vars)\<rparr>)
       (fmlookup (view_groups vs) name)"

definition hosts_of_view where
  "hosts_of_view number show_json i v f p vs =
     (if hosts_is_plain p then Inr (list_hosts i (snd (view_hosts vs)))
      else (case view_selection number show_json i v f (hp_host p) (hp_group p) vs of
              (vs, Inl e) \<Rightarrow> Inl e
            | (vs, Inr hosts) \<Rightarrow> Inr (list_hosts i (sort_dedup hosts))))"

definition write_refused :: "string \<Rightarrow> view \<Rightarrow> string \<Rightarrow> api_error" where
  "write_refused i v action = View_write_refused i (member_ids v) action"

end
