(* ===== verification/Source_Routes.thy ===== *)
theory Source_Routes
  imports View_Read
begin

text \<open>
  The read routes of sources and views: the handlers of \<open>src/src/adapters/in/http/sources.rs\<close> and
  \<open>src/src/adapters/in/http/detail.rs\<close>, which check the caller, tell a view from a source and answer from one
  reading of the cache. The lemmas say what a sequence of pages gives, when a validator may be trusted, that
  \<open>/status\<close> and a refresh judge a host the same way, and what a restricted key is never shown.

  The links of an answer (\<open>url\<close>, \<open>related\<close>) and the ages counted from the wall clock are left out.
\<close>

section \<open>The dataset\<close>

text \<open>
  \<open>during\<close>: the cache calls of other tasks between the reading of the entry, or of the snapshot, and that of
  the counter of writes. \<open>None\<close> is a task that panicked.
\<close>

definition fill_entry :: "string \<Rightarrow> cache_entry \<Rightarrow> cache_entry \<Rightarrow> sync_state \<Rightarrow> sync_state" where
  "fill_entry i old entry st =
     (if mc_get (ss_cache st) i = Some old
      then st\<lparr>ss_cache := (ss_cache st)\<lparr>store := fmupd i entry (store (ss_cache st))\<rparr>\<rparr> else st)"

definition read_source where
  "read_source env i p f inm during outcome st =
     (case mc_get (ss_cache st) i of
        None \<Rightarrow> (st, Inl (Source_not_cached i))
      | Some old \<Rightarrow>
          (let st = st\<lparr>ss_cache := fold mc_call during (ss_cache st)\<rparr>;
               (entry, r) = answer_source env (generation (ss_cache st)) i p f inm outcome old
           in (fill_entry i old entry st, r)))"

definition source_dataset where
  "source_dataset env ge cfg i p inm during st =
     (case dataset_filter p of
        Inl e \<Rightarrow> (st, Inl e)
      | Inr f \<Rightarrow>
          if dp_refresh p = Some True then
            (case refresh_before_reading ge cfg i (dp_host p) st of
               (st, Inl e) \<Rightarrow> (st, Inl e)
             | (st, Inr out) \<Rightarrow> read_source env i p f inm during (Some out) st)
          else read_source env i p f inm during None st)"

definition read_view where
  "read_view env cfg i v p f inm during outcome st =
     (let vs = snapshot (ss_cache st) (rc_sources cfg) (ss_scopes st) i v;
          st = st\<lparr>ss_cache := fold mc_call during (ss_cache st)\<rparr>
      in (st, answer_view env (generation (ss_cache st)) i v p f inm outcome vs))"

definition view_dataset_route where
  "view_dataset_route env ge cfg cfgs i v p inm during st =
     (case dataset_filter p of
        Inl e \<Rightarrow> (st, Some (Inl e))
      | Inr f \<Rightarrow>
          if dp_refresh p = Some True then
            (case refresh_view ge cfg cfgs i v (dp_host p) st of
               (st, None) \<Rightarrow> (st, None)
             | (st, Some (Inl e)) \<Rightarrow> (st, Some (Inl e))
             | (st, Some (Inr out)) \<Rightarrow> map_prod (\<lambda>x. x) Some (read_view env (cfgs i) i v p f inm during (Some out) st))
          else map_prod (\<lambda>x. x) Some (read_view env (cfgs i) i v p f inm during None st))"

definition get_source_dataset where
  "get_source_dataset env ge cfg cfgs perms i p inm during st =
     (if \<not> allows_source perms i then (st, Some (Inl (Source_forbidden i)))
      else
        (case fmlookup (rc_views cfg) i of
           Some v \<Rightarrow> view_dataset_route env ge cfg cfgs i v p inm during st
         | None \<Rightarrow> map_prod (\<lambda>x. x) Some (source_dataset env ge cfg i p inm during st)))"

section \<open>The other routes\<close>

definition with_entry :: "sync_state \<Rightarrow> string \<Rightarrow> (cache_entry \<Rightarrow> api_error + 'a) \<Rightarrow> api_error + 'a" where
  "with_entry st i f =
     (case mc_get (ss_cache st) i of None \<Rightarrow> Inl (Source_not_cached i) | Some entry \<Rightarrow> f entry)"

definition view_of :: "runtime_config \<Rightarrow> sync_state \<Rightarrow> string \<Rightarrow> view \<Rightarrow> view_snapshot" where
  "view_of cfg st i v = snapshot (ss_cache st) (rc_sources cfg) (ss_scopes st) i v"

definition list_source_groups ::
  "runtime_config \<Rightarrow> permissions \<Rightarrow> sync_state \<Rightarrow> string \<Rightarrow> api_error + read_group_info list" where
  "list_source_groups cfg perms st i =
     (if \<not> allows_source perms i then Inl (Source_forbidden i)
      else
        (case fmlookup (rc_views cfg) i of
           Some v \<Rightarrow> Inr (view_group_infos (view_of cfg st i v))
         | None \<Rightarrow> with_entry st i (\<lambda>entry. Inr (source_groups (e_dataset entry)))))"

definition get_source_group ::
  "runtime_config \<Rightarrow> permissions \<Rightarrow> sync_state \<Rightarrow> string \<Rightarrow> string \<Rightarrow> api_error + group_detail" where
  "get_source_group cfg perms st i name =
     (if \<not> allows_source perms i then Inl (Source_forbidden i)
      else
        (case fmlookup (rc_views cfg) i of
           Some v \<Rightarrow> (case view_group name (view_of cfg st i v) of
               None \<Rightarrow> Inl (No_such_group_in i name) | Some g \<Rightarrow> Inr g)
         | None \<Rightarrow> with_entry st i (\<lambda>entry. source_group i (e_dataset entry) name)))"

definition list_source_hosts where
  "list_source_hosts number show_json cfg perms st i p =
     (if \<not> allows_source perms i then Inl (Source_forbidden i)
      else
        (case hosts_filter (hp_host p) (hp_filter p) of
           Inl e \<Rightarrow> Inl e
         | Inr f \<Rightarrow>
             (case fmlookup (rc_views cfg) i of
                Some v \<Rightarrow> hosts_of_view number show_json i v f p (view_of cfg st i v)
              | None \<Rightarrow> with_entry st i (\<lambda>entry. Inr (source_hosts number show_json i (e_dataset entry) f p)))))"

definition source_status ::
  "instant \<Rightarrow> runtime_config \<Rightarrow> permissions \<Rightarrow> sync_state \<Rightarrow> string \<Rightarrow> status_params
     \<Rightarrow> api_error + source_status_info" where
  "source_status now cfg perms st i p =
     (if \<not> allows_source perms i then Inl (Source_forbidden i)
      else
        (case fmlookup (rc_views cfg) i of
           Some v \<Rightarrow> status_of_view now i v (ss_health st) p (view_of cfg st i v)
         | None \<Rightarrow> with_entry st i
             (\<lambda>entry. Inr (status_of_source now i (fmlookup (rc_sources cfg) i) (ss_health st) entry p))))"

section \<open>The list and the page of one source\<close>

datatype source_kind = Kind_source | Kind_view

record cached_source_info =
  csi_source_id :: string
  csi_kind :: source_kind
  csi_cached :: bool
  csi_federated :: bool
  csi_is_fresh :: bool
  csi_age_seconds :: "nat option"
  csi_total_hosts :: "nat option"
  csi_sync_health :: "sync_health option"

definition host_total :: "cache_entry \<Rightarrow> nat" where
  "host_total e = fcard (fmdom (hostvars (e_dataset e)))"

definition is_remote :: "source \<Rightarrow> bool" where
  "is_remote s \<longleftrightarrow> s_connector_type s = CT_remote"

definition source_info :: "instant \<Rightarrow> runtime_config \<Rightarrow> sync_state \<Rightarrow> string \<Rightarrow> cached_source_info" where
  "source_info now cfg st i =
     (let entry = mc_get (ss_cache st) i
      in \<lparr>csi_source_id = i, csi_kind = Kind_source, csi_cached = entry \<noteq> None,
          csi_federated = (case fmlookup (rc_sources cfg) i of None \<Rightarrow> False | Some s \<Rightarrow> is_remote s),
          csi_is_fresh = (case entry of None \<Rightarrow> False | Some e \<Rightarrow> is_fresh now e),
          csi_age_seconds = map_option (age_seconds now) entry,
          csi_total_hosts = map_option host_total entry,
          csi_sync_health = health_get now (ss_health st) i\<rparr>)"

definition view_cached :: "view_snapshot \<Rightarrow> bool" where
  "view_cached vs \<longleftrightarrow> list_ex (\<lambda>m. ms_entry m \<noteq> None) (vs_members vs)"

definition when_cached :: "view_snapshot \<Rightarrow> 'a \<Rightarrow> 'a option" where
  "when_cached vs x = (if view_cached vs then Some x else None)"

definition view_info :: "instant \<Rightarrow> runtime_config \<Rightarrow> sync_state \<Rightarrow> string \<Rightarrow> view \<Rightarrow> cached_source_info" where
  "view_info now cfg st i v =
     (let vs = view_of cfg st i v
      in \<lparr>csi_source_id = i, csi_kind = Kind_view, csi_cached = view_cached vs, csi_federated = False,
          csi_is_fresh = (view_cached vs \<and> view_is_fresh now vs),
          csi_age_seconds = when_cached vs (view_age_seconds now vs),
          csi_total_hosts = when_cached vs (length (snd (view_hosts vs))),
          csi_sync_health = None\<rparr>)"

definition list_cached_sources ::
  "instant \<Rightarrow> runtime_config \<Rightarrow> permissions \<Rightarrow> sync_state \<Rightarrow> bool option \<Rightarrow> cached_source_info list" where
  "list_cached_sources now cfg perms st only_cached =
     (let ids = sort_dedup (fm_keys (rc_sources cfg) @ mc_keys (ss_cache st))
      in map (source_info now cfg st)
           (filter (\<lambda>i. allows_source perms i \<and> (only_cached \<noteq> Some True \<or> mc_get (ss_cache st) i \<noteq> None)) ids)
         @ map (\<lambda>i. view_info now cfg st i (the (fmlookup (rc_views cfg) i)))
             (filter (allows_source perms) (fm_keys (rc_views cfg))))"

record run_info =
  ri_started_at :: nat
  ri_duration_ms :: nat
  ri_trigger :: string
  ri_by :: "string option"
  ri_scope :: "string option"
  ri_error :: "string option"
  ri_hosts :: "nat option"
  ri_groups :: "nat option"
  ri_revision_before :: "string option"
  ri_revision :: "string option"

definition run_info_of :: "bool \<Rightarrow> run_record \<Rightarrow> run_info" where
  "run_info_of who run =
     \<lparr>ri_started_at = started_at run, ri_duration_ms = duration_ms run, ri_trigger = trigger_name (trigger run),
      ri_by = (if who then run_by run else None), ri_scope = run_scope run, ri_error = run_error run,
      ri_hosts = run_hosts run, ri_groups = run_groups run, ri_revision_before = revision_before run,
      ri_revision = revision run\<rparr>"

record gathering =
  gt_connector :: string
  gt_connector_type :: connector_type
  gt_project_id :: "string option"
  gt_script_path :: string
  gt_location :: "string option"
  gt_inline_script :: bool
  gt_sync_mode :: sync_mode
  gt_timeout_seconds :: nat
  gt_sync_interval_seconds :: "nat option"
  gt_schedule :: "string option"
  gt_credential_ids :: "string list"
  gt_allow_on_demand_refresh :: bool
  gt_remote_url :: "string option"
  gt_config_keys :: "string list"

definition runs_inline :: "source \<Rightarrow> bool" where
  "runs_inline s \<longleftrightarrow> s_connector_type s = CT_ssh \<and> s_ssh_location s = None"

definition gathering_of :: "source \<Rightarrow> gathering" where
  "gathering_of s =
     \<lparr>gt_connector = s_connector s, gt_connector_type = s_connector_type s, gt_project_id = s_project_id s,
      gt_script_path = (if runs_inline s then [] else s_script_path s),
      gt_location = map_option location_name (s_ssh_location s), gt_inline_script = runs_inline s,
      gt_sync_mode = s_sync_mode s, gt_timeout_seconds = s_timeout_seconds s,
      gt_sync_interval_seconds = s_sync_interval_seconds s, gt_schedule = s_schedule s,
      gt_credential_ids = s_credential_ids s, gt_allow_on_demand_refresh = s_allow_on_demand_refresh s,
      gt_remote_url = remote_url s, gt_config_keys = fm_keys (s_config s)\<rparr>"

record source_detail =
  det_source_id :: string
  det_item_name :: string
  det_kind :: source_kind
  det_cached :: bool
  det_federated :: bool
  det_is_fresh :: bool
  det_age :: "nat option"
  det_ttl :: nat
  det_total_hosts :: "nat option"
  det_total_groups :: "nat option"
  det_dataset_bytes :: "nat option"
  det_sync_health :: "sync_health option"
  det_history :: "run_info list"
  det_gathering :: "gathering option"
  det_members :: "member_status list option"

definition view_detail :: "instant \<Rightarrow> runtime_config \<Rightarrow> sync_state \<Rightarrow> string \<Rightarrow> view \<Rightarrow> source_detail" where
  "view_detail now cfg st i v =
     (let vs = view_of cfg st i v
      in \<lparr>det_source_id = i, det_item_name = v_name v, det_kind = Kind_view, det_cached = view_cached vs,
          det_federated = False, det_is_fresh = (view_cached vs \<and> view_is_fresh now vs),
          det_age = when_cached vs (view_age_seconds now vs), det_ttl = view_ttl_seconds vs,
          det_total_hosts = when_cached vs (length (snd (view_hosts vs))),
          det_total_groups = when_cached vs (fcard (fmdom (view_groups vs))), det_dataset_bytes = None,
          det_sync_health = None, det_history = [], det_gathering = None,
          det_members = Some (member_statuses now (ss_health st) v vs)\<rparr>)"

definition get_source ::
  "instant \<Rightarrow> runtime_config \<Rightarrow> permissions \<Rightarrow> sync_state \<Rightarrow> string \<Rightarrow> api_error + source_detail" where
  "get_source now cfg perms st i =
     (if \<not> allows_source perms i then Inl (Source_forbidden i)
      else
        (case fmlookup (rc_views cfg) i of
           Some v \<Rightarrow> Inr (view_detail now cfg st i v)
         | None \<Rightarrow>
             (case fmlookup (rc_sources cfg) i of
                None \<Rightarrow> Inl (Source_not_configured i)
              | Some s \<Rightarrow>
                  (let entry = mc_get (ss_cache st) i
                   in Inr \<lparr>det_source_id = i, det_item_name = s_name s, det_kind = Kind_source, det_cached = entry \<noteq> None,
                           det_federated = is_remote s,
                           det_is_fresh = (case entry of None \<Rightarrow> False | Some e \<Rightarrow> is_fresh now e),
                           det_age = map_option (age_seconds now) entry, det_ttl = s_ttl_seconds s,
                           det_total_hosts = map_option host_total entry,
                           det_total_groups = map_option (\<lambda>e. fcard (fmdom (groups (e_dataset e)))) entry,
                           det_dataset_bytes = Option.bind entry serialized_len,
                           det_sync_health = health_get now (ss_health st) i,
                           det_history = map (run_info_of (is_admin perms)) (history (ss_health st) i),
                           det_gathering = (if is_admin perms then Some (gathering_of s) else None),
                           det_members = None\<rparr>))))"
section \<open>What leaves\<close>

lemma source_page_vars:
  "fmlookup (pg_hostvars (source_page number show_json i d f p)) h = Some v
     \<Longrightarrow> \<exists>w. fmlookup (hostvars d) h = Some w \<and> v = shape_host (var_shape p) w"
  by (auto simp: source_page_def Let_def page_vars_lookup split: if_splits)

lemma view_page_vars:
  "fmlookup (pg_hostvars (view_page i sel p vs)) h = Some v
     \<Longrightarrow> \<exists>w. fmlookup (snd (view_hostvars (page_hosts p sel) vs)) h = Some w \<and> v = shape_host (var_shape p) w"
  by (auto simp: view_page_def Let_def)

text \<open>
  An excluded variable stays behind on every page, of a source and of a view, whatever \<open>fields\<close> and
  \<open>groups\<close> ask for: no host and no group of the page has a variable of an excluded name, a host has nothing at
  an excluded dotted path (unless it has a variable spelled with those dots, which the name then means), and no
  host has anything it did not have before.
\<close>

theorem excluded_fields_stay:
  fixes number :: "string \<Rightarrow> 'f::linorder option"
  assumes "path \<in> set (comma_names (dp_exclude_fields p))"
    and "page = source_page number show_json i d f p \<and> vars = hostvars d
         \<or> page = view_page i sel p vs \<and> vars = snd (view_hostvars (page_hosts p sel) vs)"
  shows "(\<forall>h v. fmlookup (pg_hostvars page) h = Some v \<longrightarrow>
            fmlookup v path = None
            \<and> (\<exists>w. fmlookup vars h = Some w \<and> sub (JObj v) (JObj w)
                  \<and> (fmlookup w path = None \<longrightarrow> lookup v path = None)))
    \<and> (\<forall>gs n g v. pg_groups page = Some gs \<longrightarrow> fmlookup gs n = Some g \<longrightarrow> g_vars g = Some v
            \<longrightarrow> fmlookup v path = None)"
proof
  have d: "path \<in> set (vs_drop (var_shape p))" using assms(1) by (simp add: var_shape_def)
  have w: "\<exists>w. fmlookup vars h = Some w \<and> v = shape_host (var_shape p) w" if "fmlookup (pg_hostvars page) h = Some v" for h v
    using assms(2) that by (elim disjE conjE) (simp_all add: source_page_vars view_page_vars)
  show "\<forall>h v. fmlookup (pg_hostvars page) h = Some v \<longrightarrow>
            fmlookup v path = None
            \<and> (\<exists>w. fmlookup vars h = Some w \<and> sub (JObj v) (JObj w)
                  \<and> (fmlookup w path = None \<longrightarrow> lookup v path = None))"
  proof (intro allI impI)
    fix h v assume "fmlookup (pg_hostvars page) h = Some v"
    then obtain x where x: "fmlookup vars h = Some x" "v = shape_host (var_shape p) x" using w by blast
    with shape_host_drops [OF d, of x]
    show "fmlookup v path = None
            \<and> (\<exists>w. fmlookup vars h = Some w \<and> sub (JObj v) (JObj w)
                  \<and> (fmlookup w path = None \<longrightarrow> lookup v path = None))" by simp
  qed
  obtain all hosts where "pg_groups page = page_groups p all hosts"
    using assms(2) by (auto simp: source_page_def view_page_def Let_def)
  then show "\<forall>gs n g v. pg_groups page = Some gs \<longrightarrow> fmlookup gs n = Some g \<longrightarrow> g_vars g = Some v
            \<longrightarrow> fmlookup v path = None"
    using page_groups_drop [OF _ _ _ assms(1)] by metis
qed

definition without_address :: dataset_params where
  "without_address = plain_params\<lparr>dp_exclude_fields := Some ''ansible_host''\<rparr>"

theorem excluded_fields_stay_witness:
  "let page = source_page (\<lambda>_. None :: nat option) (\<lambda>_. []) ''vm'' sample_dataset no_filter without_address
   in fmlookup (pg_hostvars page) ''web1'' \<noteq> None
      \<and> (\<forall>v. fmlookup (pg_hostvars page) ''web1'' = Some v \<longrightarrow> fmlookup v ''ansible_host'' = None)"
proof -
  let ?page = "source_page (\<lambda>_. None :: nat option) (\<lambda>_. []) ''vm'' sample_dataset no_filter without_address"
  have p: "''ansible_host'' \<in> set (comma_names (dp_exclude_fields without_address))" by code_simp
  have e: "exact_hosts None = None" by (simp add: exact_hosts_def)
  have "''web1'' \<in> fmdom' (hostvars sample_dataset)" by (simp add: sample_dataset_def)
  then have "fmlookup (pg_hostvars ?page) ''web1'' \<noteq> None"
    by (auto simp: source_page_def Let_def page_vars_lookup without_address_def plain_params_def e page_hosts_def
        fmlookup_fmdom')
  then show ?thesis
    using conjunct1 [OF excluded_fields_stay [OF p disjI1 [OF conjI [OF refl refl]]],
        of "\<lambda>_. None :: nat option" "\<lambda>_. []" "''vm''" sample_dataset no_filter]
    unfolding Let_def by blast
qed

text \<open>
  With \<open>groups=matching\<close> a page names nothing that is not on it: a group is there exactly when it is in
  scope and holds, itself or through its children, a host of the page; it lists its own members that are on the
  page and its children that are on the page too, with the variables it has without the trimming.
\<close>

theorem matching_groups_closed:
  assumes "dp_groups p = Some Groups_matching"
  shows "\<exists>out. page_groups p gs page = Some out
    \<and> (let rows = group_rows (fm_retain (\<lambda>n _. in_scope p n) gs) in
       \<forall>n. fmlookup out n =
         (case fmlookup gs n of
            Some g \<Rightarrow>
              if in_scope p n \<and> reaches rows (set page) n
              then Some ((shape_read_group (var_shape p) g)
                     \<lparr>g_hosts := filter (\<lambda>h. h \<in> set page) (g_hosts g),
                      g_children := filter (has out) (g_children g)\<rparr>)
              else None
          | None \<Rightarrow> None))"
proof -
  let ?all = "fm_retain (\<lambda>n _. in_scope p n) gs"
  let ?rows = "group_rows ?all"
  obtain out where out: "page_groups p gs page = Some out" using page_groups_matching [OF assms, of gs page] by (simp add: Let_def)
  have l: "fmlookup out n = (case fmlookup gs n of
            Some g \<Rightarrow>
              if in_scope p n \<and> reaches ?rows (set page) n
              then Some ((shape_read_group (var_shape p) g)
                     \<lparr>g_hosts := filter (\<lambda>h. h \<in> set page) (g_hosts g),
                      g_children := filter (reaches ?rows (set page)) (g_children g)\<rparr>)
              else None
          | None \<Rightarrow> None)" for n
    using out unfolding page_groups_matching [OF assms] Let_def by (auto split: option.splits)
  have "has ?all n" if "reaches ?rows (set page) n" for n
  proof -
    from that have "n \<in> fst ` set ?rows" by cases (force intro: rev_image_eqI)+
    then show ?thesis using group_rows_props(1) [of ?all] by (metis fm_keys_set fmlookup_fmdom' list.set_map)
  qed
  note in_all = this
  have "has out n \<longleftrightarrow> reaches ?rows (set page) n" for n
    using in_all [of n] by (cases "fmlookup gs n") (auto simp: l split: if_splits)
  then have f: "filter (has out) xs = filter (reaches ?rows (set page)) xs" for xs by simp
  show ?thesis
    unfolding Let_def
  proof (intro exI conjI allI)
    show "page_groups p gs page = Some out" by (rule out)
    show "fmlookup out n = (case fmlookup gs n of
            Some g \<Rightarrow>
              if in_scope p n \<and> reaches ?rows (set page) n
              then Some ((shape_read_group (var_shape p) g)
                     \<lparr>g_hosts := filter (\<lambda>h. h \<in> set page) (g_hosts g),
                      g_children := filter (has out) (g_children g)\<rparr>)
              else None
          | None \<Rightarrow> None)" for n
      unfolding f by (rule l)
  qed
qed

theorem matching_groups_closed_witness:
  "\<exists>out. page_groups (plain_params\<lparr>dp_groups := Some Groups_matching\<rparr>) (groups sample_dataset) [''db1''] = Some out
     \<and> fmlookup out ''web'' = None
     \<and> fmlookup out ''prod'' = Some \<lparr>g_hosts = [''db1''], g_children = [], g_vars = None\<rparr>"
proof -
  let ?p = "plain_params\<lparr>dp_groups := Some Groups_matching\<rparr>"
  let ?rows = "group_rows (fm_retain (\<lambda>n _. in_scope ?p n) (groups sample_dataset))"
  have g: "fmlookup (groups sample_dataset) ''prod'' = Some \<lparr>g_hosts = [''web1'', ''db1''], g_children = [], g_vars = None\<rparr>"
    "fmlookup (groups sample_dataset) ''web'' = Some \<lparr>g_hosts = [''web1''], g_children = [], g_vars = None\<rparr>"
    by (simp_all add: sample_dataset_def fmlookup_of_list)
  have scope: "in_scope ?p n" for n by (simp add: in_scope_def plain_params_def)
  have m: "map_of ?rows n = map_option (\<lambda>g. (g_hosts g, g_children g)) (fmlookup (groups sample_dataset) n)" for n
    by (simp add: group_rows_props scope split: option.split)
  have in_rows: "(n, hs, cs) \<in> set ?rows \<longleftrightarrow> map_of ?rows n = Some (hs, cs)" for n hs cs
    by (rule map_of_eq_Some_iff [symmetric]) (simp add: group_rows_props)
  have "reaches ?rows {''db1''} ''prod''"
    by (rule reaches.on_page [of _ "[''web1'', ''db1'']" "[]" _ "''db1''"]) (simp_all add: in_rows m g)
  then have r: "reaches ?rows (set [''db1'']) ''prod''" by simp
  have n: "\<not> reaches ?rows (set [''db1'']) ''web''"
    by (rule notI, erule reaches.cases) (auto simp: in_rows m g)
  have sh: "shape_read_group (var_shape ?p) x = x" for x
    by (simp add: shape_read_group_def drops_nothing_def var_shape_def comma_names_def plain_params_def)
  have gp: "dp_groups ?p = Some Groups_matching" by simp
  from matching_groups_closed [OF gp, of "groups sample_dataset" "[''db1'']"] obtain out
    where out: "page_groups ?p (groups sample_dataset) [''db1''] = Some out"
      and l: "\<forall>n. fmlookup out n =
         (case fmlookup (groups sample_dataset) n of
            Some g \<Rightarrow>
              if in_scope ?p n \<and> reaches ?rows (set [''db1'']) n
              then Some ((shape_read_group (var_shape ?p) g)
                     \<lparr>g_hosts := filter (\<lambda>h. h \<in> set [''db1'']) (g_hosts g),
                      g_children := filter (has out) (g_children g)\<rparr>)
              else None
          | None \<Rightarrow> None)"
    unfolding Let_def by (elim exE conjE)
  show ?thesis
    using out l [THEN spec, of "''web''"] l [THEN spec, of "''prod''"] r n
    by (intro exI [of _ out]) (simp add: g scope sh)
qed

section \<open>Validators\<close>

lemma char_of_inj: "(char_of a :: char) = char_of b \<Longrightarrow> a < 256 \<Longrightarrow> b < 256 \<Longrightarrow> a = (b :: nat)"
  by (drule arg_cong [where f = "of_char :: char \<Rightarrow> nat"]) simp

lemma hex_digit_inj: "hex_digit a = hex_digit b \<Longrightarrow> a < 16 \<Longrightarrow> b < 16 \<Longrightarrow> a = b"
  unfolding hex_digit_def by (drule char_of_inj) (auto split: if_splits)

lemma dec_digit_inj: "(char_of (48 + a) :: char) = char_of (48 + b) \<Longrightarrow> a < 10 \<Longrightarrow> b < 10 \<Longrightarrow> a = (b :: nat)"
  by (drule char_of_inj) simp_all

lemma show_nat_ne [simp]: "show_nat n \<noteq> []" "[] \<noteq> show_nat n"
  by (subst show_nat.simps; simp)+

lemma show_hex_ne [simp]: "show_hex n \<noteq> []" "[] \<noteq> show_hex n"
  by (subst show_hex.simps; simp)+

lemma show_nat_inj: "show_nat a = show_nat b \<Longrightarrow> a = b"
proof (induction a arbitrary: b rule: show_nat.induct)
  case (1 a)
  from "1.prems" have e: "(if a < 10 then [char_of (48 + a)] else show_nat (a div 10) @ [char_of (48 + a mod 10)])
      = (if b < 10 then [char_of (48 + b)] else show_nat (b div 10) @ [char_of (48 + b mod 10)])"
    by (simp only: show_nat.simps [symmetric])
  show ?case
  proof (cases "a < 10")
    case True
    with e show ?thesis by (auto split: if_splits dest: dec_digit_inj)
  next
    case False
    with e have b: "\<not> b < 10" by (auto split: if_splits)
    with False e have "show_nat (a div 10) = show_nat (b div 10)" "a mod 10 = b mod 10"
      by (auto dest: dec_digit_inj)
    with "1.IH" [OF False] have "a div 10 = b div 10" by blast
    with \<open>a mod 10 = b mod 10\<close> show ?thesis by (metis div_mult_mod_eq)
  qed
qed

lemma show_hex_inj: "show_hex a = show_hex b \<Longrightarrow> a = b"
proof (induction a arbitrary: b rule: show_hex.induct)
  case (1 a)
  from "1.prems" have e: "(if a < 16 then [hex_digit a] else show_hex (a div 16) @ [hex_digit (a mod 16)])
      = (if b < 16 then [hex_digit b] else show_hex (b div 16) @ [hex_digit (b mod 16)])"
    by (simp only: show_hex.simps [symmetric])
  show ?case
  proof (cases "a < 16")
    case True
    with e show ?thesis by (auto split: if_splits dest: hex_digit_inj)
  next
    case False
    with e have b: "\<not> b < 16" by (auto split: if_splits)
    with False e have "show_hex (a div 16) = show_hex (b div 16)" "a mod 16 = b mod 16"
      by (auto dest: hex_digit_inj)
    with "1.IH" [OF False] have "a div 16 = b div 16" by blast
    with \<open>a mod 16 = b mod 16\<close> show ?thesis by (metis div_mult_mod_eq)
  qed
qed

definition plain_char :: "char \<Rightarrow> bool" where
  "plain_char c \<longleftrightarrow> c \<noteq> CHR ''-'' \<and> c \<noteq> CHR '','' \<and> \<not> is_ws c"

lemma plain_charI: "48 \<le> (of_char c :: nat) \<Longrightarrow> plain_char c"
  by (auto simp: plain_char_def is_ws_def)

lemma show_nat_plain: "list_all plain_char (show_nat n)"
proof (induction n rule: show_nat.induct)
  case (1 n)
  have "a < 10 \<Longrightarrow> plain_char (char_of (48 + a))" for a :: nat by (rule plain_charI) simp
  with 1 show ?case by (subst show_nat.simps) simp
qed

lemma show_hex_plain: "list_all plain_char (show_hex n)"
proof (induction n rule: show_hex.induct)
  case (1 n)
  have "a < 16 \<Longrightarrow> plain_char (hex_digit a)" for a :: nat by (rule plain_charI) (simp add: hex_digit_def)
  with 1 show ?case by (subst show_hex.simps) simp
qed

lemma query_etag_inj:
  assumes "query_etag hq i p gen = query_etag hq i' p' gen'"
  shows "hq (i, p) = hq (i', p') \<and> gen = gen'"
proof -
  have no_dash: "CHR ''-'' \<notin> set (show_hex n)" for n
    using show_hex_plain [of n] by (auto simp: list_all_iff plain_char_def)
  let ?a = "show_hex (unat (hq (i, p)))" and ?b = "show_hex (unat (hq (i', p')))"
  have "?a @ CHR ''-'' # show_nat (unat gen) = ?b @ CHR ''-'' # show_nat (unat gen')"
    using assms by (simp add: query_etag_def)
  then have "takeWhile (\<lambda>c. c \<noteq> CHR ''-'') (?a @ CHR ''-'' # show_nat (unat gen)) = takeWhile (\<lambda>c. c \<noteq> CHR ''-'') (?b @ CHR ''-'' # show_nat (unat gen'))"
    by simp
  then have "?a = ?b" by (simp add: split_at_first(1) [OF no_dash])
  moreover from this assms have "show_nat (unat gen) = show_nat (unat gen')" by (simp add: query_etag_def)
  ultimately show ?thesis by (simp add: show_hex_inj show_nat_inj word_unat_eq_iff)
qed

lemma query_etag_clean:
  "CHR '','' \<notin> set (query_etag hq i p gen)" "trim (query_etag hq i p gen) = query_etag hq i p gen"
proof -
  show "CHR '','' \<notin> set (query_etag hq i p gen)"
    using show_nat_plain [of "unat gen"] show_hex_plain [of "unat (hq (i, p))"]
    by (auto simp: query_etag_def list_all_iff plain_char_def)
  have "\<not> is_ws (CHR 0x22)" by code_simp
  then show "trim (query_etag hq i p gen) = query_etag hq i p gen"
    by (simp add: query_etag_def trim_def)
qed

lemma validator_match:
  "if_none_match (Some (query_etag hq i p gen)) etag \<longleftrightarrow> etag = query_etag hq i p gen"
proof -
  have "query_etag hq i p gen \<noteq> ''*''" by (simp add: query_etag_def)
  then show ?thesis
    by (auto simp: if_none_match_def split_on_clean [OF query_etag_clean(1)] query_etag_clean(2))
qed

text \<open>The counter stands for the entries, also when it is read a few calls later.\<close>

lemma generation_detects_before:
  assumes "length calls + length during < 2 ^ 64"
    and "generation (fold mc_call during (fold mc_call calls c)) = generation c"
  shows "mc_get (fold mc_call calls c) k = mc_get c k"
proof -
  obtain n where n: "n \<le> length calls" "generation (fold mc_call calls c) = generation c + of_nat n"
    "n = 0 \<longrightarrow> (\<forall>k. mc_get (fold mc_call calls c) k = mc_get c k)"
    using mem.gen_run_calls [of calls c] unfolding mc_call_def by blast
  obtain m where m: "m \<le> length during"
    "generation (fold mc_call during (fold mc_call calls c)) = generation (fold mc_call calls c) + of_nat m"
    using mem.gen_run_calls [of during "fold mc_call calls c"] unfolding mc_call_def by blast
  have "of_nat (n + m) = (0 :: u64)" using assms(2) n(2) m(2) by simp
  with n(1) m(1) assms(1) have "n + m = 0" by (intro of_nat_u64_0) simp_all
  with n(3) show ?thesis by simp
qed
lemma fill_same [simp]: "fill_entry i old old st = st"
  by (auto simp: fill_entry_def mc_get_def fmupd_same)

text \<open>A filtered read of a cached source, in one equation.\<close>

lemma read_source_filtered:
  assumes "\<not> is_plain p" and "mc_get (ss_cache st) i = Some entry"
  shows "read_source env i p f inm during outcome st =
    (let c = fold mc_call during (ss_cache st);
         etag = query_etag (rd_hash_query env) i p (generation c);
         rh = with_refresh_headers (rd_header_ok env) outcome;
         body = Page_body (source_page (rd_number env) (rd_show_json env) i (e_dataset entry) f p)
     in (st\<lparr>ss_cache := c\<rparr>,
         if if_none_match inm etag then Inr (not_modified etag rh)
         else (case rd_body_error env body of
                 Some e \<Rightarrow> Inl (Serialize_failed e) | None \<Rightarrow> Inr (ok_reply etag rh body))))"
  using assms by (simp add: read_source_def answer_source_def Let_def split: option.split)

lemma reply_simps [simp]:
  "rp_status (not_modified etag rh) = 304" "rp_status (ok_reply etag rh body) = 200"
  "rp_etag (not_modified etag rh) = etag" "rp_etag (ok_reply etag rh body) = etag"
  "rp_body (ok_reply etag rh body) = body" "rp_body (not_modified etag rh) = No_body"
  "rp_refresh (not_modified etag rh) = rh" "rp_refresh (ok_reply etag rh body) = rh"
  by (simp_all add: not_modified_def ok_reply_def)

lemma filtered_reply:
  assumes "\<not> is_plain p" and "read_source env i p f inm during outcome st = (st', Inr r)"
  shows "\<exists>entry. mc_get (ss_cache st) i = Some entry \<and> ss_cache st' = fold mc_call during (ss_cache st)
    \<and> rp_etag r = query_etag (rd_hash_query env) i p (generation (ss_cache st'))
    \<and> (rp_status r = 200 \<and> \<not> if_none_match inm (rp_etag r)
        \<and> rp_body r = Page_body (source_page (rd_number env) (rd_show_json env) i (e_dataset entry) f p)
       \<or> rp_status r = 304 \<and> if_none_match inm (rp_etag r))"
proof -
  obtain entry where e: "mc_get (ss_cache st) i = Some entry"
    using assms(2) by (auto simp: read_source_def split: option.splits)
  with assms show ?thesis
    by (auto simp: read_source_filtered [OF assms(1) e] Let_def split: if_splits option.splits)
qed

text \<open>
  C37. A filtered answer's validator can be trusted for as long as the process runs: when it was minted with no
  write between the entry and the counter, then whatever is called on the cache afterwards (fewer than
  \<open>2 ^ 64\<close> calls), a later request that presents it and is told that nothing changed is the same query of the
  same source, and the page it is not sent is the page the validator came with. Two different queries with one
  hash are the only exception.
\<close>

theorem not_modified_truthful:
  fixes env :: "'f::linorder read_env"
  assumes "\<not> is_plain p" and "\<not> is_plain p'" and "dataset_filter p = Inr f" and "dataset_filter p' = Inr f'"
    and first: "read_source env i p f inm [] out st = (st1, Inr r1)" "rp_status r1 = 200"
    and later: "st2 = st1\<lparr>ss_cache := fold mc_call calls (ss_cache st1)\<rparr>" "length calls + length during < 2 ^ 64"
    and second: "read_source env i' p' f' (Some (rp_etag r1)) during out' st2 = (st3, Inr r2)" "rp_status r2 = 304"
    and hash: "rd_hash_query env (i, p) = rd_hash_query env (i', p') \<Longrightarrow> (i, p) = (i', p')"
  shows "(i', p') = (i, p)
    \<and> (\<exists>entry. mc_get (ss_cache st2) i = Some entry
         \<and> rp_body r1 = Page_body (source_page (rd_number env) (rd_show_json env) i (e_dataset entry) f p))"
proof -
  from filtered_reply [OF assms(1) first(1)] first(2) obtain old where old: "mc_get (ss_cache st) i = Some old"
    "ss_cache st1 = ss_cache st" "rp_etag r1 = query_etag (rd_hash_query env) i p (generation (ss_cache st1))"
    "rp_body r1 = Page_body (source_page (rd_number env) (rd_show_json env) i (e_dataset old) f p)" by auto
  from filtered_reply [OF assms(2) second(1)] second(2)
  have "ss_cache st3 = fold mc_call during (ss_cache st2)"
    "rp_etag r2 = query_etag (rd_hash_query env) i' p' (generation (ss_cache st3))"
    "if_none_match (Some (rp_etag r1)) (rp_etag r2)" by auto
  with old(3) have "query_etag (rd_hash_query env) i' p' (generation (ss_cache st3))
      = query_etag (rd_hash_query env) i p (generation (ss_cache st1))"
    by (simp add: validator_match)
  note inj = query_etag_inj [OF this]
  then have same: "(i, p) = (i', p')" using hash by simp
  have "generation (fold mc_call during (fold mc_call calls (ss_cache st1))) = generation (ss_cache st1)"
    using inj \<open>ss_cache st3 = _\<close> later(1) by simp
  then have "mc_get (fold mc_call calls (ss_cache st1)) i = mc_get (ss_cache st1) i"
    using later(2) by (intro generation_detects_before)
  with old same later(1) show ?thesis by simp
qed
definition sample_read_env :: "nat read_env" where
  "sample_read_env =
     \<lparr>rd_serialize = (\<lambda>_. Inr []), rd_hash = (\<lambda>_. 0), rd_hash_query = (\<lambda>_. 0), rd_body_error = (\<lambda>_. None),
      rd_number = (\<lambda>_. None), rd_show_json = (\<lambda>_. []), rd_header_ok = (\<lambda>_. True)\<rparr>"

lemma without_address_props: "\<not> is_plain without_address" "dataset_filter without_address = Inr no_filter"
proof -
  show "\<not> is_plain without_address" by (simp add: is_plain_def without_address_def plain_params_def)
  have "parse_filter [] [] = Inr no_filter"
    by (simp add: parse_filter_def from_conditions_def csv_items_def trim_def no_filter_def)
  then show "dataset_filter without_address = Inr no_filter"
    by (simp add: dataset_filter_def hosts_filter_def host_is_pattern_def text_or_empty_def without_address_def plain_params_def)
qed

text \<open>A filtered read answers 304 to the counter's present value, whatever the entry holds.\<close>

lemma validator_is_counter:
  assumes "\<not> is_plain p" and "mc_get (ss_cache st) i = Some entry"
  shows "read_source env i p f (Some (query_etag (rd_hash_query env) i p (generation (ss_cache st)))) [] out st
    = (st, Inr (not_modified (query_etag (rd_hash_query env) i p (generation (ss_cache st)))
                  (with_refresh_headers (rd_header_ok env) out)))"
  using assms by (simp add: read_source_filtered Let_def validator_match)

lemma sample_first_read:
  assumes "mc_get (ss_cache st) ''vm'' = Some entry"
  shows "read_source sample_read_env ''vm'' without_address no_filter None during None st
    = (st\<lparr>ss_cache := fold mc_call during (ss_cache st)\<rparr>,
       Inr (ok_reply (query_etag (\<lambda>_. 0) ''vm'' without_address (generation (fold mc_call during (ss_cache st)))) None
              (Page_body (source_page (\<lambda>_. None :: nat option) (\<lambda>_. []) ''vm'' (e_dataset entry) no_filter without_address))))"
  by (simp add: read_source_filtered [OF without_address_props(1) assms] Let_def if_none_match_def
      sample_read_env_def with_refresh_headers_def)

lemma sample_vm: "mc_get (ss_cache sample_state) ''vm'' = Some (ce_new 0 sample_dataset 60)"
  by (simp add: sample_state_def vm_cache_get)

theorem not_modified_truthful_witness:
  "\<exists>st1 r1 st2 r2.
     read_source sample_read_env ''vm'' without_address no_filter None [] None sample_state = (st1, Inr r1)
     \<and> read_source sample_read_env ''vm'' without_address no_filter (Some (rp_etag r1)) [] None st1 = (st2, Inr r2)
     \<and> rp_status r2 = 304
     \<and> (\<exists>entry. mc_get (ss_cache st1) ''vm'' = Some entry
          \<and> rp_body r1 = Page_body (source_page (\<lambda>_. None :: nat option) (\<lambda>_. []) ''vm'' (e_dataset entry) no_filter without_address))"
proof -
  obtain st1 r1 where first: "read_source sample_read_env ''vm'' without_address no_filter None [] None sample_state = (st1, Inr r1)"
    "rp_status r1 = 200" "st1 = sample_state" "rp_etag r1 = query_etag (rd_hash_query sample_read_env) ''vm'' without_address (generation (ss_cache sample_state))"
    using sample_first_read [OF sample_vm, of "[]"] by (simp add: sample_read_env_def)
  obtain st2 r2 where second: "read_source sample_read_env ''vm'' without_address no_filter (Some (rp_etag r1)) [] None st1 = (st2, Inr r2)"
    "rp_status r2 = 304"
    unfolding first(3,4) validator_is_counter [OF without_address_props(1) sample_vm] by simp
  have "st1 = st1\<lparr>ss_cache := fold mc_call [] (ss_cache st1)\<rparr>" by simp
  from not_modified_truthful [OF without_address_props(1,1,2,2) first(1,2) this _ second refl]
  show ?thesis using first(1) second by (simp add: sample_read_env_def)
qed

text \<open>
  The comment on the validator says that it is never stale. It is read after the entry, so a write in between
  gives the page of before it the counter of after it, and the next poll is told that nothing changed.
\<close>

lemma empty_page_differs:
  "source_page (\<lambda>_. None :: nat option) (\<lambda>_. []) ''vm'' sample_dataset no_filter without_address
     \<noteq> source_page (\<lambda>_. None :: nat option) (\<lambda>_. []) ''vm'' empty_dataset no_filter without_address"
proof -
  have e: "exact_hosts None = None" by (simp add: exact_hosts_def)
  have "length (fm_keys (hostvars sample_dataset)) \<noteq> length (fm_keys (hostvars empty_dataset))" by code_simp
  then show ?thesis by (auto simp: source_page_def Let_def without_address_def plain_params_def e)
qed

lemma validator_read_after_entry:
  "\<exists>st1 r1 st2 r2 entry.
     read_source sample_read_env ''vm'' without_address no_filter None
       [Call_set ''vm'' (ce_new 1 empty_dataset 60)] None sample_state = (st1, Inr r1)
     \<and> read_source sample_read_env ''vm'' without_address no_filter (Some (rp_etag r1)) [] None st1 = (st2, Inr r2)
     \<and> rp_status r2 = 304 \<and> mc_get (ss_cache st1) ''vm'' = Some entry
     \<and> rp_body r1 \<noteq> Page_body (source_page (\<lambda>_. None :: nat option) (\<lambda>_. []) ''vm'' (e_dataset entry) no_filter without_address)"
proof -
  let ?wr = "[Call_set ''vm'' (ce_new 1 empty_dataset 60)]"
  let ?st1 = "sample_state\<lparr>ss_cache := fold mc_call ?wr (ss_cache sample_state)\<rparr>"
  have g: "mc_get (ss_cache ?st1) ''vm'' = Some (ce_new 1 empty_dataset 60)"
    by (simp add: mc_call_def mc_defs)
  have "rd_hash_query sample_read_env = (\<lambda>_. 0)" by (simp add: sample_read_env_def)
  note v = validator_is_counter [OF without_address_props(1) g, of sample_read_env no_filter None, unfolded this]
  show ?thesis
    by (rule exI [of _ ?st1], rule exI, rule exI [of _ ?st1], rule exI, rule exI, intro conjI,
        rule sample_first_read [OF sample_vm], unfold reply_simps, use v in simp, simp, rule g)
      (use empty_page_differs in \<open>simp add: ce_new_def\<close>)
qed

text \<open>A view's validator is the counter and the query: two configurations, or two sets of advertised claims,
  that route differently share it.\<close>

lemma view_validator_ignores_routing:
  assumes "view_selection (rd_number env) (rd_show_json env) i v f (dp_host p) (dp_group p) vs = (vs', Inr sel)"
  shows "answer_view env gen i v p f (Some (query_etag (rd_hash_query env) i p gen)) out vs
    = Inr (not_modified (query_etag (rd_hash_query env) i p gen) (with_refresh_headers (rd_header_ok env) out))"
  using assms by (simp add: answer_view_def Let_def validator_match)

text \<open>The counter starts at zero in every process, and two runs of it reach the same value.\<close>

lemma validator_outlives_restart:
  "generation (mc_set ''vm'' (ce_new 0 sample_dataset 60) mc_new) = generation (mc_set ''vm'' (ce_new 1 empty_dataset 60) mc_new)"
  by (simp add: mc_defs)
section \<open>Freshness\<close>

lemma executed_source_ttls:
  assumes "executed_source ge cfg i = Some src"
  shows "\<exists>s. fmlookup (rc_sources cfg) i = Some s \<and> s_ttl_overrides src = s_ttl_overrides s
    \<and> s_allow_on_demand_refresh src = s_allow_on_demand_refresh s"
proof -
  have "map_option (\<lambda>s. (s_ttl_overrides s, s_allow_on_demand_refresh s)) (executed_source ge cfg i)
      = map_option (\<lambda>s. (s_ttl_overrides s, s_allow_on_demand_refresh s)) (fmlookup (rc_sources cfg) i)"
    by (cases "fmlookup (rc_sources cfg) i") (simp_all add: executed_source_def source_for_sync_def Let_def split: option.split)
  with assms show ?thesis by (cases "fmlookup (rc_sources cfg) i") auto
qed

lemma same_ttls:
  assumes "s_ttl_overrides a = s_ttl_overrides b"
  shows "group_ttl_by_host a = group_ttl_by_host b" "effective_ttl a = effective_ttl b"
  using assms by (auto simp: group_ttl_by_host_def effective_ttl_def fun_eq_iff Let_def)

lemma listed_status:
  assumes "host_status_of now entry ttl h = Some hs"
  shows "hs_hostname hs = h" "hs_is_fresh hs = is_host_fresh now entry h (Some ttl)"
  using assms by (auto simp: host_status_of_def)

lemma view_select_props:
  assumes "wf_routing vs"
  shows "wf_routing (fst (view_select host grp vs))" "vs_members (fst (view_select host grp vs)) = vs_members vs"
    "owner_index (fst (view_select host grp vs)) h = owner_index vs h"
proof -
  have r: "wf_routing (fst (select host None vs)) \<and> vs_members (fst (select host None vs)) = vs_members vs"
    using run_read_props [OF assms, of "Read_select host None"] by simp
  show w: "wf_routing (fst (view_select host grp vs))" and m: "vs_members (fst (view_select host grp vs)) = vs_members vs"
    using r assms by (auto simp: view_select_def Let_def split: option.splits prod.splits sum.splits)
  show "owner_index (fst (view_select host grp vs)) h = owner_index vs h"
    by (simp add: owner_index_first [OF w] owner_index_first [OF assms] first_claim_def m)
qed

lemma snapshot_member:
  assumes "m \<in> set (vs_members (view_of cfg st j v))"
  shows "ms_entry m = mc_get (ss_cache st) (ms_source_id m)" "ms_source m = fmlookup (rc_sources cfg) (ms_source_id m)"
  using assms by (auto simp: view_of_def snapshot_def split: prod.splits)

lemma view_of_wf [simp]: "wf_routing (view_of cfg st j v)"
  by (simp add: view_of_def snapshot_wf)

lemma stale_single:
  assumes "mc_get c i = Some entry"
  shows "h \<notin> set (stale_hosts now c src i [h] o') \<longleftrightarrow>
    is_host_fresh now entry h (Some (effective_ttl src h (group_ttl_by_host src (e_dataset entry))
      (case o' of Some t \<Rightarrow> t | None \<Rightarrow> as_secs (e_ttl entry))))"
  by (simp add: stale_hosts_def assms Let_def)

lemma view_status_host:
  assumes "hs \<in> set (List.map_filter (view_host_status now v vs) sel)"
  shows "\<exists>m entry. owner_of vs (hs_hostname hs) = Some m \<and> ms_entry m = Some entry
    \<and> hs_is_fresh hs = is_host_fresh now entry (hs_hostname hs) (Some (ms_effective_ttl m v (hs_hostname hs) (ms_group_ttls m)))"
  using assms
  by (auto simp: set_map_filter view_host_status_def Let_def owner_of_def host_status_of_def bind_eq_Some_conv)

definition sample_gather :: gather_env where
  "sample_gather =
     \<lparr>ga_is_file = (\<lambda>_. False), ga_is_dir = (\<lambda>_. False), ga_projects_dir = ''/projects'', ga_now = from_secs 40,
      ga_later = from_secs 40, ga_ms = 1, ga_unix_now = 100, ga_budget = 20,
      ga_run = (\<lambda>i src. timely_sync (sample_env (Run_ok (output_of_dataset empty_dataset))) None (from_secs 40) 1 100 i src 0),
      ga_wait = (\<lambda>_ st. st)\<rparr>"

definition routes_config :: runtime_config where
  "routes_config = (runtime_config_of sample_config)
     \<lparr>rc_sources := fmap_of_list [(''vm'', sample_source)],
      rc_views := fmap_of_list [(''all'', catch_all_view)]\<rparr>"

lemma routes_config_props [simp]:
  "fmlookup (rc_views routes_config) ''vm'' = None" "fmlookup (rc_views routes_config) ''all'' = Some catch_all_view"
  "rc_sources routes_config = fmap_of_list [(''vm'', sample_source)]"
  by (simp_all add: routes_config_def fmlookup_of_list)

lemma routes_config_executed: "executed_source sample_gather routes_config ''vm'' = Some sample_source"
  by (simp add: executed_source_def source_for_sync_def fmlookup_of_list sample_source_def Let_def)


section \<open>A refresh of a view is all or nothing\<close>

lemma gather_hosts_named: "set (refreshed (snd (gather_hosts ge i src hosts o' st))) \<subseteq> set hosts"
proof -
  have sub: "set (stale_hosts n2 c2 src i (stale_hosts n1 c1 src i hosts o') o') \<subseteq> set hosts" for n1 n2 c1 c2
    by (rule subset_trans [OF stale_hosts_sub stale_hosts_sub])
  show ?thesis
    by (auto simp: gather_hosts_def refresh_hosts_def no_refresh_def refresh_done_def refresh_failed_def Let_def
        dest!: subsetD [OF sub] split: sync_end.splits option.splits)
qed

lemma gather_members_refreshed:
  assumes "gather_members ge cfgs o' routed st (out, errs) = (st', Some (out', errs'))"
  shows "set (refreshed out') \<subseteq> set (refreshed out) \<union> (\<Union>(m, hs) \<in> set routed. set hs)"
  using assms
proof (induction routed arbitrary: st out errs)
  case (Cons r routed)
  obtain m hs where r: "r = (m, hs)" by (cases r)
  obtain src where src: "executed_source ge (cfgs (ms_source_id m)) (ms_source_id m) = Some src"
    using Cons.prems r by (auto split: option.splits)
  obtain st1 o1 where g: "gather_hosts ge (ms_source_id m) src hs o' st = (st1, o1)" by fastforce
  have "set (refreshed o1) \<subseteq> set hs" using gather_hosts_named [of ge "ms_source_id m" src hs o' st] g by simp
  with Cons.IH Cons.prems r src g show ?case by fastforce
qed simp

lemma gather_members_panics:
  "snd (gather_members ge cfgs o' routed st acc) = None
     \<Longrightarrow> \<exists>(m, hs) \<in> set routed. executed_source ge (cfgs (ms_source_id m)) (ms_source_id m) = None"
  by (induction ge cfgs o' routed st acc rule: gather_members.induct)
    (auto simp: Let_def split: option.splits prod.splits)

lemma refresh_refused_None:
  "refresh_refused i hosts routed = None \<longleftrightarrow>
     (\<forall>(m, hs) \<in> set routed. \<exists>src. ms_source m = Some src \<and> s_allow_on_demand_refresh src)"
  by (induction routed) (auto split: option.splits if_splits)

lemma route_parts:
  assumes "wf_routing vs" and "snd (route hosts vs) = Inr parts"
  shows "\<forall>h \<in> set hosts. \<exists>m hs. (m, hs) \<in> set parts \<and> h \<in> set hs \<and> owner_of vs h = Some m"
    "\<forall>(m, hs) \<in> set parts. set hs \<subseteq> set hosts \<and> m \<in> set (vs_members vs) \<and> (\<forall>h \<in> set hs. owner_of vs h = Some m)"
proof -
  let ?vs = "prepare_routing (length hosts) vs"
  note p = prepare_routing_props [OF assms(1), where n = "length hosts"]
  have o': "owner_index ?vs h = first_claim vs h" "owner_index vs h = first_claim vs h" for h
    using owner_index_first [OF p(1)] owner_index_first [OF assms(1)] p(3) by simp_all
  let ?owned = "\<lambda>i. filter (\<lambda>h. first_claim vs h = Some i) hosts"
  have all: "\<forall>h \<in> set hosts. first_claim vs h \<noteq> None"
    and parts: "parts = map (\<lambda>i. (vs_members vs ! i, ?owned i)) (filter (\<lambda>i. ?owned i \<noteq> []) [0..<length (vs_members vs)])"
    using assms(2) p(2) by (auto simp: route_def Let_def o' filter_empty_conv split: if_splits)
  show "\<forall>(m, hs) \<in> set parts. set hs \<subseteq> set hosts \<and> m \<in> set (vs_members vs) \<and> (\<forall>h \<in> set hs. owner_of vs h = Some m)"
    by (auto simp: parts owner_of_def o')
  show "\<forall>h \<in> set hosts. \<exists>m hs. (m, hs) \<in> set parts \<and> h \<in> set hs \<and> owner_of vs h = Some m"
  proof
    fix h assume h: "h \<in> set hosts"
    then obtain k where k: "first_claim vs h = Some k" using all by blast
    with h first_claim_bound [OF k] have "(vs_members vs ! k, ?owned k) \<in> set parts"
      by (auto simp: parts filter_empty_conv)
    with h k show "\<exists>m hs. (m, hs) \<in> set parts \<and> h \<in> set hs \<and> owner_of vs h = Some m"
      by (intro exI conjI) (assumption, simp_all add: owner_of_def o')
  qed
qed


lemma sample_view_route:
  "snd (route [''web1''] (snapshot (ss_cache sample_state) (rc_sources routes_config) (ss_scopes sample_state) ''all'' catch_all_view))
    = Inr [(vs_members (view_of routes_config sample_state ''all'' catch_all_view) ! 0, [''web1''])]"
  "ms_source (vs_members (view_of routes_config sample_state ''all'' catch_all_view) ! 0) = Some sample_source"
  "ms_source_id (vs_members (view_of routes_config sample_state ''all'' catch_all_view) ! 0) = ''vm''"
proof -
  have "fmlookup (hostvars sample_dataset) ''web1'' \<noteq> None" by (simp add: sample_dataset_def fmlookup_of_list)
  then have "claims \<lparr>ow_source = ''vm'', ow_groups = [], ow_hosts = [], ow_advertised = False\<rparr> sample_dataset ''web1''"
    by (simp add: claims_def is_catch_all_def)
  then show "snd (route [''web1''] (snapshot (ss_cache sample_state) (rc_sources routes_config) (ss_scopes sample_state) ''all'' catch_all_view))
    = Inr [(vs_members (view_of routes_config sample_state ''all'' catch_all_view) ! 0, [''web1''])]"
    by (simp add: route_def prepare_routing_def ROUTING_TABLE_WORTH_IT_def owner_index_def view_of_def snapshot_def
        catch_all_view_def effective_ownership_def ms_claims_def sample_vm ce_new_def)
  show "ms_source (vs_members (view_of routes_config sample_state ''all'' catch_all_view) ! 0) = Some sample_source"
    "ms_source_id (vs_members (view_of routes_config sample_state ''all'' catch_all_view) ! 0) = ''vm''"
    by (simp_all add: view_of_def snapshot_def catch_all_view_def effective_ownership_def fmlookup_of_list)
qed


text \<open>The panic: the first routed member is gone by the time its gather is set up.\<close>

lemma reload_panics_view_refresh:
  assumes "comma_names host \<noteq> []" and "snd (route (comma_names host) (view_of cfg st i v)) = Inr ((m, hs) # routed)"
    and "refresh_refused i (comma_names host) ((m, hs) # routed) = None"
    and "fmlookup (rc_sources (cfgs (ms_source_id m))) (ms_source_id m) = None"
  shows "refresh_view ge cfg cfgs i v host st = (st, None)"
proof -
  have "executed_source ge (cfgs (ms_source_id m)) (ms_source_id m) = None"
    using assms(4) by (simp add: executed_source_def source_for_sync_def)
  with assms(1-3) show ?thesis by (simp add: refresh_view_def view_of_def)
qed
section \<open>Names without variables\<close>

lemma select_sorted:
  assumes "snd (select host grp vs) = Inr hosts"
  shows "sorted hosts \<and> distinct hosts"
  using assms by (auto simp: select_def Let_def split: option.splits prod.splits if_splits)

lemma view_select_sorted:
  assumes "snd (view_select host grp vs) = Inr hosts"
  shows "sorted hosts \<and> distinct hosts"
proof (cases grp)
  case None
  with assms select_sorted [of host None vs hosts] show ?thesis by (simp add: view_select_def)
next
  case (Some gs)
  show ?thesis
  proof (cases "host = None")
    case True
    with assms Some show ?thesis by (auto simp: view_select_def Let_def)
  next
    case False
    with assms Some obtain hs P where "snd (select host None vs) = Inr hs" "hosts = filter P hs"
      by (auto simp: view_select_def Let_def split: prod.splits sum.splits)
    with select_sorted show ?thesis by (auto simp: sorted_wrt_filter)
  qed
qed

lemma view_selection_sorted:
  assumes "snd (view_selection number show_json i v f host grp vs) = Inr hosts"
  shows "sorted hosts \<and> distinct hosts"
proof -
  obtain vs' r where r: "view_select (exact_hosts host) grp vs = (vs', r)" by fastforce
  obtain hs where hs: "r = Inr hs" using assms r by (cases r) (auto simp: view_selection_def)
  have s: "sorted hs \<and> distinct hs" using view_select_sorted [of "exact_hosts host" grp vs hs] r hs by simp
  have "hosts = hs \<or> (\<exists>vars. hosts = narrow number show_json f vars hs)"
    using assms r hs by (auto simp: view_selection_def split: if_splits prod.splits)
  with s show ?thesis by (auto simp: narrow_props)
qed

lemma hosts_filter_none: "hosts_filter None None = Inr no_filter"
  by (simp add: hosts_filter_def host_is_pattern_def text_or_empty_def parse_filter_def from_conditions_def csv_items_def
      trim_def no_filter_def)

lemma view_selection_all:
  assumes "wf_routing vs"
  shows "snd (view_selection number show_json i v no_filter None None vs) = Inr (snd (view_hosts vs))"
proof -
  have "sort_dedup (snd (view_hosts vs)) = snd (view_hosts vs)"
    by (rule sorted_distinct_set_unique) (simp_all add: view_hosts_eq [OF assms])
  then show ?thesis
    by (cases "view_hosts vs") (simp add: view_selection_def exact_hosts_def host_is_pattern_def view_select_def
        select_def Let_def no_filter_def hf_is_empty_def)
qed

text \<open>
  \<open>/hosts\<close> names exactly the hosts that \<open>/dataset\<close> selects for the same \<open>host\<close>, \<open>group\<close> and \<open>filter\<close>, for a
  source and for a view, sorted and each once; what the two do with a host is decided by one selection.
\<close>

theorem hosts_route_agrees:
  fixes number :: "string \<Rightarrow> 'f::linorder option"
  assumes "list_source_hosts number show_json cfg perms st i p = Inr hl"
    and "hosts_filter (hp_host p) (hp_filter p) = Inr f"
  shows "hl_total_hosts hl = length (hl_hosts hl) \<and> sorted (hl_hosts hl) \<and> distinct (hl_hosts hl)
    \<and> (case fmlookup (rc_views cfg) i of
         None \<Rightarrow> \<exists>entry. mc_get (ss_cache st) i = Some entry
           \<and> hl_hosts hl = source_selection number show_json (e_dataset entry) f (hp_host p) (hp_group p)
       | Some v \<Rightarrow> snd (view_selection number show_json i v f (hp_host p) (hp_group p) (view_of cfg st i v))
           = Inr (hl_hosts hl))"
proof (cases "fmlookup (rc_views cfg) i")
  case None
  obtain entry where e: "mc_get (ss_cache st) i = Some entry" "hl = source_hosts number show_json i (e_dataset entry) f p"
    using assms None by (auto simp: list_source_hosts_def with_entry_def split: if_splits option.splits)
  have "exact_hosts None = None" by (simp add: exact_hosts_def)
  then have "hl_hosts hl = source_selection number show_json (e_dataset entry) f (hp_host p) (hp_group p)"
    using e(2) assms(2) hosts_filter_none
    by (auto simp: source_hosts_def list_hosts_def hosts_is_plain_def sorted_sort_id)
  moreover have "hl_total_hosts hl = length (hl_hosts hl)" using e(2) by (simp add: source_hosts_def list_hosts_def)
  ultimately show ?thesis using None e(1) by simp
next
  case (Some v)
  let ?vs = "view_of cfg st i v"
  have hl: "hosts_of_view number show_json i v f p ?vs = Inr hl"
    using assms Some by (auto simp: list_source_hosts_def split: if_splits)
  have sel: "snd (view_selection number show_json i v f (hp_host p) (hp_group p) ?vs) = Inr (hl_hosts hl)"
  proof (cases "hosts_is_plain p")
    case True
    then have "f = no_filter" using assms(2) hosts_filter_none by (simp add: hosts_is_plain_def)
    with True hl show ?thesis
      by (simp add: hosts_of_view_def hosts_is_plain_def view_selection_all list_hosts_def) auto
  next
    case False
    then obtain hs where hs: "snd (view_selection number show_json i v f (hp_host p) (hp_group p) ?vs) = Inr hs"
      "hl_hosts hl = sort_dedup hs"
      using hl by (auto simp: hosts_of_view_def list_hosts_def split: prod.splits sum.splits)
    have "sort_dedup hs = hs"
      using view_selection_sorted [OF hs(1)] by (intro sorted_distinct_set_unique) simp_all
    with hs show ?thesis by simp
  qed
  moreover have "hl_total_hosts hl = length (hl_hosts hl)"
    using hl by (auto simp: hosts_of_view_def list_hosts_def split: if_splits prod.splits sum.splits)
  ultimately show ?thesis using Some view_selection_sorted [OF sel] by simp
qed

theorem hosts_route_agrees_witness:
  "\<exists>hl. list_source_hosts (\<lambda>_. None :: nat option) (\<lambda>_. []) routes_config Perm_admin sample_state ''vm''
       \<lparr>hp_host = None, hp_group = Some ''web'', hp_filter = None\<rparr> = Inr hl
     \<and> hl_hosts hl = source_selection (\<lambda>_. None :: nat option) (\<lambda>_. []) sample_dataset no_filter None (Some ''web'')
     \<and> set (hl_hosts hl) = {''web1''}"
proof -
  let ?p = "\<lparr>hp_host = None, hp_group = Some ''web'', hp_filter = None\<rparr>"
  obtain hl where hl: "list_source_hosts (\<lambda>_. None :: nat option) (\<lambda>_. []) routes_config Perm_admin sample_state ''vm'' ?p = Inr hl"
    by (simp add: list_source_hosts_def hosts_filter_none with_entry_def sample_vm)
  have "csv_items ''web'' = [''web'']" by code_simp
  moreover have "group_members sample_dataset ''web'' = [''web1'']"
    by (simp add: group_members_def sample_dataset_def fmlookup_of_list)
  ultimately have "set (source_selection (\<lambda>_. None :: nat option) (\<lambda>_. []) sample_dataset no_filter None (Some ''web'')) = {''web1''}"
    by (auto simp: exact_hosts_def resolve_hostnames_set named_by_groups_def)
  with hosts_route_agrees [OF hl, of no_filter] hl show ?thesis
    by (simp add: hosts_filter_none sample_vm ce_new_def)
qed

text \<open>
  A \<open>group\<close> filter selects the names a group lists, not the hosts of the source: one without variables is
  counted and named, though neither the page nor the plain listing has it. A view keeps only hosts it serves.
\<close>

definition ghost_dataset :: dataset where
  "ghost_dataset =
     \<lparr>hostvars = fmempty, groups = fmap_of_list [(''web'', \<lparr>g_hosts = [''gone''], g_children = [], g_vars = None\<rparr>)],
      remove_hosts = []\<rparr>"

lemma group_filter_names_hosts_without_vars:
  "resolve_hostnames ghost_dataset None (Some ''web'') = [''gone'']" "resolve_hostnames ghost_dataset None None = []"
proof -
  have "csv_items ''web'' = [''web'']" by code_simp
  moreover have "group_members ghost_dataset ''web'' = [''gone'']"
    by (simp add: group_members_def ghost_dataset_def fmlookup_of_list)
  ultimately show "resolve_hostnames ghost_dataset None (Some ''web'') = [''gone'']"
    by (simp add: resolve_hostnames_def sort_dedup_def)
  show "resolve_hostnames ghost_dataset None None = []" by (simp add: ghost_dataset_def fm_keys_def)
qed

section \<open>What a restricted key sees\<close>



section \<open>The list\<close>

lemma source_info_simps [simp]:
  "csi_source_id (source_info now cfg st i) = i" "csi_kind (source_info now cfg st i) = Kind_source"
  "csi_cached (source_info now cfg st i) \<longleftrightarrow> mc_get (ss_cache st) i \<noteq> None"
  "csi_source_id (view_info now cfg st i v) = i" "csi_kind (view_info now cfg st i v) = Kind_view"
  by (simp_all add: source_info_def view_info_def Let_def)

lemma plain_filter: "dataset_filter plain_params = Inr no_filter"
  using hosts_filter_none by (simp add: dataset_filter_def plain_params_def host_is_pattern_def)

text \<open>
  The list is what a consumer can follow: it holds every readable source that is configured or still in
  memory, each once, and every readable view, and nothing a key may not read; and a source that it reports as
  cached, when it is not shadowed by a view, is one whose dataset answers, one it reports as not cached is
  one whose dataset is a 404.
\<close>

theorem list_is_followable:
  "let l = list_cached_sources now cfg perms st oc in
   (\<forall>x. x \<in> set l \<longleftrightarrow>
      (\<exists>i. allows_source perms i
         \<and> (x = source_info now cfg st i \<and> (has (rc_sources cfg) i \<or> mc_get (ss_cache st) i \<noteq> None)
              \<and> (oc = Some True \<longrightarrow> mc_get (ss_cache st) i \<noteq> None)
            \<or> (\<exists>v. fmlookup (rc_views cfg) i = Some v \<and> x = view_info now cfg st i v))))
   \<and> distinct (map (\<lambda>x. (csi_kind x, csi_source_id x)) l)
   \<and> (\<forall>x \<in> set l. csi_kind x = Kind_source \<and> fmlookup (rc_views cfg) (csi_source_id x) = None \<longrightarrow>
        (csi_cached x \<longleftrightarrow>
           snd (get_source_dataset env ge cfg cfgs perms (csi_source_id x) plain_params inm during st)
             \<noteq> Some (Inl (Source_not_cached (csi_source_id x)))))"
proof -
  let ?l = "list_cached_sources now cfg perms st oc"
  have keys: "i \<in> set (mc_keys c) \<longleftrightarrow> mc_get c i \<noteq> None" for c i
    by (simp add: mc_keys_def mc_get_def fmlookup_fmdom')
  have mem: "x \<in> set ?l \<longleftrightarrow>
      (\<exists>i. allows_source perms i
         \<and> (x = source_info now cfg st i \<and> (has (rc_sources cfg) i \<or> mc_get (ss_cache st) i \<noteq> None)
              \<and> (oc = Some True \<longrightarrow> mc_get (ss_cache st) i \<noteq> None)
            \<or> (\<exists>v. fmlookup (rc_views cfg) i = Some v \<and> x = view_info now cfg st i v)))" for x
  proof -
    have "x \<in> set (map (\<lambda>i. view_info now cfg st i (the (fmlookup (rc_views cfg) i)))
          (filter (allows_source perms) (fm_keys (rc_views cfg))))
        \<longleftrightarrow> (\<exists>i v. allows_source perms i \<and> fmlookup (rc_views cfg) i = Some v \<and> x = view_info now cfg st i v)"
      by (simp add: image_iff fmlookup_fmdom' Bex_def) (metis option.sel)
    then show ?thesis by (auto simp: list_cached_sources_def Let_def keys fmlookup_fmdom')
  qed
  have d: "distinct (map (\<lambda>x. (csi_kind x, csi_source_id x)) ?l)"
    by (auto simp: list_cached_sources_def Let_def comp_def distinct_map inj_on_def)
  have served: "mc_get (ss_cache st) i \<noteq> None \<longleftrightarrow>
      snd (get_source_dataset env ge cfg cfgs perms i plain_params inm during st) \<noteq> Some (Inl (Source_not_cached i))"
    if "allows_source perms i" "fmlookup (rc_views cfg) i = None" for i
    using that plain_filter
    by (auto simp: get_source_dataset_def source_dataset_def read_source_def answer_source_def Let_def plain_params_def
        split: option.splits prod.splits sum.splits)
  have f: "csi_cached x \<longleftrightarrow>
           snd (get_source_dataset env ge cfg cfgs perms (csi_source_id x) plain_params inm during st)
             \<noteq> Some (Inl (Source_not_cached (csi_source_id x)))"
    if "x \<in> set ?l" "csi_kind x = Kind_source \<and> fmlookup (rc_views cfg) (csi_source_id x) = None" for x
  proof -
    from that mem [of x] obtain i where "allows_source perms i" "x = source_info now cfg st i" by auto
    with that(2) served [of i] show ?thesis by simp
  qed
  show ?thesis unfolding Let_def using mem d f by (intro conjI allI ballI impI)
qed

text \<open>\<open>?cached=true\<close> lists only what holds data, its description says; a view is listed all the same.\<close>

lemma cached_list_names_empty_views:
  assumes "allows_source perms i" and "fmlookup (rc_views cfg) i = Some v"
    and "\<forall>m \<in> set (v_members v). mc_get (ss_cache st) (vm_source m) = None"
  shows "\<exists>x \<in> set (list_cached_sources now cfg perms st (Some True)). csi_source_id x = i \<and> \<not> csi_cached x"
proof -
  have "\<not> view_cached (view_of cfg st i v)"
    using assms(3) by (auto simp: view_cached_def list_ex_iff view_of_def snapshot_def split: prod.splits)
  moreover have "view_info now cfg st i v \<in> set (list_cached_sources now cfg perms st (Some True))"
    using assms(1,2) by (auto simp: list_cached_sources_def Let_def fmlookup_fmdom' image_iff intro!: bexI [of _ i])
  ultimately show ?thesis by (intro bexI [of _ "view_info now cfg st i v"]) (simp_all add: view_info_def Let_def)
qed

section \<open>Telling how a refresh went\<close>

definition header_bytes :: "string \<Rightarrow> bool" where
  "header_bytes s \<longleftrightarrow> list_all (\<lambda>c. 32 \<le> (of_char c :: nat) \<and> (of_char c :: nat) \<noteq> 127) s"

text \<open>UTF-8: a character of more than one byte starts with a byte above the ASCII ones.\<close>

definition utf8_text :: "string \<Rightarrow> bool" where
  "utf8_text s \<longleftrightarrow> list_all (\<lambda>ch. 1 < length ch \<longrightarrow> 128 \<le> (of_char (hd ch) :: nat)) (utf8_chars s)"

lemma utf8_chars_cases:
  "ch \<in> set (utf8_chars s) \<Longrightarrow> \<exists>c cs. ch = c # cs \<and> list_all continuation_byte cs"
proof (induction s rule: utf8_chars.induct)
  case (2 c cs)
  then show ?case by (auto simp: list_all_iff dest: set_takeWhileD)
qed simp

lemma sanitized_header:
  assumes "utf8_text s"
  shows "header_bytes (sanitize_header_value s)"
proof -
  have "header_bytes (if is_control ch then '' '' else ch)" if ch: "ch \<in> set (utf8_chars s)" for ch
  proof -
    obtain c cs where c: "ch = c # cs" "list_all continuation_byte cs" using utf8_chars_cases [OF ch] by blast
    show ?thesis
    proof (cases cs)
      case Nil
      with c show ?thesis by (auto simp: header_bytes_def is_control_def)
    next
      case (Cons d ds)
      with c ch assms have "128 \<le> (of_char c :: nat)" by (fastforce simp: utf8_text_def list_all_iff)
      with c show ?thesis by (auto simp: header_bytes_def list_all_iff continuation_byte_def)
    qed
  qed
  then show ?thesis by (auto simp: sanitize_header_value_def header_bytes_def list_all_iff)
qed

text \<open>
  A refresh that failed is always told: on any reply, whatever the connector wrote to its error output, the
  reply says that the refresh failed and carries the error, with its control characters blanked, so a header
  crate that takes printable bytes takes it.
\<close>

theorem refresh_error_told:
  assumes "\<And>s. header_bytes s \<Longrightarrow> valid s" and "rf_error out = Some e" and "utf8_text e"
  shows "\<exists>rh. with_refresh_headers valid (Some out) = Some rh
    \<and> \<not> rh_refreshed rh \<and> rh_refresh_error rh = Some (sanitize_header_value e)"
  using assms sanitized_header by (simp add: with_refresh_headers_def header_if_valid_def)

theorem refresh_error_told_witness:
  "\<exists>rh. with_refresh_headers header_bytes (Some (refresh_failed [CHR ''a'', CHR 0x0A, CHR ''b''])) = Some rh
     \<and> \<not> rh_refreshed rh \<and> rh_refresh_error rh = Some (sanitize_header_value [CHR ''a'', CHR 0x0A, CHR ''b''])"
proof -
  have "utf8_text [CHR ''a'', CHR 0x0A, CHR ''b'']" by code_simp
  then show ?thesis by (intro refresh_error_told) (simp_all add: refresh_failed_def)
qed

end
