(* ===== verification/Spec2Isabelle.thy ===== *)
theory Spec2Isabelle
  imports Persistence Host_Items Group_Trim Coordinator Refresh_Locks Output Config_Load Federation Generations Yaml Static_Inventory
    Host_Search Source_Routes
begin

text \<open>
  A model of \<open>unified-api\<close>, a service that gathers inventories (hosts, their variables and their groups) from many
  sources, keeps them in a cache and answers from it. Files are named under \<open>src/src/\<close>.

  \<^bold>\<open>How the program fits together.\<close> A configuration directory is read, checked and resolved
  (\<open>config.rs\<close>) into sources, views, enrichers, endpoints, projects, credentials and API keys. A periodic task per
  source (\<open>adapters/in/scheduler/mod.rs\<close>), a request, or a read that asks for fresh data
  (\<open>application/refresh.rs\<close>) runs a sync (\<open>application/sync.rs\<close>): the credentials are resolved, the connector of the
  source is called and its dataset is written into the cache (\<open>domain/cache_entry.rs\<close>,
  \<open>adapters/out/cache/memory.rs\<close>); then the enrichers of the source add to it (\<open>application/enrich.rs\<close>). Readers get
  the dataset of a source, of a view over several sources (\<open>application/views.rs\<close>), the rendered output of an endpoint
  (\<open>application/output.rs\<close>), or where a host is (\<open>application/host_search.rs\<close>). The cache is saved to disk and
  restored (\<open>adapters/out/cache/persistence.rs\<close>); how runs went is remembered (\<open>domain/sync_health.rs\<close>); a reload
  swaps the configuration of the running process (\<open>application/config.rs\<close>, \<open>state.rs\<close>); and instances that read from
  one another draw and push a map of their federation (\<open>application/topology.rs\<close>).

  \<^bold>\<open>Which theory models what.\<close>
  \<^item> \<open>Prelude\<close>: the vocabulary of the Rust library the sources use: strings, sorting, hash maps, the clock, saturating
    counters.
  \<^item> \<open>Var_Path\<close>: \<open>domain/var_path.rs\<close>, JSON values and the selection of variables by dotted path. \<open>Datasets\<close>:
    \<open>domain/dataset.rs\<close>, the data model and the reader of Ansible's inventory JSON. \<open>Yaml\<close>: the reader of
    \<open>domain/yaml.rs\<close> over parser events. \<open>Static_Inventory\<close>: \<open>domain/static_inventory.rs\<close>, YAML inventories.
  \<^item> \<open>Cache_Entry\<close>, \<open>Memory_Cache\<close>: an entry with its clocks and the store; \<open>ports/cache.rs\<close> is the locale
    \<open>cache_port\<close>, interpreted on the store. \<open>Sync_Health\<close>: the run records. \<open>Persistence\<close>: the snapshot file.
  \<^item> \<open>Connectors\<close>, \<open>Sources\<close>, \<open>Host_Items\<close>, \<open>Scripts\<close>, \<open>Credentials\<close>, \<open>Credential_Rules\<close>, \<open>Access\<close>: the items of
    a configuration and their rules (\<open>domain/connector.rs\<close>, \<open>source.rs\<close>, \<open>host.rs\<close>, \<open>credential.rs\<close>,
    \<open>project.rs\<close>, \<open>api_key.rs\<close>, \<open>ldap.rs\<close>), what a connector is given (\<open>application/credentials.rs\<close>) and what a key
    allows (\<open>adapters/in/http/auth.rs\<close>).
  \<^item> \<open>Config\<close>, \<open>Config_Load\<close>: \<open>config.rs\<close>, every check of a configuration and the loading of its directory. \<open>Runtime\<close>:
    the running configuration and what a reload compares, adopts and refuses.
  \<^item> \<open>Enrich\<close>, \<open>Sync\<close>, \<open>Refresh\<close>: the use cases that write the cache, each a function from the state before to the
    state after. \<open>Coordinator\<close> and \<open>Refresh_Locks\<close> put syncs and refreshes next to one another as step relations: the
    per-source lock, the counter that lets a waiting sync answer with an earlier one, the per-host locks, the permits.
  \<^item> \<open>Projects\<close>: pulls of git checkouts, alone and at once. \<open>Scheduler\<close>: which tasks there are and how they pace
    themselves; the three jobs are instances of the locale \<open>scheduled_job\<close>. \<open>Generations\<close>: reloads over running tasks.
  \<^item> \<open>Views\<close> (with the locale \<open>claimant\<close>), \<open>Host_Filter\<close>, \<open>Group_Trim\<close>, \<open>Output\<close>, \<open>Host_Search\<close>: what readers get.
    \<open>Dataset_Read\<close>, \<open>View_Read\<close> and \<open>Source_Routes\<close>: the read routes, \<open>adapters/in/http/sources.rs\<close>, \<open>views.rs\<close> and
    \<open>detail.rs\<close>: queries, pages, validators, the refresh before a read, statuses and lists.
  \<^item> \<open>Topology\<close>, \<open>Federation\<close>: \<open>domain/topology.rs\<close> and \<open>application/topology.rs\<close>.

  \<^bold>\<open>What the lemmas show.\<close> For the data: that selections, merges and renders contain exactly what they should and
  nothing an exclusion, a limit or a permission hides; that encoders and readers are inverse (JSON inventory, CSV, filters,
  shell words, snapshots, YAML documents). For the cache: that clocks are never in the future, data never looks fresher
  than it is, a failed run changes nothing, and a sync keeps the hosts it could not reach. For the configuration: that an
  accepted one refers to nothing missing and that its endpoints, views, sources and tasks work as written; that loading
  loses nothing; that a reload reports exactly what changed and never turns authentication off. For concurrency: mutual
  exclusion, absence of deadlock, that a coalesced answer is as new as the request, that waiting work can always go on,
  that the recorded commits of a project form a chain and that reloads leave no data behind. For loops: that they end, with
  their bounds (YAML aliases, federation hops, back-off, glob, trimming). For the routes: that the pages of a query add up to its
  selection, that a validator is trusted only over the same data, that what \<open>/status\<close> says is what a refresh does, that
  a refresh of a view is all or nothing, and that a restricted key does not learn how a source is gathered.

  \<^bold>\<open>Conventions.\<close> A Rust string is the list of its UTF-8 bytes; trimming and case are those of ASCII. A hash map is
  an \<open>fmap\<close>; where the code iterates one in an unspecified order the model visits the keys in order, and lists that
  the code sorts afterwards are the same. Instants are natural numbers of nanoseconds and every operation that reads the
  clock takes \<open>now\<close>. Counters of fixed width are words, with wrapping or saturation as in the code; sizes that the code
  cannot bring near their width are naturals. Errors are values; error messages are constructors with the operands the
  message shows, except where a text is stored or compared. A Mutex or RwLock makes its critical section one step; the
  concurrent models have a step per section the code can be interrupted between.

  \<^bold>\<open>Parameters.\<close> Code that is not in this repository, or that is a process or a network call, is an argument: the runs
  of connectors, enrichers and output scripts, git and virtualenvs (on a world of checkouts), the secrets store and its
  naming functions, peers, the session store, the files of a directory, the YAML parser's events, the text of a JSON
  document, \<open>f64\<close> parsing, cron expressions, the standard hash. What a theorem relies on of them is a hypothesis with a
  name, and its witness instantiates the parameter.

  \<^bold>\<open>Fuel and termination.\<close> Recursion is structural or has a measure wherever the code's is. Where fuel is used it is shown
  to suffice: YAML reading takes twice the events plus three, the walk of a static inventory one more than the depth of
  the tree, CSV reading one more than the cells, text replacement the length; peers ask one another at most four levels deep.

  \<^bold>\<open>Not modelled.\<close> Processes, sockets, timers and the wall clock themselves; the HTTP layer's decoding of requests and
  encoding of answers (the read routes are modelled from the decoded query to the value of the body); login, cookies, the directory and the routes of the configuration API, which are in other crates;
  the typing of YAML trees by serde (\<open>from_json_with_text\<close>); metrics, logging and the user interface.
\<close>

end
